(* ===== verification/Prelude.thy ===== *)
theory Prelude
  imports "HOL-Library.Word" "HOL-Library.AList" "HOL-Library.Multiset"
begin

text \<open>
  Shared ground of the development: the theorem collections, the type synonyms that name
  Go's basic types, Go's \<open>string\<close> and \<open>time\<close> conventions, and lemmas on lists that
  several components use.

  A Go \<open>string\<close> and a \<open>[]byte\<close> are both a HOL \<^typ>\<open>string\<close>, one \<^typ>\<open>char\<close> per
  byte. A \<open>time.Time\<close> is the instant it names, an \<^typ>\<open>int\<close> number of nanoseconds since
  the Unix epoch; a \<open>time.Duration\<close> is an \<^typ>\<open>int\<close> number of nanoseconds as in Go. A
  UUID is the 128-bit value its 16 bytes spell, so that the byte-wise order SQL gives UUIDs
  is the unsigned order of the word.
\<close>

type_synonym bytes = string
type_synonym time = int
type_synonym duration = int
type_synonym uuid = "128 word"

named_theorems go_defs \<open>definitions of small wrappers, unfolded together\<close>
named_theorems frame \<open>what an operation leaves unchanged\<close>
named_theorems bound \<open>capacity bounds kept by an operation\<close>

section \<open>Durations\<close>

definition Second :: duration where
  "Second = 1000000000"

definition Minute :: duration where
  "Minute = 60 * Second"

section \<open>Lists\<close>

lemma filter_filter_conj: "filter P (filter Q xs) = filter (\<lambda>x. P x \<and> Q x) xs"
  by (induction xs) auto

lemma take_Suc_length_le: "length (take n xs) \<le> n"
  by simp

lemma take_take_append: "take n (take n xs @ ys) = take n (xs @ ys)"
  by (cases "n \<le> length xs") (auto simp: min_def)

lemma sorted_wrt_takeD:
  assumes "sorted_wrt R xs" "x \<in> set (take n xs)" "y \<in> set (drop n xs)"
  shows "R x y"
  using assms by (metis append_take_drop_id sorted_wrt_append)

lemma foldl_inv:
  assumes "P s" "\<And>s x. P s \<Longrightarrow> x \<in> set xs \<Longrightarrow> P (f s x)"
  shows "P (foldl f s xs)"
  using assms by (induction xs arbitrary: s) auto

lemma sum_list_update_comm:
  fixes f :: "'a \<Rightarrow> 'b::comm_monoid_add"
  shows "i < length xs \<Longrightarrow> sum_list (map f (xs[i := y])) + f (xs ! i) = sum_list (map f xs) + f y"
  by (induction xs arbitrary: i) (auto simp: add_ac split: nat.splits)

lemma sum_list_replicate_empty [simp]: "sum_list (replicate k {#}) = {#}"
  by (induction k) auto

text \<open>The growth of a counter between readings, as the metrics reporters log it.\<close>

fun deltas :: "int \<Rightarrow> int list \<Rightarrow> int list" where
  "deltas prev [] = []"
| "deltas prev (x # xs) = (x - prev) # deltas x xs"

lemma sum_deltas: "sum_list (deltas prev xs) = last (prev # xs) - prev"
  by (induction prev xs rule: deltas.induct) auto

end
