(* ===== verification/Go_Strings.thy ===== *)
theory Go_Strings
  imports Prelude
begin

text \<open>
  The functions of Go's packages \<open>strings\<close> and \<open>unicode/utf8\<close> that the program calls, on
  byte strings: \<open>HasPrefix\<close>, \<open>HasSuffix\<close>, \<open>Contains\<close>, \<open>ReplaceAll\<close>, \<open>Split\<close>
  and \<open>SplitN\<close> on a one-byte separator, \<open>Join\<close>, and UTF-8 decoding as
  \<open>utf8.DecodeRune\<close> does it (an invalid byte is the replacement rune of width one).
\<close>

section \<open>Prefixes, suffixes, substrings\<close>

definition HasPrefix :: "string \<Rightarrow> string \<Rightarrow> bool" where
  "HasPrefix s p \<longleftrightarrow> take (length p) s = p"

definition HasSuffix :: "string \<Rightarrow> string \<Rightarrow> bool" where
  "HasSuffix s p \<longleftrightarrow> length p \<le> length s \<and> drop (length s - length p) s = p"

fun Contains :: "string \<Rightarrow> string \<Rightarrow> bool" where
  "Contains [] sub \<longleftrightarrow> sub = []"
| "Contains (c # s) sub \<longleftrightarrow> HasPrefix (c # s) sub \<or> Contains s sub"

lemma HasPrefix_iff: "HasPrefix s p \<longleftrightarrow> (\<exists>t. s = p @ t)"
  by (metis HasPrefix_def append_eq_conv_conj append_take_drop_id)

lemma HasSuffix_iff: "HasSuffix s p \<longleftrightarrow> (\<exists>t. s = t @ p)"
proof
  assume "HasSuffix s p"
  then have "s = take (length s - length p) s @ p"
    by (metis HasSuffix_def append_take_drop_id)
  then show "\<exists>t. s = t @ p" ..
qed (auto simp: HasSuffix_def)

lemma Contains_iff: "Contains s sub \<longleftrightarrow> (\<exists>a b. s = a @ sub @ b)"
proof (induction s)
  case Nil
  then show ?case by auto
next
  case (Cons c s)
  show ?case
    by (auto simp: HasPrefix_iff Cons.IH Cons_eq_append_conv)
qed

section \<open>ReplaceAll\<close>

text \<open>
  Left to right, non-overlapping. \<open>skip\<close> counts the bytes of the match just replaced that
  are still to be dropped. The empty pattern is handled by \<open>ReplaceAll\<close> below.
\<close>

fun replace_from :: "string \<Rightarrow> string \<Rightarrow> nat \<Rightarrow> string \<Rightarrow> string" where
  "replace_from old new skip [] = []"
| "replace_from old new (Suc k) (c # s) = replace_from old new k s"
| "replace_from old new 0 (c # s) =
     (if HasPrefix (c # s) old then new @ replace_from old new (length old - 1) s
      else c # replace_from old new 0 s)"

section \<open>UTF-8\<close>

definition byte_in :: "nat \<Rightarrow> nat \<Rightarrow> char \<Rightarrow> bool" where
  "byte_in lo hi c \<longleftrightarrow> lo \<le> (of_char c :: nat) \<and> (of_char c :: nat) \<le> hi"

fun continuation :: "string \<Rightarrow> nat \<Rightarrow> nat \<Rightarrow> bool" where
  "continuation [] lo hi \<longleftrightarrow> False"
| "continuation (c # s) lo hi \<longleftrightarrow> byte_in lo hi c"

text \<open>The width of the rune that starts a string, or \<^const>\<open>None\<close> where the bytes are not UTF-8.\<close>

fun rune_width :: "string \<Rightarrow> nat option" where
  "rune_width [] = None"
| "rune_width (a # rest) =
     (if byte_in 0 127 a then Some 1
      else if byte_in 194 223 a then
        (if continuation rest 128 191 then Some 2 else None)
      else if byte_in 224 239 a then
        (if continuation rest (if byte_in 224 224 a then 160 else 128)
              (if byte_in 237 237 a then 159 else 191) \<and>
            continuation (drop 1 rest) 128 191
         then Some 3 else None)
      else if byte_in 240 244 a then
        (if continuation rest (if byte_in 240 240 a then 144 else 128)
              (if byte_in 244 244 a then 143 else 191) \<and>
            continuation (drop 1 rest) 128 191 \<and> continuation (drop 2 rest) 128 191
         then Some 4 else None)
      else None)"

definition RuneError :: string where
  "RuneError = [char_of (239::nat), char_of (191::nat), char_of (189::nat)]"

text \<open>
  A string cut into its runes, each given as its bytes; an invalid byte is a piece of its own.
  \<open>acc\<close> is the rune being collected, \<open>k\<close> the bytes it still needs.
\<close>

fun chunks_from :: "nat \<Rightarrow> string \<Rightarrow> string \<Rightarrow> string list" where
  "chunks_from k acc [] = (if acc = [] then [] else [acc])"
| "chunks_from (Suc k) acc (c # s) =
     (if k = 0 then (acc @ [c]) # chunks_from 0 [] s else chunks_from k (acc @ [c]) s)"
| "chunks_from 0 acc (c # s) =
     (case rune_width (c # s) of
        None \<Rightarrow> [c] # chunks_from 0 [] s
      | Some n \<Rightarrow> if n = 1 then [c] # chunks_from 0 [] s else chunks_from (n - 1) [c] s)"

definition chunks :: "string \<Rightarrow> string list" where
  "chunks s = chunks_from 0 [] s"

text \<open>The conversion \<open>[]rune(s)\<close>: an invalid byte becomes the replacement rune.\<close>

definition runes :: "string \<Rightarrow> string list" where
  "runes s = map (\<lambda>r. if rune_width r = None then RuneError else r) (chunks s)"

definition ReplaceAll :: "string \<Rightarrow> string \<Rightarrow> string \<Rightarrow> string" where
  "ReplaceAll s old new =
     (if old = [] then new @ concat (map (\<lambda>r. r @ new) (chunks s))
      else replace_from old new 0 s)"

section \<open>Splitting and joining\<close>

fun Split :: "string \<Rightarrow> char \<Rightarrow> string list" where
  "Split [] sep = [[]]"
| "Split (c # s) sep =
     (if c = sep then [] # Split s sep
      else case Split s sep of [] \<Rightarrow> [[c]] | p # ps \<Rightarrow> (c # p) # ps)"

text \<open>\<open>strings.SplitN(s, sep, 2)\<close>: at the first separator only.\<close>

definition SplitN2 :: "string \<Rightarrow> char \<Rightarrow> string list" where
  "SplitN2 s sep =
     (if sep \<in> set s
      then [takeWhile (\<lambda>c. c \<noteq> sep) s, tl (dropWhile (\<lambda>c. c \<noteq> sep) s)]
      else [s])"

fun Join :: "string list \<Rightarrow> string \<Rightarrow> string" where
  "Join [] sep = []"
| "Join [p] sep = p"
| "Join (p # ps) sep = p @ sep @ Join ps sep"

lemma Split_nonempty: "Split s sep \<noteq> []"
  by (cases s) (auto split: list.splits)

lemma Join_Cons: "ps \<noteq> [] \<Longrightarrow> Join (p # ps) sep = p @ sep @ Join ps sep"
  by (cases ps) auto

lemma Join_Split: "Join (Split s sep) [sep] = s"
proof (induction s)
  case (Cons c s)
  show ?case
  proof (cases "Split s sep")
    case Nil
    then show ?thesis using Split_nonempty by blast
  next
    case (Cons p ps)
    then show ?thesis using Cons.IH by (cases ps) auto
  qed
qed simp

lemma SplitN2_append: "sep \<notin> set a \<Longrightarrow> SplitN2 (a @ sep # b) sep = [a, b]"
  by (simp add: SplitN2_def takeWhile_append dropWhile_append)

end
