(* ===== verification/Go_Float.thy ===== *)
theory Go_Float
  imports Go_Strings
begin

text \<open>
  Go's \<open>float64\<close> as the 64-bit IEEE 754 pattern it is: comparison (NaN compares false, the two
  zeros are equal), correctly rounded conversion from a fraction, the shortest decimal that
  reads back (\<open>fmt\<close> verb \<open>%v\<close>), and reading a float from the front of a string as
  \<open>fmt.Sscanf(s, "%f", &f)\<close> does.
\<close>

type_synonym float64 = "64 word"

section \<open>Comparison\<close>

definition f64_neg :: "float64 \<Rightarrow> bool" where
  "f64_neg w \<longleftrightarrow> 2 ^ 63 \<le> uint w"

definition f64_mag :: "float64 \<Rightarrow> int" where
  "f64_mag w = uint w mod 2 ^ 63"

definition f64_inf_mag :: int where
  "f64_inf_mag = 2047 * 2 ^ 52"

definition is_nan :: "float64 \<Rightarrow> bool" where
  "is_nan w \<longleftrightarrow> f64_inf_mag < f64_mag w"

text \<open>Sign and magnitude read as a signed integer order the floats that are not NaN.\<close>

definition f64_key :: "float64 \<Rightarrow> int" where
  "f64_key w = (if f64_neg w then - f64_mag w else f64_mag w)"

definition f64_lt :: "float64 \<Rightarrow> float64 \<Rightarrow> bool" where
  "f64_lt a b \<longleftrightarrow> \<not> is_nan a \<and> \<not> is_nan b \<and> f64_key a < f64_key b"

definition f64_le :: "float64 \<Rightarrow> float64 \<Rightarrow> bool" where
  "f64_le a b \<longleftrightarrow> \<not> is_nan a \<and> \<not> is_nan b \<and> f64_key a \<le> f64_key b"

definition f64_eq :: "float64 \<Rightarrow> float64 \<Rightarrow> bool" where
  "f64_eq a b \<longleftrightarrow> \<not> is_nan a \<and> \<not> is_nan b \<and> f64_key a = f64_key b"

definition f64_zero :: float64 where
  "f64_zero = 0"

definition f64_NaN :: float64 where
  "f64_NaN = 0x7FF8000000000001"

definition f64_inf :: "bool \<Rightarrow> float64" where
  "f64_inf neg = (if neg then 0xFFF0000000000000 else 0x7FF0000000000000)"

lemma f64_lt_not_le: "\<not> is_nan a \<Longrightarrow> \<not> is_nan b \<Longrightarrow> f64_lt a b \<longleftrightarrow> \<not> f64_le b a"
  by (auto simp: f64_lt_def f64_le_def)

lemma f64_nan_lt [simp]: "is_nan a \<Longrightarrow> \<not> f64_lt a b" "is_nan b \<Longrightarrow> \<not> f64_lt a b"
  and f64_nan_le [simp]: "is_nan a \<Longrightarrow> \<not> f64_le a b" "is_nan b \<Longrightarrow> \<not> f64_le a b"
  by (auto simp: f64_lt_def f64_le_def)

lemma f64_lt_trans: "f64_lt a b \<Longrightarrow> f64_lt b c \<Longrightarrow> f64_lt a c"
  and f64_le_trans: "f64_le a b \<Longrightarrow> f64_le b c \<Longrightarrow> f64_le a c"
  and f64_lt_le_trans: "f64_lt a b \<Longrightarrow> f64_le b c \<Longrightarrow> f64_lt a c"
  by (auto simp: f64_lt_def f64_le_def)

section \<open>Correctly rounded conversion\<close>

definition round_half_even :: "int \<Rightarrow> int \<Rightarrow> int" where
  "round_half_even n d =
     (let q = n div d; r = n mod d
      in if 2 * r < d \<or> 2 * r = d \<and> even q then q else q + 1)"

function bit_len :: "int \<Rightarrow> nat" where
  "bit_len n = (if n \<le> 0 then 0 else Suc (bit_len (n div 2)))"
  by pat_completeness auto
termination
  by (relation "measure nat") auto

declare bit_len.simps [simp del]

lemma bit_len_eval [simp]:
  "bit_len 0 = 0" "bit_len 1 = 1"
  "bit_len (numeral (num.Bit0 k)) = Suc (bit_len (numeral k))"
  "bit_len (numeral (num.Bit1 k)) = Suc (bit_len (numeral k))"
  by (subst bit_len.simps, simp add: bit_len.simps [of 0])+

text \<open>
  The magnitude pattern of the float nearest to \<open>n / d\<close>, ties to even, in a format with \<open>mb\<close>
  mantissa bits whose smallest denormal is \<open>2 ^ -q\<close>; \<^const>\<open>None\<close> where it reaches infinity.
  In units of the smallest denormal the value is \<open>n * 2 ^ q / d\<close>; rounding it to \<open>mb + 1\<close>
  significant bits gives \<open>m * 2 ^ s\<close>, whose pattern is \<open>s * 2 ^ mb + m\<close> (for \<open>s = 0\<close> this is
  \<open>m\<close>, a denormal or the first binade).
\<close>

definition round_bits :: "nat \<Rightarrow> nat \<Rightarrow> int \<Rightarrow> int \<Rightarrow> int \<Rightarrow> int option" where
  "round_bits mb q lim n d =
     (let x = n * 2 ^ q;
          s = bit_len (x div d) - (mb + 1);
          m = round_half_even x (d * 2 ^ s);
          b = int s * 2 ^ mb + m
      in if lim \<le> b then None else Some b)"

definition f64_of_frac :: "bool \<Rightarrow> int \<Rightarrow> int \<Rightarrow> float64 option" where
  "f64_of_frac neg n d =
     map_option (\<lambda>b. word_of_int (b + (if neg then 2 ^ 63 else 0)))
       (round_bits 52 1074 f64_inf_mag n d)"

definition f64_of_scaled :: "bool \<Rightarrow> int \<Rightarrow> int \<Rightarrow> int \<Rightarrow> float64 option" where
  "f64_of_scaled neg m base e =
     (if 0 \<le> e then f64_of_frac neg (m * base ^ nat e) 1
      else f64_of_frac neg m (base ^ nat (- e)))"

definition f64_of_int :: "int \<Rightarrow> float64" where
  "f64_of_int i =
     (case f64_of_frac (i < 0) \<bar>i\<bar> 1 of Some f \<Rightarrow> f | None \<Rightarrow> f64_inf (i < 0))"

text \<open>The magnitude of a finite float as an integer and a power of two.\<close>

definition f64_mant :: "float64 \<Rightarrow> int" where
  "f64_mant w =
     (if f64_mag w div 2 ^ 52 = 0 then f64_mag w mod 2 ^ 52
      else f64_mag w mod 2 ^ 52 + 2 ^ 52)"

definition f64_exp :: "float64 \<Rightarrow> int" where
  "f64_exp w = max 1 (f64_mag w div 2 ^ 52) - 1075"

definition f64_ldexp :: "float64 \<Rightarrow> int \<Rightarrow> float64" where
  "f64_ldexp w k =
     (if f64_mag w = 0 \<or> f64_inf_mag \<le> f64_mag w then w
      else case f64_of_scaled (f64_neg w) (f64_mant w) 2 (f64_exp w + k) of
             Some f \<Rightarrow> f | None \<Rightarrow> f64_inf (f64_neg w))"

text \<open>
  A \<open>float32\<close> pattern: sign, mantissa and binary exponent, and the exact conversion
  \<open>float64(v)\<close>.
\<close>

definition f32_mag :: "32 word \<Rightarrow> int" where
  "f32_mag w = uint w mod 2 ^ 31"

definition f32_neg :: "32 word \<Rightarrow> bool" where
  "f32_neg w \<longleftrightarrow> 2 ^ 31 \<le> uint w"

definition f32_mant :: "32 word \<Rightarrow> int" where
  "f32_mant w =
     (if f32_mag w div 2 ^ 23 = 0 then f32_mag w mod 2 ^ 23 else f32_mag w mod 2 ^ 23 + 2 ^ 23)"

definition f32_exp :: "32 word \<Rightarrow> int" where
  "f32_exp w = max 1 (f32_mag w div 2 ^ 23) - 150"

definition f32_inf_mag :: int where
  "f32_inf_mag = 255 * 2 ^ 23"

definition f64_of_f32 :: "32 word \<Rightarrow> float64" where
  "f64_of_f32 w =
     (if f32_mag w = f32_inf_mag then f64_inf (f32_neg w)
      else if f32_inf_mag < f32_mag w then f64_NaN
      else case f64_of_scaled (f32_neg w) (f32_mant w) 2 (f32_exp w) of
             Some f \<Rightarrow> f | None \<Rightarrow> f64_inf (f32_neg w))"

section \<open>Decimal output\<close>

fun nat_digits :: "nat \<Rightarrow> string" where
  "nat_digits n =
     (if n < 10 then [char_of (48 + n)]
      else nat_digits (n div 10) @ [char_of (48 + n mod 10)])"

declare nat_digits.simps [simp del]

definition int_digits :: "int \<Rightarrow> string" where
  "int_digits i = (if i < 0 then ''-'' @ nat_digits (nat (- i)) else nat_digits (nat i))"

text \<open>The decimal point position \<open>k\<close> of \<open>n / d\<close>: the value is in \<open>[10 ^ (k - 1), 10 ^ k)\<close>.\<close>

fun dec_point_below :: "nat \<Rightarrow> int \<Rightarrow> int \<Rightarrow> int" where
  "dec_point_below 0 n d = 0"
| "dec_point_below (Suc fuel) n d =
     (if d \<le> 10 * n then 0 else dec_point_below fuel (10 * n) d - 1)"

definition dec_point :: "int \<Rightarrow> int \<Rightarrow> int" where
  "dec_point n d =
     (if d \<le> n then int (length (nat_digits (nat (n div d)))) else dec_point_below 400 n d)"

text \<open>
  \<open>p\<close> significant digits nearest to \<open>n / d\<close> (ties to even), if \<open>back\<close> says that they read
  back as the same float; the first \<open>p\<close> that works is the shortest representation. Seventeen
  digits always read back.
\<close>

definition digits_at :: "(int \<Rightarrow> int \<Rightarrow> bool) \<Rightarrow> int \<Rightarrow> int \<Rightarrow> int \<Rightarrow> nat \<Rightarrow> int option" where
  "digits_at back n d k p =
     (let e = int p - k;
          c = (if 0 \<le> e then round_half_even (n * 10 ^ nat e) d
               else round_half_even n (d * 10 ^ nat (- e)))
      in if back c (- e) then Some c else None)"

fun shortest_from :: "nat \<Rightarrow> nat \<Rightarrow> (int \<Rightarrow> int \<Rightarrow> bool) \<Rightarrow> int \<Rightarrow> int \<Rightarrow> int \<Rightarrow> int \<times> int" where
  "shortest_from 0 p back n d k = (0, 0)"
| "shortest_from (Suc fuel) p back n d k =
     (case digits_at back n d k p of
        Some c \<Rightarrow> (c, k - int p)
      | None \<Rightarrow> shortest_from fuel (Suc p) back n d k)"

definition strip_zeros :: "string \<Rightarrow> string" where
  "strip_zeros s = rev (dropWhile (\<lambda>c. c = CHR ''0'') (rev s))"

text \<open>The shortest digits of \<open>m * 2 ^ e\<close> and the position of the decimal point in them.\<close>

definition shortest_digits :: "(int \<Rightarrow> int \<Rightarrow> bool) \<Rightarrow> int \<Rightarrow> int \<Rightarrow> string \<times> int" where
  "shortest_digits back m e =
     (let n = (if 0 \<le> e then m * 2 ^ nat e else m);
          d = (if 0 \<le> e then 1 else 2 ^ nat (- e));
          (c, x) = shortest_from 17 1 back n d (dec_point n d);
          raw = nat_digits (nat c)
      in (strip_zeros raw, int (length raw) + x))"

definition f64_digits :: "float64 \<Rightarrow> string \<times> int" where
  "f64_digits f =
     (if f64_mag f = 0 then (''0'', 1)
      else shortest_digits (\<lambda>c x. f64_of_scaled (f64_neg f) c 10 x = Some f) (f64_mant f) (f64_exp f))"

definition f32_digits :: "32 word \<Rightarrow> string \<times> int" where
  "f32_digits f =
     (if f32_mag f = 0 then (''0'', 1)
      else shortest_digits
        (\<lambda>c x. (if 0 \<le> x then round_bits 23 149 f32_inf_mag (c * 10 ^ nat x) 1
               else round_bits 23 149 f32_inf_mag c (10 ^ nat (- x))) = Some (f32_mag f))
        (f32_mant f) (f32_exp f))"

text \<open>\<open>strconv\<close> formats \<open>'e'\<close> and \<open>'f'\<close> for the shortest digits.\<close>

definition exp_digits :: "int \<Rightarrow> string" where
  "exp_digits e =
     (if e < 0 then ''-'' else ''+'') @
     (if \<bar>e\<bar> < 10 then ''0'' else []) @ nat_digits (nat \<bar>e\<bar>)"

definition format_e :: "string \<Rightarrow> int \<Rightarrow> string" where
  "format_e digs dp =
     take 1 digs @ (if 1 < length digs then ''.'' @ drop 1 digs else []) @ ''e'' @ exp_digits (dp - 1)"

definition format_f :: "string \<Rightarrow> int \<Rightarrow> string" where
  "format_f digs dp =
     (if dp \<le> 0 then ''0.'' @ replicate (nat (- dp)) (CHR ''0'') @ digs
      else if int (length digs) \<le> dp then digs @ replicate (nat (dp - int (length digs))) (CHR ''0'')
      else take (nat dp) digs @ ''.'' @ drop (nat dp) digs)"

text \<open>
  \<open>fmt.Sprintf("%v", f)\<close>: format \<open>'g'\<close> with the shortest precision, which writes an exponent
  where it is below \<open>-4\<close> or at least 6.
\<close>

definition format_g :: "bool \<Rightarrow> string \<times> int \<Rightarrow> string" where
  "format_g neg dd =
     (case dd of (digs, dp) \<Rightarrow>
        (if neg then ''-'' else []) @
        (if dp - 1 < -4 \<or> 6 \<le> dp - 1 then format_e digs dp else format_f digs dp))"

definition fmt_float64 :: "float64 \<Rightarrow> string" where
  "fmt_float64 f =
     (if is_nan f then ''NaN''
      else if f64_mag f = f64_inf_mag then (if f64_neg f then ''-Inf'' else ''+Inf'')
      else format_g (f64_neg f) (f64_digits f))"

definition fmt_float32 :: "32 word \<Rightarrow> string" where
  "fmt_float32 f =
     (if f32_inf_mag < f32_mag f then ''NaN''
      else if f32_mag f = f32_inf_mag then (if f32_neg f then ''-Inf'' else ''+Inf'')
      else format_g (f32_neg f) (f32_digits f))"

end
