(* ===== verification/Domain_Errors.thy ===== *)
theory Domain_Errors
  imports Go_Strings
begin

text \<open>
  Go \<open>error\<close> values and \<open>internal/domain/errors/errors.go\<close>: the sentinels, the two
  classified error types, \<open>Error\<close>, \<open>Unwrap\<close>, and \<open>errors.As\<close>, which looks for a type
  along the chain of wrapped errors.

  \<open>TextError\<close> stands for an error made by \<open>errors.New\<close>, by \<open>fmt.Errorf\<close> without
  \<open>%w\<close>, or by code outside the repository: only its text is known. \<open>WrapError\<close> is an
  error of \<open>fmt.Errorf\<close> with \<open>%w\<close>: the whole text and the error it wraps.
  \<open>KafkaError\<close> is a \<open>kafka.Error\<close> with its code; the program distinguishes four codes.
\<close>

datatype kafka_code = ErrTimedOut | ErrTransport | ErrAllBrokersDown | ErrNetworkException
  | OtherCode int

datatype goerr =
    TextError string
  | ErrNotFound
  | ErrInvalidInput
  | ErrInternal
  | ErrRecordNotFound
  | KafkaError kafka_code string
  | PermanentError string "goerr option"
  | TransientError string "goerr option"
  | WrapError string goerr

fun Error :: "goerr \<Rightarrow> string" where
  "Error (TextError t) = t"
| "Error ErrNotFound = ''resource not found''"
| "Error ErrInvalidInput = ''invalid input''"
| "Error ErrInternal = ''internal error''"
| "Error ErrRecordNotFound = ''record not found''"
| "Error (KafkaError code t) = t"
| "Error (PermanentError reason (Some e)) = reason @ '': '' @ Error e"
| "Error (PermanentError reason None) = reason"
| "Error (TransientError reason (Some e)) = reason @ '': '' @ Error e"
| "Error (TransientError reason None) = reason"
| "Error (WrapError t e) = t"

fun Unwrap :: "goerr \<Rightarrow> goerr option" where
  "Unwrap (PermanentError reason e) = e"
| "Unwrap (TransientError reason e) = e"
| "Unwrap (WrapError t e) = Some e"
| "Unwrap _ = None"

definition NewPermanentError :: "string \<Rightarrow> goerr option \<Rightarrow> goerr" where
  "NewPermanentError reason err = PermanentError reason err"

definition NewTransientError :: "string \<Rightarrow> goerr option \<Rightarrow> goerr" where
  "NewTransientError reason err = TransientError reason err"

text \<open>\<open>fmt.Errorf("prefix: %w", err)\<close>\<close>

definition Errorf_w :: "string \<Rightarrow> goerr \<Rightarrow> goerr" where
  "Errorf_w prefix err = WrapError (prefix @ '': '' @ Error err) err"

text \<open>\<open>errors.As\<close> for each of the two types: the error itself, then what it wraps.\<close>

fun IsPermanent :: "goerr \<Rightarrow> bool" where
  "IsPermanent (PermanentError reason e) \<longleftrightarrow> True"
| "IsPermanent (TransientError reason (Some e)) \<longleftrightarrow> IsPermanent e"
| "IsPermanent (WrapError t e) \<longleftrightarrow> IsPermanent e"
| "IsPermanent _ \<longleftrightarrow> False"

fun IsTransient :: "goerr \<Rightarrow> bool" where
  "IsTransient (TransientError reason e) \<longleftrightarrow> True"
| "IsTransient (PermanentError reason (Some e)) \<longleftrightarrow> IsTransient e"
| "IsTransient (WrapError t e) \<longleftrightarrow> IsTransient e"
| "IsTransient _ \<longleftrightarrow> False"

text \<open>\<open>errors.Is(err, ErrNotFound)\<close> and \<open>errors.Is(err, gorm.ErrRecordNotFound)\<close>.\<close>

fun Is :: "goerr \<Rightarrow> goerr \<Rightarrow> bool" where
  "Is (PermanentError reason (Some e)) t \<longleftrightarrow> PermanentError reason (Some e) = t \<or> Is e t"
| "Is (TransientError reason (Some e)) t \<longleftrightarrow> TransientError reason (Some e) = t \<or> Is e t"
| "Is (WrapError m e) t \<longleftrightarrow> WrapError m e = t \<or> Is e t"
| "Is e t \<longleftrightarrow> e = t"

section \<open>The chain of an error\<close>

text \<open>The errors of the chain, outermost first; \<open>errors.As\<close> is a search along it.\<close>

fun error_chain :: "goerr \<Rightarrow> goerr list" where
  "error_chain (PermanentError reason (Some e)) = PermanentError reason (Some e) # error_chain e"
| "error_chain (TransientError reason (Some e)) = TransientError reason (Some e) # error_chain e"
| "error_chain (WrapError t e) = WrapError t e # error_chain e"
| "error_chain e = [e]"

lemma error_chain_hd: "error_chain e = e # (case Unwrap e of None \<Rightarrow> [] | Some e' \<Rightarrow> error_chain e')"
  by (cases e rule: error_chain.cases) auto

lemma IsPermanent_chain:
  "IsPermanent e \<longleftrightarrow> (\<exists>reason e'. PermanentError reason e' \<in> set (error_chain e))"
  by (induction e rule: error_chain.induct) auto

lemma IsTransient_chain:
  "IsTransient e \<longleftrightarrow> (\<exists>reason e'. TransientError reason e' \<in> set (error_chain e))"
  by (induction e rule: error_chain.induct) auto

lemma Is_chain: "Is e t \<longleftrightarrow> t \<in> set (error_chain e)"
  by (induction e rule: error_chain.induct) auto

lemma IsPermanent_New [simp]: "IsPermanent (NewPermanentError r e)"
  and IsTransient_New [simp]: "IsTransient (NewTransientError r e)"
  by (simp_all add: NewPermanentError_def NewTransientError_def)

lemma IsPermanent_NewTransient [simp]:
  "IsPermanent (NewTransientError r e) \<longleftrightarrow> (\<exists>e'. e = Some e' \<and> IsPermanent e')"
  by (cases e) (auto simp: NewTransientError_def)

lemma Errorf_w_simps [simp]:
  "IsPermanent (Errorf_w p e) \<longleftrightarrow> IsPermanent e"
  "IsTransient (Errorf_w p e) \<longleftrightarrow> IsTransient e"
  "Error (Errorf_w p e) = p @ '': '' @ Error e"
  by (simp_all add: Errorf_w_def)

end
