(* ===== verification/Go_Json.thy ===== *)
theory Go_Json
  imports Go_Float Domain_Errors
begin

text \<open>
  What the program uses of \<open>encoding/json\<close>: the validity check and the decoding of a message
  into \<open>map[string]interface{}\<close> (\<open>json.Unmarshal\<close>), the quoting of strings, and the
  compaction of a \<open>json.RawMessage\<close> (\<open>json.Marshal\<close>).

  A byte-wise scanner (a state machine over the input, as Go's own) cuts the input into
  tokens; a stack machine over the tokens builds the value, at most 10000 levels deep. Both
  recurse on their input, so decoding always returns.
\<close>

section \<open>Go values\<close>

text \<open>
  The dynamic values an \<open>interface{}\<close> holds in this program. A Go map is an association list
  with distinct keys. \<open>GFloat\<close> is what JSON numbers decode to; the other number types are the
  cases \<open>toFloat64\<close> distinguishes.
\<close>

datatype goval =
    GNil
  | GBool bool
  | GFloat float64
  | GFloat32 "32 word"
  | GInt "64 word"
  | GInt32 "32 word"
  | GInt64 "64 word"
  | GString string
  | GSlice "goval list"
  | GMap "(string \<times> goval) list"

type_synonym gomap = "(string \<times> goval) list"

section \<open>Scanner\<close>

datatype token = TLBrace | TRBrace | TLBrack | TRBrack | TColon | TComma
  | TString string | TNumber string | TTrue | TFalse | TNull

datatype scan_mode = SNormal | SString string | SEscape string | SWord string

definition is_space :: "char \<Rightarrow> bool" where
  "is_space c \<longleftrightarrow> c \<in> {CHR '' '', CHR 0x09, CHR 0x0A, CHR 0x0D}"

definition is_digit :: "char \<Rightarrow> bool" where
  "is_digit c \<longleftrightarrow> byte_in 48 57 c"

definition is_word :: "char \<Rightarrow> bool" where
  "is_word c \<longleftrightarrow> is_digit c \<or> byte_in 97 122 c \<or> c \<in> {CHR ''E'', CHR ''+'', CHR ''-'', CHR ''.''}"

text \<open>The JSON number grammar: sign, integer part without a leading zero, fraction, exponent.\<close>

definition drop_sign :: "string \<Rightarrow> string" where
  "drop_sign s = (case s of c # r \<Rightarrow> if c = CHR ''-'' then r else s | [] \<Rightarrow> [])"

fun valid_exponent :: "string \<Rightarrow> bool" where
  "valid_exponent [] \<longleftrightarrow> True"
| "valid_exponent (c # s) \<longleftrightarrow>
     (c = CHR ''e'' \<or> c = CHR ''E'') \<and>
     (let d = (case s of [] \<Rightarrow> [] | g # r \<Rightarrow> if g = CHR ''+'' \<or> g = CHR ''-'' then r else s)
      in d \<noteq> [] \<and> list_all is_digit d)"

fun valid_fraction :: "string \<Rightarrow> bool" where
  "valid_fraction [] \<longleftrightarrow> True"
| "valid_fraction (c # s) \<longleftrightarrow>
     (if c = CHR ''.''
      then takeWhile is_digit s \<noteq> [] \<and> valid_exponent (dropWhile is_digit s)
      else valid_exponent (c # s))"

definition valid_number :: "string \<Rightarrow> bool" where
  "valid_number s \<longleftrightarrow>
     (let t = drop_sign s; ip = takeWhile is_digit t
      in ip \<noteq> [] \<and> (hd ip = CHR ''0'' \<longrightarrow> length ip = 1) \<and> valid_fraction (dropWhile is_digit t))"

definition word_token :: "string \<Rightarrow> token option" where
  "word_token w =
     (if w = ''true'' then Some TTrue
      else if w = ''false'' then Some TFalse
      else if w = ''null'' then Some TNull
      else if valid_number w then Some (TNumber w)
      else None)"

fun punct_token :: "char \<Rightarrow> token option" where
  "punct_token c =
     (if c = CHR ''{'' then Some TLBrace else if c = CHR ''}'' then Some TRBrace
      else if c = CHR ''['' then Some TLBrack else if c = CHR '']'' then Some TRBrack
      else if c = CHR '':'' then Some TColon else if c = CHR '','' then Some TComma
      else None)"

text \<open>One byte between tokens: the tokens it adds and the mode it opens.\<close>

definition scan_normal :: "char \<Rightarrow> (token list \<times> scan_mode) option" where
  "scan_normal c =
     (if is_space c then Some ([], SNormal)
      else if c = CHR 0x22 then Some ([], SString [])
      else if is_word c then Some ([], SWord [c])
      else map_option (\<lambda>t. ([t], SNormal)) (punct_token c))"

text \<open>
  Words and string bodies are collected in reverse. A string body keeps its escapes; a
  control byte in it is an error.
\<close>

fun scan_byte :: "scan_mode \<Rightarrow> char \<Rightarrow> (token list \<times> scan_mode) option" where
  "scan_byte SNormal c = scan_normal c"
| "scan_byte (SString acc) c =
     (if c = CHR 0x22 then Some ([TString (rev acc)], SNormal)
      else if c = CHR 0x5C then Some ([], SEscape acc)
      else if byte_in 0 31 c then None
      else Some ([], SString (c # acc)))"
| "scan_byte (SEscape acc) c = Some ([], SString (c # CHR 0x5C # acc))"
| "scan_byte (SWord acc) c =
     (if is_word c then Some ([], SWord (c # acc))
      else case word_token (rev acc) of
             None \<Rightarrow> None
           | Some t \<Rightarrow> map_option (\<lambda>(ts, m). (t # ts, m)) (scan_normal c))"

fun scan :: "scan_mode \<Rightarrow> string \<Rightarrow> token list option" where
  "scan SNormal [] = Some []"
| "scan (SWord acc) [] = map_option (\<lambda>t. [t]) (word_token (rev acc))"
| "scan (SString acc) [] = None"
| "scan (SEscape acc) [] = None"
| "scan m (c # s) =
     (case scan_byte m c of
        None \<Rightarrow> None
      | Some (ts, m') \<Rightarrow> map_option (\<lambda>us. ts @ us) (scan m' s))"

section \<open>String bodies\<close>

text \<open>Bytes that are not UTF-8 become the replacement rune, one per byte.\<close>

definition fix_utf8 :: "string \<Rightarrow> string" where
  "fix_utf8 s = concat (runes s)"

definition hex_val :: "char \<Rightarrow> nat option" where
  "hex_val c =
     (if byte_in 48 57 c then Some (of_char c - 48)
      else if byte_in 97 102 c then Some (of_char c - 87)
      else if byte_in 65 70 c then Some (of_char c - 55)
      else None)"

definition hex4 :: "char \<Rightarrow> char \<Rightarrow> char \<Rightarrow> char \<Rightarrow> nat option" where
  "hex4 a b c d =
     (case (hex_val a, hex_val b, hex_val c, hex_val d) of
        (Some w, Some x, Some y, Some z) \<Rightarrow> Some (((w * 16 + x) * 16 + y) * 16 + z)
      | _ \<Rightarrow> None)"

text \<open>\<open>utf8.AppendRune\<close>; a surrogate half is written as the replacement rune.\<close>

definition encode_rune :: "nat \<Rightarrow> string" where
  "encode_rune r =
     (if r < 128 then [char_of r]
      else if r < 2048 then [char_of (192 + r div 64), char_of (128 + r mod 64)]
      else if 55296 \<le> r \<and> r < 57344 then RuneError
      else if r < 65536
        then [char_of (224 + r div 4096), char_of (128 + r div 64 mod 64), char_of (128 + r mod 64)]
      else [char_of (240 + r div 262144), char_of (128 + r div 4096 mod 64),
            char_of (128 + r div 64 mod 64), char_of (128 + r mod 64)])"

definition simple_escape :: "char \<Rightarrow> char option" where
  "simple_escape c =
     (if c \<in> {CHR 0x22, CHR 0x5C, CHR 0x2F} then Some c
      else if c = CHR ''b'' then Some (CHR 0x08) else if c = CHR ''f'' then Some (CHR 0x0C)
      else if c = CHR ''n'' then Some (CHR 0x0A) else if c = CHR ''r'' then Some (CHR 0x0D)
      else if c = CHR ''t'' then Some (CHR 0x09) else None)"

text \<open>
  Two \<open>\u\<close> escapes that form a surrogate pair are one rune. \<open>hi\<close> is a high surrogate still
  waiting for its partner; unpaired, it is the replacement rune.
\<close>

definition flush_hi :: "nat option \<Rightarrow> string" where
  "flush_hi hi = (case hi of None \<Rightarrow> [] | Some _ \<Rightarrow> RuneError)"

fun unescape :: "nat option \<Rightarrow> string \<Rightarrow> string option" where
  "unescape hi [] = Some (flush_hi hi)"
| "unescape hi [c] = (if c = CHR 0x5C then None else Some (flush_hi hi @ [c]))"
| "unescape hi (c # e # s) =
     (if c \<noteq> CHR 0x5C then map_option (\<lambda>t. flush_hi hi @ c # t) (unescape None (e # s))
      else if e = CHR ''u'' then
        (case s of
           p # q # u # v # rest \<Rightarrow>
             (case hex4 p q u v of
                None \<Rightarrow> None
              | Some r \<Rightarrow>
                  (case hi of
                     Some h \<Rightarrow>
                       if 56320 \<le> r \<and> r < 57344
                       then map_option (\<lambda>t. encode_rune (65536 + (h - 55296) * 1024 + (r - 56320)) @ t)
                              (unescape None rest)
                       else if 55296 \<le> r \<and> r < 56320
                       then map_option (\<lambda>t. RuneError @ t) (unescape (Some r) rest)
                       else map_option (\<lambda>t. RuneError @ encode_rune r @ t) (unescape None rest)
                   | None \<Rightarrow>
                       if 55296 \<le> r \<and> r < 56320 then unescape (Some r) rest
                       else map_option (\<lambda>t. encode_rune r @ t) (unescape None rest)))
         | _ \<Rightarrow> None)
      else case simple_escape e of
             None \<Rightarrow> None
           | Some d \<Rightarrow> map_option (\<lambda>t. flush_hi hi @ d # t) (unescape None s))"

definition unquote :: "string \<Rightarrow> string option" where
  "unquote body = unescape None (fix_utf8 body)"

section \<open>Parser\<close>

datatype json = JNull | JBool bool | JNumber string | JString string
  | JArray "json list" | JObject "(string \<times> json) list"

text \<open>
  A frame is an open array with its elements, or an open object with its members and, once
  read, the key whose value is being parsed; both in reverse. The goal says what the next
  token may be.
\<close>

datatype pframe = FArray "json list" | FObject "(string \<times> json) list" string

datatype pgoal = GoalValue | GoalFirstElem | GoalFirstKey | GoalKey | GoalColon | GoalAfter | GoalDone json

type_synonym pstate = "pgoal \<times> pframe list"

definition maxNestingDepth :: nat where
  "maxNestingDepth = 10000"

fun give :: "json \<Rightarrow> pframe list \<Rightarrow> pstate" where
  "give v [] = (GoalDone v, [])"
| "give v (FArray es # st) = (GoalAfter, FArray (v # es) # st)"
| "give v (FObject ms k # st) = (GoalAfter, FObject ((k, v) # ms) k # st)"

definition open_frame :: "pgoal \<Rightarrow> pframe \<Rightarrow> pframe list \<Rightarrow> pstate option" where
  "open_frame g f st = (if length st < maxNestingDepth then Some (g, f # st) else None)"

fun begin_value :: "token \<Rightarrow> pframe list \<Rightarrow> pstate option" where
  "begin_value TNull st = Some (give JNull st)"
| "begin_value TTrue st = Some (give (JBool True) st)"
| "begin_value TFalse st = Some (give (JBool False) st)"
| "begin_value (TNumber n) st = Some (give (JNumber n) st)"
| "begin_value (TString b) st = map_option (\<lambda>s. give (JString s) st) (unquote b)"
| "begin_value TLBrack st = open_frame GoalFirstElem (FArray []) st"
| "begin_value TLBrace st = open_frame GoalFirstKey (FObject [] []) st"
| "begin_value _ st = None"

definition set_key :: "string \<Rightarrow> pframe list \<Rightarrow> pstate option" where
  "set_key b st =
     (case (unquote b, st) of
        (Some k, FObject ms _ # st') \<Rightarrow> Some (GoalColon, FObject ms k # st')
      | _ \<Rightarrow> None)"

definition close_array :: "pframe list \<Rightarrow> pstate option" where
  "close_array st = (case st of FArray es # st' \<Rightarrow> Some (give (JArray (rev es)) st') | _ \<Rightarrow> None)"

definition close_object :: "pframe list \<Rightarrow> pstate option" where
  "close_object st = (case st of FObject ms _ # st' \<Rightarrow> Some (give (JObject (rev ms)) st') | _ \<Rightarrow> None)"

definition after_value :: "token \<Rightarrow> pframe list \<Rightarrow> pstate option" where
  "after_value t st =
     (case (t, st) of
        (TComma, FArray _ # _) \<Rightarrow> Some (GoalValue, st)
      | (TComma, FObject _ _ # _) \<Rightarrow> Some (GoalKey, st)
      | (TRBrack, _) \<Rightarrow> close_array st
      | (TRBrace, _) \<Rightarrow> close_object st
      | _ \<Rightarrow> None)"

fun parse_token :: "pstate \<Rightarrow> token \<Rightarrow> pstate option" where
  "parse_token (GoalValue, st) t = begin_value t st"
| "parse_token (GoalFirstElem, st) t = (if t = TRBrack then close_array st else begin_value t st)"
| "parse_token (GoalFirstKey, st) t =
     (case t of TString b \<Rightarrow> set_key b st | TRBrace \<Rightarrow> close_object st | _ \<Rightarrow> None)"
| "parse_token (GoalKey, st) t = (case t of TString b \<Rightarrow> set_key b st | _ \<Rightarrow> None)"
| "parse_token (GoalColon, st) t = (if t = TColon then Some (GoalValue, st) else None)"
| "parse_token (GoalAfter, st) t = after_value t st"
| "parse_token (GoalDone v, st) t = None"

fun parse_tokens :: "pstate \<Rightarrow> token list \<Rightarrow> json option" where
  "parse_tokens (g, st) [] = (case g of GoalDone v \<Rightarrow> Some v | _ \<Rightarrow> None)"
| "parse_tokens ps (t # ts) =
     (case parse_token ps t of None \<Rightarrow> None | Some ps' \<Rightarrow> parse_tokens ps' ts)"

definition json_parse :: "string \<Rightarrow> json option" where
  "json_parse s = (case scan SNormal s of None \<Rightarrow> None | Some ts \<Rightarrow> parse_tokens (GoalValue, []) ts)"

definition json_Valid :: "string \<Rightarrow> bool" where
  "json_Valid s \<longleftrightarrow> json_parse s \<noteq> None"

section \<open>Decoding into Go values\<close>

definition digits_val :: "string \<Rightarrow> int" where
  "digits_val s = foldl (\<lambda>n c. n * 10 + int (of_char c - 48)) 0 s"

definition exponent_val :: "string \<Rightarrow> int" where
  "exponent_val s =
     (case s of
        [] \<Rightarrow> 0
      | c # r \<Rightarrow>
          (case r of
             [] \<Rightarrow> 0
           | g # d \<Rightarrow> if g = CHR ''-'' then - digits_val d
                      else if g = CHR ''+'' then digits_val d else digits_val r))"

text \<open>\<open>strconv.ParseFloat\<close> on a valid JSON number; \<^const>\<open>None\<close> is a range error.\<close>

definition number_val :: "string \<Rightarrow> float64 option" where
  "number_val s =
     (let t = drop_sign s; ip = takeWhile is_digit t; r = dropWhile is_digit t;
          fp = (case r of c # q \<Rightarrow> if c = CHR ''.'' then takeWhile is_digit q else [] | [] \<Rightarrow> []);
          ex = (case r of c # q \<Rightarrow> if c = CHR ''.'' then dropWhile is_digit q else r | [] \<Rightarrow> [])
      in f64_of_scaled (s \<noteq> t) (digits_val (ip @ fp)) 10 (exponent_val ex - int (length fp)))"

text \<open>
  A member whose key occurred before replaces the earlier one. \<^const>\<open>None\<close>: some number does
  not fit a \<open>float64\<close>, which \<open>Unmarshal\<close> reports after decoding the rest.
\<close>

fun goval_of :: "json \<Rightarrow> goval option" and gomap_of :: "(string \<times> json) list \<Rightarrow> gomap \<Rightarrow> gomap option"
  and goslice_of :: "json list \<Rightarrow> goval list option" where
  "goval_of JNull = Some GNil"
| "goval_of (JBool b) = Some (GBool b)"
| "goval_of (JNumber n) = map_option GFloat (number_val n)"
| "goval_of (JString s) = Some (GString s)"
| "goval_of (JArray vs) = map_option GSlice (goslice_of vs)"
| "goval_of (JObject ms) = map_option GMap (gomap_of ms [])"
| "gomap_of [] m = Some m"
| "gomap_of ((k, v) # ms) m =
     (case goval_of v of None \<Rightarrow> None | Some g \<Rightarrow> gomap_of ms (AList.update k g m))"
| "goslice_of [] = Some []"
| "goslice_of (v # vs) =
     (case goval_of v of None \<Rightarrow> None | Some g \<Rightarrow> map_option ((#) g) (goslice_of vs))"

text \<open>
  \<open>json.Unmarshal(message, &data)\<close> for \<open>var data map[string]interface{}\<close>. The outer option
  of the result is the nil map, which \<open>null\<close> leaves. \<open>txt\<close> gives the text of the error
  \<open>encoding/json\<close> makes for this input.
\<close>

definition Unmarshal_map :: "(bytes \<Rightarrow> string) \<Rightarrow> bytes \<Rightarrow> goerr + gomap option" where
  "Unmarshal_map txt message =
     (case json_parse message of
        None \<Rightarrow> Inl (TextError (txt message))
      | Some JNull \<Rightarrow> Inr None
      | Some (JObject ms) \<Rightarrow>
          (case gomap_of ms [] of
             None \<Rightarrow> Inl (TextError (txt message))
           | Some m \<Rightarrow> Inr (Some m))
      | Some _ \<Rightarrow> Inl (TextError (txt message)))"

section \<open>Encoding\<close>

definition hex_digit :: "nat \<Rightarrow> char" where
  "hex_digit n = (if n < 10 then char_of (48 + n) else char_of (87 + n))"

text \<open>A rune inside a JSON string, with HTML escaping on, as \<open>json.Marshal\<close> writes it.\<close>

definition quote_rune :: "string \<Rightarrow> string" where
  "quote_rune r =
     (case r of
        [c] \<Rightarrow>
          (if c = CHR 0x22 \<or> c = CHR 0x5C then [CHR 0x5C, c]
           else if c = CHR 0x08 then [CHR 0x5C, CHR ''b'']
           else if c = CHR 0x0C then [CHR 0x5C, CHR ''f'']
           else if c = CHR 0x0A then [CHR 0x5C, CHR ''n'']
           else if c = CHR 0x0D then [CHR 0x5C, CHR ''r'']
           else if c = CHR 0x09 then [CHR 0x5C, CHR ''t'']
           else if byte_in 0 31 c \<or> c \<in> {CHR 0x3C, CHR 0x3E, CHR 0x26} then
             [CHR 0x5C] @ ''u00'' @ [hex_digit (of_char c div 16), hex_digit (of_char c mod 16)]
           else [c])
      | _ \<Rightarrow>
          (if r = RuneError then [CHR 0x5C] @ ''ufffd''
           else if r = encode_rune 0x2028 then [CHR 0x5C] @ ''u2028''
           else if r = encode_rune 0x2029 then [CHR 0x5C] @ ''u2029''
           else r))"

text \<open>
  The replacement rune that stands for an invalid byte is written as an escape. A replacement
  rune that the string really contains is written as it is; \<open>rune_width\<close> tells them apart.
\<close>

fun quote_from :: "nat \<Rightarrow> string \<Rightarrow> string \<Rightarrow> string" where
  "quote_from k acc [] = acc"
| "quote_from (Suc k) acc (c # s) =
     (if k = 0
      then (if acc @ [c] = RuneError then RuneError else quote_rune (acc @ [c])) @ quote_from 0 [] s
      else quote_from k (acc @ [c]) s)"
| "quote_from 0 acc (c # s) =
     (case rune_width (c # s) of
        None \<Rightarrow> quote_rune RuneError @ quote_from 0 [] s
      | Some n \<Rightarrow> if n = 1 then quote_rune [c] @ quote_from 0 [] s else quote_from (n - 1) [c] s)"

definition json_quote :: "string \<Rightarrow> string" where
  "json_quote s = [CHR 0x22] @ quote_from 0 [] s @ [CHR 0x22]"

text \<open>
  Compaction of a valid document: white space outside strings goes, \<open><\<close>, \<open>>\<close>, \<open>&\<close> and the
  two line separators are escaped. The mode is inside or outside a string, or after a
  backslash; \<open>k\<close> bytes are skipped after a separator.
\<close>

datatype cmode = COut | CIn | CEsc

fun compact_from :: "cmode \<Rightarrow> nat \<Rightarrow> string \<Rightarrow> string" where
  "compact_from m k [] = []"
| "compact_from m (Suc k) (c # s) = compact_from m k s"
| "compact_from m 0 (c # s) =
     (if m = COut \<and> is_space c then compact_from COut 0 s
      else
        (let m' = (if m = CEsc then CIn
                   else if c = CHR 0x22 then (if m = CIn then COut else CIn)
                   else if m = CIn \<and> c = CHR 0x5C then CEsc else m)
         in if c \<in> {CHR 0x3C, CHR 0x3E, CHR 0x26}
            then [CHR 0x5C] @ ''u00'' @ [hex_digit (of_char c div 16), hex_digit (of_char c mod 16)]
                 @ compact_from m' 0 s
            else if HasPrefix (c # s) (encode_rune 0x2028)
            then [CHR 0x5C] @ ''u2028'' @ compact_from m' 2 s
            else if HasPrefix (c # s) (encode_rune 0x2029)
            then [CHR 0x5C] @ ''u2029'' @ compact_from m' 2 s
            else c # compact_from m' 0 s))"

text \<open>\<open>json.Marshal\<close> of a \<open>json.RawMessage\<close>: an error unless it is valid JSON.\<close>

definition Marshal_raw :: "(bytes \<Rightarrow> string) \<Rightarrow> bytes \<Rightarrow> goerr + bytes" where
  "Marshal_raw txt raw =
     (if json_Valid raw then Inr (compact_from COut 0 raw) else Inl (TextError (txt raw)))"

section \<open>Plain strings\<close>

text \<open>A string of printable ASCII without quotes, backslashes and HTML characters is quoted as it is.\<close>

definition plain_char :: "char \<Rightarrow> bool" where
  "plain_char c \<longleftrightarrow> byte_in 32 126 c \<and> c \<notin> {CHR 0x22, CHR 0x5C, CHR 0x3C, CHR 0x3E, CHR 0x26}"

lemma plain_char_quoted: "plain_char c \<Longrightarrow> quote_rune [c] = [c] \<and> byte_in 0 127 c"
proof -
  assume p: "plain_char c"
  then have b: "32 \<le> (of_char c :: nat)" "(of_char c :: nat) \<le> 126"
    and n: "c \<notin> {CHR 0x22, CHR 0x5C, CHR 0x3C, CHR 0x3E, CHR 0x26}"
    unfolding plain_char_def byte_in_def by blast+
  have "c \<noteq> CHR 0x08" "c \<noteq> CHR 0x0C" "c \<noteq> CHR 0x0A" "c \<noteq> CHR 0x0D" "c \<noteq> CHR 0x09"
    using b(1) by auto
  moreover have "\<not> byte_in 0 31 c" "byte_in 0 127 c" using b by (simp_all add: byte_in_def)
  ultimately show ?thesis using n by (simp add: quote_rune_def)
qed

lemma json_quote_plain:
  assumes "list_all plain_char s"
  shows "json_quote s = [CHR 0x22] @ s @ [CHR 0x22]"
proof -
  have "quote_from 0 [] s = s" using assms
  proof (induction s)
    case (Cons c s)
    then have "quote_rune [c] = [c]" "rune_width (c # s) = Some 1"
      using plain_char_quoted [of c] by simp_all
    then show ?case using Cons by (simp del: rune_width.simps)
  qed simp
  then show ?thesis by (simp add: json_quote_def)
qed

section \<open>Facts about decoding\<close>

lemma Unmarshal_map_Inr_Valid: "Unmarshal_map txt m = Inr d \<Longrightarrow> json_Valid m"
  by (auto simp: Unmarshal_map_def json_Valid_def split: option.splits)

lemma Unmarshal_map_invalid: "\<not> json_Valid m \<Longrightarrow> Unmarshal_map txt m = Inl (TextError (txt m))"
  by (simp add: Unmarshal_map_def json_Valid_def)

lemma Marshal_raw_simps [simp]:
  "json_Valid raw \<Longrightarrow> Marshal_raw txt raw = Inr (compact_from COut 0 raw)"
  "\<not> json_Valid raw \<Longrightarrow> Marshal_raw txt raw = Inl (TextError (txt raw))"
  by (simp_all add: Marshal_raw_def)

text \<open>The keys of a decoded object are distinct.\<close>

lemma gomap_of_distinct:
  "gomap_of ms m = Some m' \<Longrightarrow> distinct (map fst m) \<Longrightarrow> distinct (map fst m')"
proof (induction ms arbitrary: m)
  case (Cons kv ms)
  then show ?case
    by (cases kv) (auto split: option.splits intro: distinct_update)
qed auto

lemma Unmarshal_map_distinct: "Unmarshal_map txt m = Inr (Some d) \<Longrightarrow> distinct (map fst d)"
  by (auto simp: Unmarshal_map_def split: option.splits json.splits dest: gomap_of_distinct)

end
