(* ===== verification/Entities.thy ===== *)
theory Entities
  imports Go_Json
begin

text \<open>
  The domain entities (\<open>internal/domain/entities\<close>) and the persistence models with their
  mappers (\<open>internal/infrastructure/adapters/repositories/models.go\<close>). A field keeps its Go
  name behind a prefix for its struct; a pointer field is an option; an absent
  \<open>json.RawMessage\<close> is the empty string of bytes.
\<close>

section \<open>Entities\<close>

record EventOperational =
  op_ID :: uuid
  op_EventType :: string
  op_PlantSourceId :: uuid
  op_Source :: string
  op_Data :: bytes
  op_Metadata :: bytes
  op_CreatedAt :: time

record EventAnalytical =
  an_CreatedAt :: time
  an_ID :: uuid
  an_EventType :: string
  an_PlantSourceId :: uuid
  an_Source :: string
  an_Data :: bytes
  an_Metadata :: bytes

record EnergyPlants =
  ep_ID :: uuid
  ep_PlantName :: string
  ep_PlantType :: string
  ep_Location :: string
  ep_Latitude :: "float64 option"
  ep_Longitude :: "float64 option"
  ep_CapacityMW :: float64
  ep_CreatedAt :: time
  ep_UpdatedAt :: time
  ep_DeletedAt :: "time option"

record PlantCurrentStatus =
  ps_PlantID :: uuid
  ps_LastEventData :: bytes
  ps_CurrentStatus :: string
  ps_LastEventType :: string
  ps_LastEventAt :: time
  ps_UpdatedAt :: time

record ExampleEntity =
  ex_ID :: uuid
  ex_Name :: string
  ex_Description :: string
  ex_CreatedAt :: time
  ex_UpdatedAt :: time

record AlertRule =
  ar_Name :: string
  ar_EventType :: string
  ar_Condition :: string
  ar_FieldPath :: string
  ar_Threshold :: float64
  ar_ThresholdStr :: string
  ar_Severity :: string
  ar_NotificationMsg :: string

record EventData =
  PowerGeneratedMW :: "float64 option"
  PowerConsumedMW :: "float64 option"
  EfficiencyPercent :: "float64 option"
  TemperatureCelsius :: "float64 option"

text \<open>\<open>WebhookStatus\<close> is a string type with four named values.\<close>

type_synonym WebhookStatus = string

definition WebhookStatusPending :: WebhookStatus where
  [go_defs]: "WebhookStatusPending = ''PENDING''"

definition WebhookStatusSent :: WebhookStatus where
  [go_defs]: "WebhookStatusSent = ''SENT''"

definition WebhookStatusFailed :: WebhookStatus where
  [go_defs]: "WebhookStatusFailed = ''FAILED''"

definition WebhookStatusRetrying :: WebhookStatus where
  [go_defs]: "WebhookStatusRetrying = ''RETRYING''"

record HourlyPlantStats =
  hs_Bucket :: time
  hs_PlantSourceId :: uuid
  hs_PlantName :: string
  hs_PlantType :: string
  hs_Latitude :: "float64 option"
  hs_Longitude :: "float64 option"
  hs_AvgPowerGen :: "float64 option"
  hs_AvgPowerCon :: "float64 option"
  hs_AvgEfficiency :: "float64 option"
  hs_AvgTemp :: "float64 option"
  hs_SampleCount :: int
  hs_LastCalculatedAt :: time

record WebhookQueueItem =
  wq_ID :: uuid
  wq_Bucket :: time
  wq_PlantSourceId :: uuid
  wq_Status :: WebhookStatus
  wq_Attempts :: int
  wq_LastAttempt :: "time option"
  wq_NextRetryAt :: "time option"
  wq_ErrorMessage :: "string option"
  wq_CreatedAt :: time

section \<open>Persistence models\<close>

record EnergyPlantsModel =
  epm_ID :: uuid
  epm_PlantName :: string
  epm_PlantType :: string
  epm_Location :: string
  epm_Latitude :: "float64 option"
  epm_Longitude :: "float64 option"
  epm_CapacityMW :: float64
  epm_CreatedAt :: time
  epm_UpdatedAt :: time
  epm_DeletedAt :: "time option"

record EventOperationalModel =
  opm_ID :: uuid
  opm_EventType :: string
  opm_PlantSourceId :: uuid
  opm_Source :: string
  opm_Data :: bytes
  opm_Metadata :: bytes
  opm_CreatedAt :: time
  opm_PlantSource :: EnergyPlantsModel

record EventAnalyticalModel =
  anm_CreatedAt :: time
  anm_ID :: uuid
  anm_EventType :: string
  anm_PlantSourceId :: uuid
  anm_Source :: string
  anm_Data :: bytes
  anm_Metadata :: bytes

record ExampleModel =
  exm_ID :: uuid
  exm_Name :: string
  exm_Description :: string
  exm_CreatedAt :: time
  exm_UpdatedAt :: time

record AlertRuleModel =
  arm_ID :: uuid
  arm_Name :: string
  arm_EventType :: string
  arm_Condition :: string
  arm_FieldPath :: string
  arm_Threshold :: "float64 option"
  arm_ThresholdStr :: "string option"
  arm_Severity :: string
  arm_NotificationMsg :: string
  arm_Active :: bool
  arm_CreatedAt :: time
  arm_UpdatedAt :: time

record HourlyPlantStatsModel =
  hsm_Bucket :: time
  hsm_PlantSourceId :: uuid
  hsm_PlantName :: string
  hsm_PlantType :: string
  hsm_Latitude :: "float64 option"
  hsm_Longitude :: "float64 option"
  hsm_AvgPowerGen :: "float64 option"
  hsm_AvgPowerCon :: "float64 option"
  hsm_AvgEfficiency :: "float64 option"
  hsm_AvgTemp :: "float64 option"
  hsm_SampleCount :: int
  hsm_LastCalculatedAt :: time

record WebhookQueueModel =
  wqm_ID :: uuid
  wqm_Bucket :: time
  wqm_PlantSourceId :: uuid
  wqm_Status :: string
  wqm_Attempts :: int
  wqm_LastAttempt :: "time option"
  wqm_NextRetryAt :: "time option"
  wqm_ErrorMessage :: "string option"
  wqm_CreatedAt :: time

record PlantCurrentStatusModel =
  psm_PlantID :: uuid
  psm_LastEventData :: bytes
  psm_CurrentStatus :: string
  psm_LastEventType :: string
  psm_LastEventAt :: time
  psm_UpdatedAt :: time

text \<open>Go's zero \<open>time.Time\<close>, January 1 of year 1, and the zero value of the plant model.\<close>

definition zero_time :: time where
  "zero_time = - 62135596800 * Second"

definition zero_EnergyPlantsModel :: EnergyPlantsModel where
  "zero_EnergyPlantsModel =
     \<lparr>epm_ID = 0, epm_PlantName = [], epm_PlantType = [], epm_Location = [],
      epm_Latitude = None, epm_Longitude = None, epm_CapacityMW = f64_zero,
      epm_CreatedAt = zero_time, epm_UpdatedAt = zero_time, epm_DeletedAt = None\<rparr>"

section \<open>Mappers\<close>

definition ToAlertRuleModel :: "AlertRule \<Rightarrow> AlertRuleModel" where
  "ToAlertRuleModel r =
     \<lparr>arm_ID = 0, arm_Name = ar_Name r, arm_EventType = ar_EventType r,
      arm_Condition = ar_Condition r, arm_FieldPath = ar_FieldPath r,
      arm_Threshold = (if \<not> f64_eq (ar_Threshold r) f64_zero then Some (ar_Threshold r) else None),
      arm_ThresholdStr = (if ar_ThresholdStr r \<noteq> [] then Some (ar_ThresholdStr r) else None),
      arm_Severity = ar_Severity r, arm_NotificationMsg = ar_NotificationMsg r,
      arm_Active = True, arm_CreatedAt = zero_time, arm_UpdatedAt = zero_time\<rparr>"

definition ToAlertRuleFromModel :: "AlertRuleModel \<Rightarrow> AlertRule" where
  "ToAlertRuleFromModel m =
     \<lparr>ar_Name = arm_Name m, ar_EventType = arm_EventType m,
      ar_Condition = arm_Condition m, ar_FieldPath = arm_FieldPath m,
      ar_Threshold = (case arm_Threshold m of Some t \<Rightarrow> t | None \<Rightarrow> f64_zero),
      ar_ThresholdStr = (case arm_ThresholdStr m of Some s \<Rightarrow> s | None \<Rightarrow> []),
      ar_Severity = arm_Severity m, ar_NotificationMsg = arm_NotificationMsg m\<rparr>"

definition ToEventOperationalModel :: "EventOperational \<Rightarrow> EventOperationalModel" where
  "ToEventOperationalModel e =
     \<lparr>opm_ID = op_ID e, opm_EventType = op_EventType e, opm_PlantSourceId = op_PlantSourceId e,
      opm_Source = op_Source e, opm_Data = op_Data e, opm_Metadata = op_Metadata e,
      opm_CreatedAt = op_CreatedAt e, opm_PlantSource = zero_EnergyPlantsModel\<rparr>"

definition ToEventOperationalEntity :: "EventOperationalModel \<Rightarrow> EventOperational" where
  "ToEventOperationalEntity m =
     \<lparr>op_ID = opm_ID m, op_EventType = opm_EventType m, op_PlantSourceId = opm_PlantSourceId m,
      op_Source = opm_Source m, op_Data = opm_Data m, op_Metadata = opm_Metadata m,
      op_CreatedAt = opm_CreatedAt m\<rparr>"

definition ToEventAnalyticalModel :: "EventAnalytical \<Rightarrow> EventAnalyticalModel" where
  "ToEventAnalyticalModel e =
     \<lparr>anm_CreatedAt = an_CreatedAt e, anm_ID = an_ID e, anm_EventType = an_EventType e,
      anm_PlantSourceId = an_PlantSourceId e, anm_Source = an_Source e,
      anm_Data = an_Data e, anm_Metadata = an_Metadata e\<rparr>"

definition ToEventAnalyticalEntity :: "EventAnalyticalModel \<Rightarrow> EventAnalytical" where
  "ToEventAnalyticalEntity m =
     \<lparr>an_CreatedAt = anm_CreatedAt m, an_ID = anm_ID m, an_EventType = anm_EventType m,
      an_PlantSourceId = anm_PlantSourceId m, an_Source = anm_Source m,
      an_Data = anm_Data m, an_Metadata = anm_Metadata m\<rparr>"

definition ToEnergyPlantsModel :: "EnergyPlants \<Rightarrow> EnergyPlantsModel" where
  "ToEnergyPlantsModel e =
     \<lparr>epm_ID = ep_ID e, epm_PlantName = ep_PlantName e, epm_PlantType = ep_PlantType e,
      epm_Location = ep_Location e, epm_Latitude = ep_Latitude e, epm_Longitude = ep_Longitude e,
      epm_CapacityMW = ep_CapacityMW e, epm_CreatedAt = ep_CreatedAt e,
      epm_UpdatedAt = ep_UpdatedAt e, epm_DeletedAt = None\<rparr>"

definition ToEnergyPlantsEntity :: "EnergyPlantsModel \<Rightarrow> EnergyPlants" where
  "ToEnergyPlantsEntity m =
     \<lparr>ep_ID = epm_ID m, ep_PlantName = epm_PlantName m, ep_PlantType = epm_PlantType m,
      ep_Location = epm_Location m, ep_Latitude = epm_Latitude m, ep_Longitude = epm_Longitude m,
      ep_CapacityMW = epm_CapacityMW m, ep_CreatedAt = epm_CreatedAt m,
      ep_UpdatedAt = epm_UpdatedAt m, ep_DeletedAt = None\<rparr>"

definition ToExampleModel :: "ExampleEntity \<Rightarrow> ExampleModel" where
  "ToExampleModel e =
     \<lparr>exm_ID = ex_ID e, exm_Name = ex_Name e, exm_Description = ex_Description e,
      exm_CreatedAt = ex_CreatedAt e, exm_UpdatedAt = ex_UpdatedAt e\<rparr>"

definition ToExampleEntity :: "ExampleModel \<Rightarrow> ExampleEntity" where
  "ToExampleEntity m =
     \<lparr>ex_ID = exm_ID m, ex_Name = exm_Name m, ex_Description = exm_Description m,
      ex_CreatedAt = exm_CreatedAt m, ex_UpdatedAt = exm_UpdatedAt m\<rparr>"

definition ToHourlyPlantStatsEntity :: "HourlyPlantStatsModel \<Rightarrow> HourlyPlantStats" where
  "ToHourlyPlantStatsEntity m =
     \<lparr>hs_Bucket = hsm_Bucket m, hs_PlantSourceId = hsm_PlantSourceId m,
      hs_PlantName = hsm_PlantName m, hs_PlantType = hsm_PlantType m,
      hs_Latitude = hsm_Latitude m, hs_Longitude = hsm_Longitude m,
      hs_AvgPowerGen = hsm_AvgPowerGen m, hs_AvgPowerCon = hsm_AvgPowerCon m,
      hs_AvgEfficiency = hsm_AvgEfficiency m, hs_AvgTemp = hsm_AvgTemp m,
      hs_SampleCount = hsm_SampleCount m, hs_LastCalculatedAt = hsm_LastCalculatedAt m\<rparr>"

definition ToWebhookQueueEntity :: "WebhookQueueModel \<Rightarrow> WebhookQueueItem" where
  "ToWebhookQueueEntity m =
     \<lparr>wq_ID = wqm_ID m, wq_Bucket = wqm_Bucket m, wq_PlantSourceId = wqm_PlantSourceId m,
      wq_Status = wqm_Status m, wq_Attempts = wqm_Attempts m, wq_LastAttempt = wqm_LastAttempt m,
      wq_NextRetryAt = wqm_NextRetryAt m, wq_ErrorMessage = wqm_ErrorMessage m,
      wq_CreatedAt = wqm_CreatedAt m\<rparr>"

definition ToPlantCurrentStatusEntity :: "PlantCurrentStatusModel \<Rightarrow> PlantCurrentStatus" where
  "ToPlantCurrentStatusEntity m =
     \<lparr>ps_PlantID = psm_PlantID m, ps_LastEventData = psm_LastEventData m,
      ps_CurrentStatus = psm_CurrentStatus m, ps_LastEventType = psm_LastEventType m,
      ps_LastEventAt = psm_LastEventAt m, ps_UpdatedAt = psm_UpdatedAt m\<rparr>"

definition ToPlantCurrentStatusModel :: "PlantCurrentStatus \<Rightarrow> PlantCurrentStatusModel" where
  "ToPlantCurrentStatusModel e =
     \<lparr>psm_PlantID = ps_PlantID e, psm_LastEventData = ps_LastEventData e,
      psm_CurrentStatus = ps_CurrentStatus e, psm_LastEventType = ps_LastEventType e,
      psm_LastEventAt = ps_LastEventAt e, psm_UpdatedAt = ps_UpdatedAt e\<rparr>"

section \<open>Round trips\<close>

lemma EventOperational_round_trip [simp]:
  "ToEventOperationalEntity (ToEventOperationalModel e) = e"
  by (simp add: ToEventOperationalEntity_def ToEventOperationalModel_def)

lemma EventAnalytical_round_trip [simp]:
  "ToEventAnalyticalEntity (ToEventAnalyticalModel e) = e"
  "ToEventAnalyticalModel (ToEventAnalyticalEntity m) = m"
  by (simp_all add: ToEventAnalyticalEntity_def ToEventAnalyticalModel_def)

lemma ToEventOperationalModel_sel [simp]:
  "opm_ID (ToEventOperationalModel e) = op_ID e"
  "opm_PlantSourceId (ToEventOperationalModel e) = op_PlantSourceId e"
  "opm_CreatedAt (ToEventOperationalModel e) = op_CreatedAt e"
  by (simp_all add: ToEventOperationalModel_def)

lemma ToEventAnalyticalModel_sel [simp]:
  "anm_ID (ToEventAnalyticalModel e) = an_ID e"
  "anm_CreatedAt (ToEventAnalyticalModel e) = an_CreatedAt e"
  "anm_PlantSourceId (ToEventAnalyticalModel e) = an_PlantSourceId e"
  by (simp_all add: ToEventAnalyticalModel_def)

lemma Example_round_trip [simp]:
  "ToExampleEntity (ToExampleModel e) = e" "ToExampleModel (ToExampleEntity m) = m"
  by (simp_all add: ToExampleEntity_def ToExampleModel_def)

lemma PlantCurrentStatus_round_trip [simp]:
  "ToPlantCurrentStatusEntity (ToPlantCurrentStatusModel e) = e"
  "ToPlantCurrentStatusModel (ToPlantCurrentStatusEntity m) = m"
  by (simp_all add: ToPlantCurrentStatusEntity_def ToPlantCurrentStatusModel_def)

lemma half_range_mod:
  assumes "0 \<le> u" "u < 2 * m" "0 < (m::int)"
  shows "u mod m = 0 \<longleftrightarrow> u = 0 \<or> u = m"
proof -
  have "u mod m = (if u < m then u else u - m)"
    using assms minus_mod_self2 [of u m] by (auto simp del: minus_mod_self2)
  with assms show ?thesis by auto
qed

lemma f64_eq_zero_iff: "f64_eq t 0 \<longleftrightarrow> t = 0 \<or> t = 0x8000000000000000"
proof -
  have "uint t < 2 * 2 ^ 63"
    using uint_bounded [of t] by simp
  then have "f64_mag t = 0 \<longleftrightarrow> uint t = 0 \<or> uint t = 2 ^ 63"
    unfolding f64_mag_def by (intro half_range_mod) simp_all
  moreover have "uint t = 2 ^ 63 \<longleftrightarrow> t = 0x8000000000000000"
    by (simp add: word_uint_eq_iff)
  moreover have "uint t = 0 \<longleftrightarrow> t = 0"
    by (simp add: uint_0_iff)
  moreover have "f64_mag t \<ge> 0"
    by (simp add: f64_mag_def)
  ultimately have "f64_mag t = 0 \<longleftrightarrow> t = 0 \<or> t = 0x8000000000000000"
    by blast
  moreover have "f64_key t = 0 \<longleftrightarrow> f64_mag t = 0"
    by (simp add: f64_key_def)
  moreover have "f64_key 0 = 0" "\<not> is_nan 0"
    by (simp_all add: f64_key_def f64_mag_def is_nan_def f64_inf_mag_def)
  moreover have "f64_mag t = 0 \<Longrightarrow> \<not> is_nan t"
    by (simp add: is_nan_def f64_inf_mag_def)
  ultimately show ?thesis
    by (auto simp: f64_eq_def)
qed

text \<open>
  An alert rule survives the database, but for a threshold of negative zero, which is stored
  as NULL and read back as zero.
\<close>

lemma AlertRule_round_trip:
  "ToAlertRuleFromModel (ToAlertRuleModel r) =
     r\<lparr>ar_Threshold := (if ar_Threshold r = 0x8000000000000000 then 0 else ar_Threshold r)\<rparr>"
  by (cases r) (auto simp: ToAlertRuleFromModel_def ToAlertRuleModel_def f64_eq_zero_iff f64_zero_def)

lemma EnergyPlants_round_trip:
  "ToEnergyPlantsEntity (ToEnergyPlantsModel e) = e\<lparr>ep_DeletedAt := None\<rparr>"
  by (cases e) (simp add: ToEnergyPlantsEntity_def ToEnergyPlantsModel_def)

end
