(* ===== verification/Go_Scan.thy ===== *)
theory Go_Scan
  imports Go_Json "HOL-Library.List_Lexorder" "HOL-Library.Char_ord"
begin

text \<open>
  Two more pieces of the Go library on numbers and values: reading a float off the front of a
  string (\<open>fmt.Sscanf(s, "%f", &f)\<close> with \<open>strconv.ParseFloat\<close>), and printing a dynamic value
  (\<open>fmt.Sprintf("%v", v)\<close> and \<open>json.Marshal\<close>).
\<close>

section \<open>Sscanf of a float\<close>

text \<open>A scan state is the token collected so far and the rest of the input.\<close>

type_synonym scan_state = "string \<times> string"

definition accept :: "string \<Rightarrow> scan_state \<Rightarrow> bool \<times> scan_state" where
  "accept ok st =
     (case st of
        (buf, c # rest) \<Rightarrow> if c \<in> set ok then (True, buf @ [c], rest) else (False, st)
      | (buf, []) \<Rightarrow> (False, st))"

definition accept_many :: "string \<Rightarrow> scan_state \<Rightarrow> scan_state" where
  "accept_many ok st =
     (fst st @ takeWhile (\<lambda>c. c \<in> set ok) (snd st), dropWhile (\<lambda>c. c \<in> set ok) (snd st))"

text \<open>Three letters in a row; the letters of a failed attempt stay in the token.\<close>

definition accept3 :: "string \<Rightarrow> string \<Rightarrow> string \<Rightarrow> scan_state \<Rightarrow> bool \<times> scan_state" where
  "accept3 a b c st =
     (let (m1, st1) = accept a st
      in if \<not> m1 then (False, st1)
         else let (m2, st2) = accept b st1
              in if \<not> m2 then (False, st2) else accept c st2)"

definition floatToken :: "string \<Rightarrow> string" where
  "floatToken s =
     (let (isnan, st) = accept3 ''nN'' ''aA'' ''nN'' ([], s)
      in if isnan then fst st
         else
           (let st = snd (accept ''+-'' st);
                (isinf, st) = accept3 ''iI'' ''nN'' ''fF'' st
            in if isinf then fst st
               else
                 (let (z, st) = accept ''0'' st;
                      (x, st) = (if z then accept ''xX'' st else (False, st));
                      digits = (if x then ''0123456789aAbBcCdDeEfF_'' else ''0123456789_'');
                      expo = (if x then ''pP'' else ''eEpP'');
                      st = accept_many digits st;
                      (dot, st) = accept ''.'' st;
                      st = (if dot then accept_many digits st else st);
                      (e, st) = accept expo st;
                      st = (if e then accept_many ''0123456789_'' (snd (accept ''+-'' st)) else st)
                  in fst st)))"

definition lower :: "char \<Rightarrow> char" where
  "lower c = (if byte_in 65 90 c then char_of ((of_char c :: nat) + 32) else c)"

text \<open>\<open>underscoreOK\<close>: an underscore stands between digits, or between the base prefix and a digit.\<close>

datatype prev_char = PStart | PDigit | PUnderscore | POther

fun underscores :: "bool \<Rightarrow> prev_char \<Rightarrow> string \<Rightarrow> bool" where
  "underscores hex p [] \<longleftrightarrow> p \<noteq> PUnderscore"
| "underscores hex p (c # s) \<longleftrightarrow>
     (if is_digit c \<or> hex \<and> byte_in 97 102 (lower c) then underscores hex PDigit s
      else if c = CHR ''_'' then p = PDigit \<and> underscores hex PUnderscore s
      else p \<noteq> PUnderscore \<and> underscores hex POther s)"

definition drop_plus_minus :: "string \<Rightarrow> string" where
  "drop_plus_minus s =
     (case s of c # r \<Rightarrow> if c = CHR ''+'' \<or> c = CHR ''-'' then r else s | [] \<Rightarrow> [])"

definition underscoreOK :: "string \<Rightarrow> bool" where
  "underscoreOK s =
     (let t = drop_plus_minus s
      in if take 1 t = ''0'' \<and> lower (hd (drop 1 t @ '' '')) \<in> {CHR ''b'', CHR ''o'', CHR ''x''}
         then underscores (lower (hd (drop 1 t)) = CHR ''x'') PDigit (drop 2 t)
         else underscores False PStart t)"

text \<open>The exponent digits; \<open>strconv\<close> stops counting once the value reaches 10000.\<close>

definition capped_digits :: "string \<Rightarrow> int" where
  "capped_digits s =
     foldl (\<lambda>n c. if n < 10000 then n * 10 + int (of_char c - 48) else n) 0
       (filter (\<lambda>c. c \<noteq> CHR ''_'') s)"

definition hex_digits_val :: "string \<Rightarrow> int" where
  "hex_digits_val s =
     foldl (\<lambda>n c. n * 16 + (case hex_val c of Some v \<Rightarrow> int v | None \<Rightarrow> 0)) 0 s"

text \<open>
  The exponent part: the letter, an optional sign, a digit, and more digits or underscores to
  the end of the input. \<^const>\<open>None\<close> is a syntax error.
\<close>

definition float_exponent :: "char \<Rightarrow> string \<Rightarrow> int option" where
  "float_exponent letter s =
     (case s of
        [] \<Rightarrow> if letter = CHR ''p'' then None else Some 0
      | c # r \<Rightarrow>
          (let d = drop_plus_minus r
           in if lower c = letter \<and> d \<noteq> [] \<and> is_digit (hd d)
                 \<and> list_all (\<lambda>c. is_digit c \<or> c = CHR ''_'') d
              then Some (if take 1 r = ''-'' then - capped_digits d else capped_digits d)
              else None))"

definition ParseFloat :: "string \<Rightarrow> float64 option" where
  "ParseFloat s =
     (let neg = (take 1 s = ''-''); t = drop_plus_minus s
      in if map lower t \<in> {''inf'', ''infinity''} then Some (f64_inf neg)
         else if map lower s = ''nan'' then Some f64_NaN
         else
           (let hex = (2 < length t \<and> map lower (take 2 t) = ''0x'');
                body = (if hex then drop 2 t else t);
                dig = (\<lambda>c. is_digit c \<or> c = CHR ''_'' \<or> hex \<and> byte_in 97 102 (lower c));
                ip = takeWhile dig body; r = dropWhile dig body;
                point = (take 1 r = ''.'');
                fp = (if point then takeWhile dig (tl r) else []);
                ex = (if point then dropWhile dig (tl r) else r);
                di = filter (\<lambda>c. c \<noteq> CHR ''_'') ip; df = filter (\<lambda>c. c \<noteq> CHR ''_'') fp
            in if di @ df = [] \<or> CHR ''_'' \<in> set s \<and> \<not> underscoreOK s then None
               else case float_exponent (if hex then CHR ''p'' else CHR ''e'') ex of
                      None \<Rightarrow> None
                    | Some e \<Rightarrow>
                        if hex
                        then f64_of_scaled neg (hex_digits_val (di @ df)) 2 (e - 4 * int (length df))
                        else f64_of_scaled neg (digits_val (di @ df)) 10 (e - int (length df))))"

text \<open>
  \<open>convertFloat\<close>: a decimal mantissa with a binary exponent (\<open>1.2p4\<close>) is split at the \<open>p\<close>;
  the exponent is read by \<open>strconv.Atoi\<close>.
\<close>

definition Atoi :: "string \<Rightarrow> int option" where
  "Atoi s =
     (let d = drop_plus_minus s; v = digits_val d; i = (if take 1 s = ''-'' then - v else v)
      in if d \<noteq> [] \<and> list_all is_digit d \<and> - (2 ^ 63) \<le> i \<and> i < 2 ^ 63 then Some i else None)"

definition hasX :: "string \<Rightarrow> bool" where
  "hasX s \<longleftrightarrow> CHR ''x'' \<in> set s \<or> CHR ''X'' \<in> set s"

definition convertFloat :: "string \<Rightarrow> float64 option" where
  "convertFloat s =
     (if CHR ''p'' \<in> set s \<and> \<not> hasX s
      then (case (ParseFloat (takeWhile (\<lambda>c. c \<noteq> CHR ''p'') s),
                  Atoi (tl (dropWhile (\<lambda>c. c \<noteq> CHR ''p'') s))) of
              (Some f, Some k) \<Rightarrow> Some (f64_ldexp f k)
            | _ \<Rightarrow> None)
      else ParseFloat s)"

text \<open>
  \<open>SkipSpace\<close> skips blanks; a newline in front of the number is an error, as an empty input is.
  Only the ASCII blanks are skipped here, which the header says.
\<close>

definition Sscanf_f :: "string \<Rightarrow> float64 option" where
  "Sscanf_f s =
     (let t = dropWhile (\<lambda>c. c \<in> {CHR '' '', CHR 0x09, CHR 0x0B, CHR 0x0C, CHR 0x0D}) s
      in if t = [] \<or> hd t = CHR 0x0A then None else convertFloat (floatToken t))"

section \<open>Printing with \<open>%v\<close>\<close>

definition space_sep :: "string list \<Rightarrow> string" where
  "space_sep ps = Join ps '' ''"

text \<open>A map prints its entries in the order of their keys.\<close>

fun fmt_v :: "goval \<Rightarrow> string" and fmt_members :: "(string \<times> goval) list \<Rightarrow> (string \<times> string) list"
  and fmt_elems :: "goval list \<Rightarrow> string list" where
  "fmt_v GNil = ''<nil>''"
| "fmt_v (GBool b) = (if b then ''true'' else ''false'')"
| "fmt_v (GFloat f) = fmt_float64 f"
| "fmt_v (GFloat32 f) = fmt_float32 f"
| "fmt_v (GInt i) = int_digits (sint i)"
| "fmt_v (GInt32 i) = int_digits (sint i)"
| "fmt_v (GInt64 i) = int_digits (sint i)"
| "fmt_v (GString s) = s"
| "fmt_v (GSlice vs) = ''['' @ space_sep (fmt_elems vs) @ '']''"
| "fmt_v (GMap ms) =
     ''map['' @ space_sep (map (\<lambda>(k, v). k @ '':'' @ v) (sort_key fst (fmt_members ms))) @ '']''"
| "fmt_members [] = []"
| "fmt_members ((k, v) # ms) = (k, fmt_v v) # fmt_members ms"
| "fmt_elems [] = []"
| "fmt_elems (v # vs) = fmt_v v # fmt_elems vs"

section \<open>json.Marshal\<close>

definition clean_exp :: "string \<Rightarrow> string" where
  "clean_exp s =
     (let n = length s
      in if 4 \<le> n \<and> take 3 (drop (n - 4) s) = ''e-0'' then take (n - 2) s @ drop (n - 1) s else s)"

definition json_digits :: "bool \<Rightarrow> string \<times> int \<Rightarrow> string" where
  "json_digits neg dd =
     (case dd of (digs, dp) \<Rightarrow>
        (if neg then ''-'' else []) @
        (if digs \<noteq> ''0'' \<and> (dp < -5 \<or> 22 \<le> dp) then clean_exp (format_e digs dp)
         else format_f digs dp))"

text \<open>NaN and the infinities have no JSON form: \<open>Marshal\<close> fails.\<close>

fun Marshal :: "goval \<Rightarrow> bytes option"
  and Marshal_members :: "(string \<times> goval) list \<Rightarrow> (string \<times> bytes) list option"
  and Marshal_elems :: "goval list \<Rightarrow> bytes list option" where
  "Marshal GNil = Some ''null''"
| "Marshal (GBool b) = Some (if b then ''true'' else ''false'')"
| "Marshal (GFloat f) =
     (if f64_inf_mag \<le> f64_mag f then None else Some (json_digits (f64_neg f) (f64_digits f)))"
| "Marshal (GFloat32 f) =
     (if f32_inf_mag \<le> f32_mag f then None else Some (json_digits (f32_neg f) (f32_digits f)))"
| "Marshal (GInt i) = Some (int_digits (sint i))"
| "Marshal (GInt32 i) = Some (int_digits (sint i))"
| "Marshal (GInt64 i) = Some (int_digits (sint i))"
| "Marshal (GString s) = Some (json_quote s)"
| "Marshal (GSlice vs) = map_option (\<lambda>ps. ''['' @ Join ps '','' @ '']'') (Marshal_elems vs)"
| "Marshal (GMap ms) =
     map_option
       (\<lambda>ps. ''{'' @ Join (map (\<lambda>(k, b). json_quote k @ '':'' @ b) (sort_key fst ps)) '','' @ ''}'')
       (Marshal_members ms)"
| "Marshal_members [] = Some []"
| "Marshal_members ((k, v) # ms) =
     (case Marshal v of None \<Rightarrow> None | Some b \<Rightarrow> map_option ((#) (k, b)) (Marshal_members ms))"
| "Marshal_elems [] = Some []"
| "Marshal_elems (v # vs) =
     (case Marshal v of None \<Rightarrow> None | Some b \<Rightarrow> map_option ((#) b) (Marshal_elems vs))"

text \<open>Every value decoded from a message can be marshalled: its numbers are finite.\<close>

lemma round_bits_less: "round_bits mb q lim n d = Some b \<Longrightarrow> b < lim"
  by (auto simp: round_bits_def Let_def split: if_splits)

lemma round_half_even_nonneg: "0 \<le> n \<Longrightarrow> 0 < d \<Longrightarrow> 0 \<le> round_half_even n d"
  by (simp add: round_half_even_def Let_def pos_imp_zdiv_nonneg_iff)

lemma f64_of_frac_finite:
  assumes "f64_of_frac neg n d = Some f" "0 \<le> n" "0 < d"
  shows "f64_mag f < f64_inf_mag"
proof -
  obtain b where b: "round_bits 52 1074 f64_inf_mag n d = Some b" "f = word_of_int (b + (if neg then 2 ^ 63 else 0))"
    using assms(1) by (auto simp: f64_of_frac_def)
  have "0 \<le> b" using b(1) assms(2,3)
    by (auto simp: round_bits_def Let_def round_half_even_nonneg split: if_splits)
  moreover have "b < f64_inf_mag" by (rule round_bits_less [OF b(1)])
  moreover have "f64_inf_mag < 2 ^ 63" by (simp add: f64_inf_mag_def)
  ultimately have r: "0 \<le> b" "b < 2 ^ 63" by simp_all
  have "uint f = b + (if neg then 2 ^ 63 else 0)"
    unfolding b(2) by (subst uint_word_of_int) (use r in \<open>auto simp: take_bit_eq_mod mod_pos_pos_trivial\<close>)
  then have "f64_mag f = b" using r by (simp add: f64_mag_def mod_pos_pos_trivial)
  then show ?thesis using \<open>b < f64_inf_mag\<close> by simp
qed

lemma digits_val_nonneg: "0 \<le> digits_val s"
proof -
  have "0 \<le> a \<Longrightarrow> 0 \<le> foldl (\<lambda>n c. n * 10 + int (of_char c - 48)) a s" for a
    by (induction s arbitrary: a) simp_all
  then show ?thesis by (simp add: digits_val_def)
qed

lemma number_val_finite: "number_val n = Some f \<Longrightarrow> f64_mag f < f64_inf_mag"
  by (auto simp: number_val_def Let_def f64_of_scaled_def digits_val_nonneg split: if_splits
      elim!: f64_of_frac_finite)

lemma Marshal_members_total: "Marshal_members ms \<noteq> None \<longleftrightarrow> (\<forall>(k, v) \<in> set ms. Marshal v \<noteq> None)"
  by (induction ms) (auto split: option.splits)

lemma Marshal_elems_total: "Marshal_elems vs \<noteq> None \<longleftrightarrow> (\<forall>v \<in> set vs. Marshal v \<noteq> None)"
  by (induction vs) (auto split: option.splits)

lemma update_in: "p \<in> set (AList.update k v m) \<Longrightarrow> p = (k, v) \<or> p \<in> set m"
  by (induction m) (auto split: if_splits)

lemma Marshal_decoded:
  "goval_of v = Some g \<Longrightarrow> Marshal g \<noteq> None"
  "gomap_of ms m = Some m' \<Longrightarrow> Marshal_members m \<noteq> None \<Longrightarrow> Marshal_members m' \<noteq> None"
  "goslice_of vs = Some gs \<Longrightarrow> Marshal_elems gs \<noteq> None"
proof (induction v and ms m and vs arbitrary: g and m' and gs rule: goval_of_gomap_of_goslice_of.induct)
  case (3 n)
  then show ?case using number_val_finite by (auto simp: not_le)
next
  case (8 k v ms m)
  then obtain x where x: "goval_of v = Some x" "gomap_of ms (AList.update k x m) = Some m'"
    by (auto split: option.splits)
  have "Marshal_members (AList.update k x m) \<noteq> None"
    using 8(1) [OF x(1)] 8(4) update_in [of _ k x m] unfolding Marshal_members_total by fastforce
  then show ?case using 8(2) x by blast
qed (auto split: option.splits)

lemma Unmarshal_map_Marshal: "Unmarshal_map txt m = Inr (Some data) \<Longrightarrow> Marshal (GMap data) \<noteq> None"
  using Marshal_decoded(2) by (fastforce simp: Unmarshal_map_def split: option.splits json.splits)

end
