(* ===== verification/Telegram_Notifier.thy ===== *)
theory Telegram_Notifier
  imports Entities Go_Scan
begin

text \<open>
  \<open>internal/infrastructure/adapters/telegram/notifier.go\<close>: the bounded queue in front of the
  Telegram API, its worker and its shutdown.

  The state is the \<open>Notifier\<close> struct. The channel \<open>alertChan\<close> is the list of queued texts
  with its closed flag; a send on the closed channel would panic, which sets \<open>n_panicked\<close>.
  \<open>n_phase\<close> is how far the \<open>stopOnce\<close> body has run. Two fields are history, written and
  never read: the texts accepted into the channel and the texts the worker took out.
\<close>

datatype stop_phase = NotStopped | Marked | Closed | Waited

record Notifier =
  botToken :: string
  chatID :: string
  n_enabled :: bool
  alertChan :: "string list"
  n_closed :: bool
  n_stopped :: bool
  n_phase :: stop_phase
  n_workerDone :: bool
  n_panicked :: bool
  n_accepted :: "string list"
  n_taken :: "string list"

definition alertCap :: nat where
  "alertCap = 100"

definition NewNotifier :: "string \<Rightarrow> string \<Rightarrow> bool \<Rightarrow> Notifier" where
  "NewNotifier token chat en =
     \<lparr>botToken = token, chatID = chat, n_enabled = en, alertChan = [], n_closed = False,
      n_stopped = False, n_phase = NotStopped, n_workerDone = False, n_panicked = False,
      n_accepted = [], n_taken = []\<rparr>"

section \<open>Message texts\<close>

definition escapeHTML :: "string \<Rightarrow> string" where
  "escapeHTML s =
     (let s1 = ReplaceAll s ''&'' ''&amp;'';
          s2 = ReplaceAll s1 ''<'' ''&lt;''
      in ReplaceAll s2 ''>'' ''&gt;'')"

definition nl :: string where
  "nl = [CHR 0x0A]"

text \<open>\<open>timestamp\<close> is \<open>time.Now().Format("2006-01-02 15:04:05")\<close>, read from the clock.\<close>

definition formatErrorMessage :: "string \<Rightarrow> string \<Rightarrow> string \<Rightarrow> string \<Rightarrow> string" where
  "formatErrorMessage timestamp errorType message ctx =
     encode_rune 0x1F6A8 @ '' <b>Error de Validaci'' @ encode_rune 0xF3 @ ''n</b>'' @ nl @ nl
     @ encode_rune 0x23F0 @ '' <b>Hora:</b> '' @ escapeHTML timestamp @ nl
     @ encode_rune 0x1F534 @ '' <b>Tipo:</b> '' @ escapeHTML errorType @ nl
     @ encode_rune 0x1F4DD @ '' <b>Mensaje:</b> '' @ escapeHTML message @ nl
     @ (if ctx \<noteq> []
        then encode_rune 0x1F4CB @ '' <b>Contexto:</b> '' @ escapeHTML ctx @ nl else [])
     @ nl @ encode_rune 0x1F3E2 @ '' <b>Servicio:</b> Monitoring Energy Service''"

definition maskToken :: "Notifier \<Rightarrow> goerr option \<Rightarrow> string" where
  "maskToken n err =
     (case err of None \<Rightarrow> [] | Some e \<Rightarrow> ReplaceAll (Error e) (botToken n) ''***'')"

section \<open>Sending\<close>

definition enqueue :: "Notifier \<Rightarrow> string \<Rightarrow> Notifier" where
  "enqueue n text =
     (if n_stopped n then n
      else if n_closed n then n\<lparr>n_panicked := True\<rparr>
      else if length (alertChan n) < alertCap
      then n\<lparr>alertChan := alertChan n @ [text], n_accepted := n_accepted n @ [text]\<rparr>
      else n)"

definition SendErrorNotification ::
  "string \<Rightarrow> Notifier \<Rightarrow> string \<Rightarrow> string \<Rightarrow> string \<Rightarrow> goerr option \<times> Notifier" where
  "SendErrorNotification timestamp n errorType message ctx =
     (if \<not> n_enabled n then (None, n)
      else if botToken n = [] \<or> chatID n = []
      then (Some (TextError ''telegram bot token or chat ID not configured''), n)
      else (None, enqueue n (formatErrorMessage timestamp errorType message ctx)))"

definition SendValidationError ::
  "string \<Rightarrow> Notifier \<Rightarrow> string \<Rightarrow> string \<Rightarrow> string \<Rightarrow> goerr option \<times> Notifier" where
  "SendValidationError timestamp n fieldName value errorDetail =
     SendErrorNotification timestamp n (''Validaci'' @ encode_rune 0xF3 @ ''n de Datos'') errorDetail
       (''Campo: '' @ fieldName @ '', Valor: '' @ value)"

definition SendUUIDError ::
  "string \<Rightarrow> Notifier \<Rightarrow> string \<Rightarrow> string \<Rightarrow> string \<Rightarrow> goerr option \<times> Notifier" where
  "SendUUIDError timestamp n fieldName invalidUUID errorDetail =
     SendErrorNotification timestamp n (''UUID Inv'' @ encode_rune 0xE1 @ ''lido'') errorDetail
       (''Campo: '' @ fieldName @ '', UUID inv'' @ encode_rune 0xE1 @ ''lido: '' @ invalidUUID)"

text \<open>
  The HTTP exchange belongs to \<open>net/http\<close> and the network: \<open>post\<close> takes the URL and the body
  and gives the transport error, the error of decoding the reply, or its two fields.
\<close>

definition sendMessage ::
  "(string \<Rightarrow> bytes \<Rightarrow> goerr + (goerr + bool \<times> string)) \<Rightarrow> Notifier \<Rightarrow> string \<Rightarrow> goerr option" where
  "sendMessage post n text =
     (let url = ''https://api.telegram.org/bot'' @ botToken n @ ''/sendMessage'';
          body = ''{'' @ json_quote ''chat_id'' @ '':'' @ json_quote (chatID n)
                 @ '','' @ json_quote ''text'' @ '':'' @ json_quote text
                 @ '','' @ json_quote ''parse_mode'' @ '':'' @ json_quote ''HTML'' @ ''}''
      in case post url body of
           Inl e \<Rightarrow> Some (Errorf_w ''error sending telegram message'' e)
         | Inr (Inl e) \<Rightarrow> Some (Errorf_w ''error decoding telegram response'' e)
         | Inr (Inr (ok, description)) \<Rightarrow>
             if \<not> ok then Some (TextError (''telegram API error: '' @ description)) else None)"

text \<open>
  One turn of the worker's loop: the text it takes and the line it logs when the send fails.
  The loop ends when the channel is closed and empty.
\<close>

definition worker_turn ::
  "(string \<Rightarrow> bytes \<Rightarrow> goerr + (goerr + bool \<times> string)) \<Rightarrow> Notifier \<Rightarrow> string option \<times> Notifier" where
  "worker_turn post n =
     (case alertChan n of
        [] \<Rightarrow> (None, if n_closed n then n\<lparr>n_workerDone := True\<rparr> else n)
      | text # rest \<Rightarrow>
          (case sendMessage post n text of
             Some e \<Rightarrow> Some (maskToken n (Some e))
           | None \<Rightarrow> None,
           n\<lparr>alertChan := rest, n_taken := n_taken n @ [text]\<rparr>))"

section \<open>The notifier as a system of steps\<close>

text \<open>
  Callers enqueue under the lock, so an enqueue is one step. \<open>Stop\<close> runs its body once, in
  three steps: mark, close the channel, wait for the worker. The worker takes its turns.
\<close>

inductive notifier_step :: "Notifier \<Rightarrow> Notifier \<Rightarrow> bool" where
  ns_enqueue: "notifier_step n (enqueue n text)"
| ns_mark: "n_phase n = NotStopped \<Longrightarrow> notifier_step n (n\<lparr>n_stopped := True, n_phase := Marked\<rparr>)"
| ns_close: "n_phase n = Marked \<Longrightarrow> notifier_step n (n\<lparr>n_closed := True, n_phase := Closed\<rparr>)"
| ns_wait: "n_phase n = Closed \<Longrightarrow> n_workerDone n \<Longrightarrow> notifier_step n (n\<lparr>n_phase := Waited\<rparr>)"
| ns_worker: "\<not> n_workerDone n \<Longrightarrow> notifier_step n (snd (worker_turn post n))"

inductive_cases notifier_stepE: "notifier_step n n'"

inductive notifier_reach :: "Notifier \<Rightarrow> bool" where
  nr_init: "notifier_reach (NewNotifier token chat en)"
| nr_step: "notifier_reach n \<Longrightarrow> notifier_step n n' \<Longrightarrow> notifier_reach n'"

definition notifier_inv :: "Notifier \<Rightarrow> bool" where
  "notifier_inv n \<longleftrightarrow>
     length (alertChan n) \<le> alertCap \<and> \<not> n_panicked n
     \<and> (n_stopped n \<longleftrightarrow> n_phase n \<noteq> NotStopped)
     \<and> (n_closed n \<longleftrightarrow> n_phase n \<in> {Closed, Waited})
     \<and> (n_workerDone n \<longrightarrow> n_closed n \<and> alertChan n = [])
     \<and> (n_phase n = Waited \<longrightarrow> n_workerDone n)
     \<and> n_accepted n = n_taken n @ alertChan n"

lemma notifier_inv_init: "notifier_inv (NewNotifier token chat en)"
  by (simp add: notifier_inv_def NewNotifier_def)

lemma enqueue_inv: "notifier_inv n \<Longrightarrow> notifier_inv (enqueue n text)"
  by (auto simp: notifier_inv_def enqueue_def)

lemma worker_turn_inv: "notifier_inv n \<Longrightarrow> notifier_inv (snd (worker_turn post n))"
  by (auto simp: notifier_inv_def worker_turn_def split: list.splits)

lemma notifier_step_inv: "notifier_step n n' \<Longrightarrow> notifier_inv n \<Longrightarrow> notifier_inv n'"
proof (induction rule: notifier_step.induct)
  case (ns_enqueue n t)
  then show ?case by (rule enqueue_inv)
next
  case (ns_worker n post)
  then show ?case by (blast intro: worker_turn_inv)
qed (auto simp: notifier_inv_def)

lemma notifier_reach_inv: "notifier_reach n \<Longrightarrow> notifier_inv n"
  by (induction rule: notifier_reach.induct) (auto intro: notifier_inv_init notifier_step_inv)

section \<open>Frames and bounds\<close>

lemma enqueue_frame [frame]:
  "botToken (enqueue n t) = botToken n" "chatID (enqueue n t) = chatID n"
  "n_enabled (enqueue n t) = n_enabled n" "n_stopped (enqueue n t) = n_stopped n"
  "n_closed (enqueue n t) = n_closed n"
  by (simp_all add: enqueue_def)

section \<open>The notifier as its clients see it\<close>

text \<open>Whatever an enqueue keeps is kept by every client, for all a client can do is enqueue a text.\<close>

locale notifier_contract =
  fixes I :: "Notifier \<Rightarrow> bool"
  assumes enqueue_keeps: "I n \<Longrightarrow> I (enqueue n t)"
begin

lemma send_keeps:
  "I n \<Longrightarrow> I (snd (SendErrorNotification ts n ty m c))"
  "I n \<Longrightarrow> I (snd (SendValidationError ts n f v d))"
  "I n \<Longrightarrow> I (snd (SendUUIDError ts n f u d))"
  by (simp_all add: SendValidationError_def SendUUIDError_def SendErrorNotification_def enqueue_keeps)

end

interpretation safe_notifier: notifier_contract notifier_inv
  by unfold_locales (rule enqueue_inv)

interpretation phase_notifier: notifier_contract "\<lambda>n. n_phase n = ph" for ph
  by unfold_locales (simp add: enqueue_def)

section \<open>Escaping\<close>

lemma replace_from_single:
  "replace_from [c] new 0 s = concat (map (\<lambda>x. if x = c then new else [x]) s)"
  by (induction s) (auto simp: HasPrefix_def)

lemma ReplaceAll_single: "ReplaceAll s [c] new = concat (map (\<lambda>x. if x = c then new else [x]) s)"
  by (simp add: ReplaceAll_def replace_from_single)

definition escape_char :: "char \<Rightarrow> string" where
  "escape_char x =
     (if x = CHR ''&'' then ''&amp;'' else if x = CHR ''<'' then ''&lt;''
      else if x = CHR ''>'' then ''&gt;'' else [x])"

lemma escapeHTML_eq: "escapeHTML s = concat (map escape_char s)"
  by (induction s) (simp_all add: escapeHTML_def ReplaceAll_single escape_char_def)

lemma escapeHTML_append: "escapeHTML (a @ b) = escapeHTML a @ escapeHTML b"
  by (simp add: escapeHTML_eq)

section \<open>Masking\<close>

lemma replace_from_prefix:
  assumes "x \<notin> set p" "HasPrefix (replace_from old (x # new) 0 s) p"
  shows "HasPrefix s p"
  using assms
proof (induction s arbitrary: p)
  case Nil
  then show ?case by simp
next
  case (Cons c s)
  show ?case
  proof (cases p)
    case Nil
    then show ?thesis by (simp add: HasPrefix_def)
  next
    case p: (Cons q p')
    with Cons.prems have "\<not> HasPrefix (c # s) old"
      by (auto simp: HasPrefix_def)
    with Cons.prems p have "q = c" "HasPrefix (replace_from old (x # new) 0 s) p'"
      by (auto simp: HasPrefix_def)
    with Cons p show ?thesis by (auto simp: HasPrefix_def)
  qed
qed

lemma Contains_skip: "set a \<inter> set p = {} \<Longrightarrow> p \<noteq> [] \<Longrightarrow> Contains (a @ b) p \<longleftrightarrow> Contains b p"
proof (induction a)
  case (Cons c a)
  then have "\<not> HasPrefix ((c # a) @ b) p"
    by (cases p) (auto simp: HasPrefix_def)
  with Cons show ?case by simp
qed simp

lemma replace_from_free:
  assumes "old \<noteq> []" "set (x # new) \<inter> set old = {}"
  shows "\<not> Contains (replace_from old (x # new) k s) old"
  using assms
proof (induction old "x # new" k s rule: replace_from.induct)
  case (3 old c s)
  show ?case
  proof (cases "HasPrefix (c # s) old")
    case True
    then show ?thesis
      using 3 Contains_skip [of "x # new" old] by auto
  next
    case False
    have "\<not> HasPrefix (c # replace_from old (x # new) 0 s) old"
    proof
      assume *: "HasPrefix (c # replace_from old (x # new) 0 s) old"
      obtain q p' where old: "old = q # p'"
        using 3 by (cases old) auto
      with * have "q = c" "HasPrefix (replace_from old (x # new) 0 s) p'"
        by (auto simp: HasPrefix_def)
      moreover have "x \<notin> set p'" using 3 old by auto
      ultimately have "HasPrefix (c # s) old"
        using replace_from_prefix [of x p' old new s] old by (auto simp: HasPrefix_def)
      with False show False ..
    qed
    with False 3 show ?thesis by simp
  qed
qed auto

section \<open>Properties\<close>

text \<open>
  C30. The notifier under every interleaving of callers, \<open>Stop\<close> and the worker: the queue
  never exceeds 100 texts, nothing is ever sent on the closed channel (no panic), texts leave
  in the order they were accepted, and once \<open>Stop\<close> has returned every accepted text has been
  handed to the Telegram API.
\<close>

theorem notifier_safe:
  assumes "notifier_reach n"
  shows "length (alertChan n) \<le> 100 \<and> \<not> n_panicked n
    \<and> n_accepted n = n_taken n @ alertChan n
    \<and> (n_phase n = Waited \<longrightarrow> n_taken n = n_accepted n)"
  using notifier_reach_inv [OF assms] by (auto simp: notifier_inv_def alertCap_def)

lemma notifier_run_example:
  "notifier_reach (snd (worker_turn (\<lambda>_ _. Inl ErrInternal) (enqueue (NewNotifier ''t'' ''c'' True) ''x'')))"
  by (rule nr_step [OF nr_step [OF nr_init ns_enqueue] ns_worker])
     (simp add: NewNotifier_def enqueue_def)

theorem notifier_safe_witness:
  "n_taken (snd (worker_turn (\<lambda>_ _. Inl ErrInternal) (enqueue (NewNotifier ''t'' ''c'' True) ''x''))) = [''x'']
   \<and> n_accepted (snd (worker_turn (\<lambda>_ _. Inl ErrInternal) (enqueue (NewNotifier ''t'' ''c'' True) ''x'')))
     = [''x''] @ alertChan (snd (worker_turn (\<lambda>_ _. Inl ErrInternal) (enqueue (NewNotifier ''t'' ''c'' True) ''x'')))"
  using notifier_safe [OF notifier_run_example]
  by (simp add: worker_turn_def NewNotifier_def enqueue_def alertCap_def)

lemma escape_char_prefix_free:
  "escape_char x @ a = escape_char y @ b \<Longrightarrow> x = y \<and> a = b"
  by (auto simp: escape_char_def split: if_splits)

lemma concat_escape_inj:
  "concat (map escape_char s) = concat (map escape_char t) \<Longrightarrow> s = t"
proof (induction s arbitrary: t)
  case Nil
  then show ?case by (cases t) (auto simp: escape_char_def split: if_splits)
next
  case (Cons x s)
  show ?case
  proof (cases t)
    case Nil
    with Cons.prems show ?thesis by (auto simp: escape_char_def split: if_splits)
  next
    case (Cons y u)
    with Cons.prems have "x = y \<and> concat (map escape_char s) = concat (map escape_char u)"
      by (intro escape_char_prefix_free) simp
    with Cons Cons.IH show ?thesis by simp
  qed
qed

text \<open>
  C32. Text that comes from a message cannot add markup to a notification: what
  \<open>escapeHTML\<close> returns has no angle bracket, and distinct texts stay distinct.
\<close>

theorem escapeHTML_safe:
  "CHR ''<'' \<notin> set (escapeHTML s) \<and> CHR ''>'' \<notin> set (escapeHTML s)
   \<and> (escapeHTML s = escapeHTML t \<longleftrightarrow> s = t)"
  using concat_escape_inj [of s t]
  by (auto simp: escapeHTML_eq escape_char_def split: if_splits)

text \<open>
  The line the worker logs for a failed send never shows the bot token, for any token
  that is not empty and has no asterisk (a token holds digits, letters, a colon, hyphens and
  underscores).
\<close>

theorem maskToken_hides_token:
  assumes "botToken n \<noteq> []" "CHR ''*'' \<notin> set (botToken n)"
  shows "\<not> Contains (maskToken n err) (botToken n)"
proof (cases err)
  case None
  with assms show ?thesis by (simp add: maskToken_def)
next
  case (Some e)
  with assms replace_from_free [of "botToken n" "CHR ''*''" "''**''" 0 "Error e"] show ?thesis
    by (simp add: maskToken_def ReplaceAll_def)
qed

theorem maskToken_hides_token_witness:
  "\<not> Contains (maskToken (NewNotifier ''12:ab'' ''c'' True) (Some (TextError ''Post bot12:ab/sendMessage''))) ''12:ab''"
proof -
  have "botToken (NewNotifier ''12:ab'' ''c'' True) = ''12:ab''"
    by (simp add: NewNotifier_def)
  with maskToken_hides_token [of "NewNotifier ''12:ab'' ''c'' True"
      "Some (TextError ''Post bot12:ab/sendMessage'')"]
  show ?thesis by simp
qed

end
