(* ===== verification/Alert_Evaluation.thy ===== *)
theory Alert_Evaluation
  imports Telegram_Notifier
begin

text \<open>
  \<open>internal/domain/services/alert_evaluation_service.go\<close>: the rules, their evaluation against
  an event and the notifications they trigger, and the reload of the rules.

  The service holds its rules; its notifier is the shared one, passed as an option
  (\<^const>\<open>None\<close> is the nil pointer). \<open>gjson.GetBytes\<close> is third-party code: the parameter
  \<open>gj\<close> takes the marshalled event and the path and gives the value found, if any.
\<close>

record AlertEvaluationService =
  rules :: "AlertRule list"
  stopCh_closed :: bool

section \<open>Rules\<close>

text \<open>The constants 50, 80 and 100 as \<open>float64\<close>.\<close>

definition f64_50 :: float64 where
  "f64_50 = 0x4049000000000000"

definition f64_80 :: float64 where
  "f64_80 = 0x4054000000000000"

definition f64_100 :: float64 where
  "f64_100 = 0x4059000000000000"

definition defaultAlertRules :: "AlertRule list" where
  "defaultAlertRules =
     [\<lparr>ar_Name = ''high_temperature'', ar_EventType = ''temperature'', ar_Condition = ''gt'',
       ar_FieldPath = ''temperature'', ar_Threshold = f64_50, ar_ThresholdStr = [],
       ar_Severity = ''warning'', ar_NotificationMsg = ''Temperatura muy alta detectada''\<rparr>,
      \<lparr>ar_Name = ''critical_temperature'', ar_EventType = ''temperature'', ar_Condition = ''gt'',
       ar_FieldPath = ''temperature'', ar_Threshold = f64_80, ar_ThresholdStr = [],
       ar_Severity = ''critical'',
       ar_NotificationMsg = encode_rune 0xA1 @ ''Temperatura cr'' @ encode_rune 0xED
         @ ''tica! Intervenci'' @ encode_rune 0xF3 @ ''n inmediata requerida''\<rparr>,
      \<lparr>ar_Name = ''pressure_critical'', ar_EventType = ''pressure'', ar_Condition = ''gt'',
       ar_FieldPath = ''pressure'', ar_Threshold = f64_100, ar_ThresholdStr = [],
       ar_Severity = ''critical'',
       ar_NotificationMsg = ''Presi'' @ encode_rune 0xF3 @ ''n cr'' @ encode_rune 0xED
         @ ''tica detectada''\<rparr>,
      \<lparr>ar_Name = ''power_loss'', ar_EventType = ''status'', ar_Condition = ''eq'',
       ar_FieldPath = ''status'', ar_Threshold = f64_zero, ar_ThresholdStr = [],
       ar_Severity = ''critical'',
       ar_NotificationMsg = ''P'' @ encode_rune 0xE9 @ ''rdida de energ'' @ encode_rune 0xED
         @ ''a en planta''\<rparr>]"

text \<open>\<open>found\<close> is what \<open>rulesRepo.FindActive()\<close> returns.\<close>

definition NewAlertEvaluationService :: "goerr + AlertRule list \<Rightarrow> AlertEvaluationService" where
  "NewAlertEvaluationService found =
     (case found of
        Inr rs \<Rightarrow> \<lparr>rules = rs, stopCh_closed = False\<rparr>
      | Inl err \<Rightarrow> \<lparr>rules = defaultAlertRules, stopCh_closed = False\<rparr>)"

text \<open>
  One turn of the goroutine that \<open>Start\<close> launches: \<^const>\<open>None\<close> is its return on the stop
  channel, \<open>found\<close> what the repository returns on a tick.
\<close>

definition reload_turn ::
  "goerr + AlertRule list \<Rightarrow> AlertEvaluationService \<Rightarrow> AlertEvaluationService option" where
  "reload_turn found s =
     (if stopCh_closed s then None
      else Some (case found of Inr rs \<Rightarrow> s\<lparr>rules := rs\<rparr> | Inl err \<Rightarrow> s))"

text \<open>\<open>Stop\<close> closes the channel; a second close panics (\<^const>\<open>None\<close>).\<close>

definition Stop_alerts :: "AlertEvaluationService \<Rightarrow> AlertEvaluationService option" where
  "Stop_alerts s = (if stopCh_closed s then None else Some (s\<lparr>stopCh_closed := True\<rparr>))"

section \<open>Conditions\<close>

definition toFloat64 :: "goval \<Rightarrow> float64 \<times> bool" where
  "toFloat64 value =
     (case value of
        GFloat v \<Rightarrow> (v, True)
      | GFloat32 v \<Rightarrow> (f64_of_f32 v, True)
      | GInt v \<Rightarrow> (f64_of_int (sint v), True)
      | GInt32 v \<Rightarrow> (f64_of_int (sint v), True)
      | GInt64 v \<Rightarrow> (f64_of_int (sint v), True)
      | GString v \<Rightarrow> (case Sscanf_f v of Some f \<Rightarrow> (f, True) | None \<Rightarrow> (f64_zero, False))
      | _ \<Rightarrow> (f64_zero, False))"

definition containsString :: "goval \<Rightarrow> string \<Rightarrow> bool" where
  "containsString value searchStr =
     (case value of GString s \<Rightarrow> Contains s searchStr | _ \<Rightarrow> False)"

definition getFieldValue ::
  "(bytes \<Rightarrow> string \<Rightarrow> goval option) \<Rightarrow> gomap \<Rightarrow> string \<Rightarrow> goval" where
  "getFieldValue gj data fieldPath =
     (case map_of data fieldPath of
        Some v \<Rightarrow> v
      | None \<Rightarrow>
          (case Marshal (GMap data) of
             None \<Rightarrow> GNil
           | Some b \<Rightarrow> (case gj b fieldPath of None \<Rightarrow> GNil | Some v \<Rightarrow> v)))"

definition evaluateCondition ::
  "(bytes \<Rightarrow> string \<Rightarrow> goval option) \<Rightarrow> AlertRule \<Rightarrow> gomap \<Rightarrow> bool" where
  "evaluateCondition gj rule data =
     (let value = getFieldValue gj data (ar_FieldPath rule)
      in if value = GNil then False
         else
           (let (floatVal, ok) = toFloat64 value; cond = ar_Condition rule
            in if \<not> ok \<and> cond \<noteq> ''contains'' \<and> cond \<noteq> ''eq'' then False
               else if cond = ''gt'' then f64_lt (ar_Threshold rule) floatVal
               else if cond = ''gte'' then f64_le (ar_Threshold rule) floatVal
               else if cond = ''lt'' then f64_lt floatVal (ar_Threshold rule)
               else if cond = ''lte'' then f64_le floatVal (ar_Threshold rule)
               else if cond = ''eq'' then fmt_v value = fmt_v (GFloat (ar_Threshold rule))
               else if cond = ''contains'' then containsString value (ar_ThresholdStr rule)
               else False))"

section \<open>Evaluation of an event\<close>

definition alert_text :: "AlertRule \<Rightarrow> string \<Rightarrow> string \<Rightarrow> string" where
  "alert_text rule plantName eventType =
     encode_rune 0x1F6A8 @ '' ALERTA ['' @ ar_Severity rule @ ''] '' @ ar_NotificationMsg rule @ nl
     @ encode_rune 0x1F3ED @ '' Planta: '' @ plantName @ nl
     @ encode_rune 0x1F4CA @ '' Evento: '' @ eventType @ nl
     @ encode_rune 0x1F4CB @ '' Severidad: '' @ ar_Severity rule"

definition triggerAlert ::
  "string \<Rightarrow> AlertRule \<Rightarrow> string \<Rightarrow> string \<Rightarrow> Notifier option \<Rightarrow> Notifier option" where
  "triggerAlert timestamp rule plantName eventType notifier =
     (case notifier of
        None \<Rightarrow> None
      | Some n \<Rightarrow>
          Some (snd (SendErrorNotification timestamp n (ar_Severity rule) (ar_NotificationMsg rule)
                  (alert_text rule plantName eventType))))"

fun evaluate_rules ::
  "(bytes \<Rightarrow> string \<Rightarrow> goval option) \<Rightarrow> string \<Rightarrow> AlertRule list \<Rightarrow> string \<Rightarrow> string \<Rightarrow> gomap
   \<Rightarrow> Notifier option \<Rightarrow> Notifier option" where
  "evaluate_rules gj ts [] eventType plantName data n = n"
| "evaluate_rules gj ts (rule # rs) eventType plantName data n =
     (if ar_EventType rule \<noteq> ''*'' \<and> ar_EventType rule \<noteq> eventType
      then evaluate_rules gj ts rs eventType plantName data n
      else if evaluateCondition gj rule data
      then evaluate_rules gj ts rs eventType plantName data
             (triggerAlert ts rule plantName eventType n)
      else evaluate_rules gj ts rs eventType plantName data n)"

definition EvaluateEvent ::
  "(bytes \<Rightarrow> string \<Rightarrow> goval option) \<Rightarrow> string \<Rightarrow> AlertEvaluationService \<Rightarrow> string \<Rightarrow> string \<Rightarrow> gomap
   \<Rightarrow> Notifier option \<Rightarrow> Notifier option" where
  "EvaluateEvent gj ts s eventType plantName data n =
     evaluate_rules gj ts (rules s) eventType plantName data n"

section \<open>The rules that fire\<close>

definition rule_applies :: "(bytes \<Rightarrow> string \<Rightarrow> goval option) \<Rightarrow> string \<Rightarrow> gomap \<Rightarrow> AlertRule \<Rightarrow> bool" where
  "rule_applies gj eventType data rule \<longleftrightarrow>
     (ar_EventType rule = ''*'' \<or> ar_EventType rule = eventType) \<and> evaluateCondition gj rule data"

definition notification :: "string \<Rightarrow> string \<Rightarrow> string \<Rightarrow> AlertRule \<Rightarrow> string" where
  "notification ts plantName eventType rule =
     formatErrorMessage ts (ar_Severity rule) (ar_NotificationMsg rule)
       (alert_text rule plantName eventType)"

definition running :: "Notifier \<Rightarrow> bool" where
  "running n \<longleftrightarrow> n_enabled n \<and> botToken n \<noteq> [] \<and> chatID n \<noteq> [] \<and> \<not> n_stopped n \<and> \<not> n_closed n
     \<and> length (alertChan n) \<le> alertCap"

lemma triggerAlert_running:
  assumes "running n"
  obtains n' where "triggerAlert ts r p e (Some n) = Some n'" "running n'"
    "alertChan n' = take alertCap (alertChan n @ [notification ts p e r])"
  using assms
  by (auto simp: running_def triggerAlert_def SendErrorNotification_def enqueue_def notification_def)

lemma evaluate_rules_inv:
  assumes "\<And>n. P n \<Longrightarrow> P (snd (SendErrorNotification ts n ty m c))" "P n"
    "\<And>n ty m c. P n \<Longrightarrow> P (snd (SendErrorNotification ts n ty m c))"
  shows "\<exists>n'. evaluate_rules gj ts rs e p data (Some n) = Some n' \<and> P n'"
  using assms(2)
proof (induction rs arbitrary: n)
  case (Cons r rs)
  then show ?case
    using assms(3) by (auto simp: triggerAlert_def)
qed simp

lemma evaluate_rules_nil_notifier: "evaluate_rules gj ts rs e p data None = None"
  by (induction rs) (auto simp: triggerAlert_def)

section \<open>Facts about conditions\<close>

lemma evaluateCondition_missing:
  "getFieldValue gj data (ar_FieldPath rule) = GNil \<Longrightarrow> \<not> evaluateCondition gj rule data"
  by (simp add: evaluateCondition_def)

lemma getFieldValue_direct [simp]: "map_of data path = Some v \<Longrightarrow> getFieldValue gj data path = v"
  by (simp add: getFieldValue_def)

lemma evaluateCondition_float:
  assumes "getFieldValue gj data (ar_FieldPath rule) = GFloat v"
  shows "evaluateCondition gj rule data \<longleftrightarrow>
    (ar_Condition rule = ''gt'' \<and> f64_lt (ar_Threshold rule) v
     \<or> ar_Condition rule = ''gte'' \<and> f64_le (ar_Threshold rule) v
     \<or> ar_Condition rule = ''lt'' \<and> f64_lt v (ar_Threshold rule)
     \<or> ar_Condition rule = ''lte'' \<and> f64_le v (ar_Threshold rule)
     \<or> ar_Condition rule = ''eq'' \<and> fmt_float64 v = fmt_float64 (ar_Threshold rule))"
  using assms by (simp add: evaluateCondition_def toFloat64_def containsString_def Let_def)

lemma f64_le_not_lt: "\<not> is_nan a \<Longrightarrow> \<not> is_nan b \<Longrightarrow> f64_le a b \<longleftrightarrow> \<not> f64_lt b a"
  by (auto simp: f64_lt_def f64_le_def)

lemma f64_50_80: "f64_lt f64_50 f64_80" "\<not> is_nan f64_50" "\<not> is_nan f64_80"
  by (simp_all add: f64_lt_def is_nan_def f64_key_def f64_mag_def f64_neg_def f64_50_def f64_80_def
      f64_inf_mag_def)

lemma evaluateCondition_not_number:
  assumes "ar_Condition rule \<in> {''gt'', ''gte'', ''lt'', ''lte''}"
    "\<not> snd (toFloat64 (getFieldValue gj data (ar_FieldPath rule)))"
  shows "\<not> evaluateCondition gj rule data"
  using assms by (auto simp: evaluateCondition_def Let_def split: prod.splits)

lemma default_temperature_rules:
  assumes "map_of data ''temperature'' = Some (GFloat v)"
  shows "filter (rule_applies gj ''temperature'' data) defaultAlertRules =
    (if f64_lt f64_50 v then [defaultAlertRules ! 0] else [])
    @ (if f64_lt f64_80 v then [defaultAlertRules ! 1] else [])"
  using assms by (simp add: defaultAlertRules_def rule_applies_def evaluateCondition_float)

section \<open>Properties\<close>

lemma evaluate_rules_Cons:
  "evaluate_rules gj ts (r # rs) e p data n =
     evaluate_rules gj ts rs e p data
       (if rule_applies gj e data r then triggerAlert ts r p e n else n)"
  by (simp add: rule_applies_def)

lemma evaluate_rules_running:
  assumes "running n"
  shows "\<exists>n'. evaluate_rules gj ts rs e p data (Some n) = Some n' \<and> running n'
    \<and> alertChan n' = take alertCap (alertChan n @
        map (notification ts p e) (filter (rule_applies gj e data) rs))"
  using assms
proof (induction rs arbitrary: n)
  case Nil
  then show ?case by (auto simp: running_def)
next
  case (Cons r rs)
  show ?case
  proof (cases "rule_applies gj e data r")
    case True
    obtain n1 where n1: "triggerAlert ts r p e (Some n) = Some n1" "running n1"
      "alertChan n1 = take alertCap (alertChan n @ [notification ts p e r])"
      using triggerAlert_running [OF Cons.prems] by blast
    let ?q = "map (notification ts p e) (filter (rule_applies gj e data) rs)"
    have "take alertCap (alertChan n1 @ ?q) = take alertCap (alertChan n @ notification ts p e r # ?q)"
      unfolding n1(3) take_take_append by simp
    with Cons.IH [OF n1(2)] n1(1) True show ?thesis
      by (auto simp: evaluate_rules_Cons simp del: take_append evaluate_rules.simps)
  next
    case False
    with Cons.IH [OF Cons.prems] show ?thesis
      by (auto simp: evaluate_rules_Cons simp del: evaluate_rules.simps)
  qed
qed

text \<open>
  C31. An event notifies exactly the rules that apply to it, in the order of the rules: the
  queue grows by one text per matching rule (matching type or the wildcard, condition true),
  and what exceeds its capacity of 100 is dropped from the end. The notifier stays running.
\<close>

theorem EvaluateEvent_notifies:
  assumes "running n"
  shows "\<exists>n'. EvaluateEvent gj ts s eventType plantName data (Some n) = Some n' \<and> running n'
    \<and> alertChan n' = take alertCap (alertChan n @
        map (notification ts plantName eventType) (filter (rule_applies gj eventType data) (rules s)))"
  unfolding EvaluateEvent_def by (rule evaluate_rules_running [OF assms])

theorem EvaluateEvent_notifies_witness:
  "\<exists>n'. EvaluateEvent (\<lambda>_ _. None) ''now'' \<lparr>rules = defaultAlertRules, stopCh_closed = False\<rparr>
      ''temperature'' ''P1'' [(''temperature'', GFloat f64_80)] (Some (NewNotifier ''t'' ''c'' True)) = Some n'
    \<and> length (alertChan n') = 1"
proof -
  have r: "running (NewNotifier ''t'' ''c'' True)"
    by (simp add: running_def NewNotifier_def)
  have "filter (rule_applies (\<lambda>_ _. None) ''temperature'' [(''temperature'', GFloat f64_80)])
      defaultAlertRules = [hd defaultAlertRules]"
    by (simp add: defaultAlertRules_def rule_applies_def evaluateCondition_float f64_lt_def is_nan_def
        f64_key_def f64_mag_def f64_neg_def f64_50_def f64_80_def f64_inf_mag_def)
  with EvaluateEvent_notifies [OF r, of "\<lambda>_ _. None" "''now''"
      "\<lparr>rules = defaultAlertRules, stopCh_closed = False\<rparr>" "''temperature''" "''P1''"
      "[(''temperature'', GFloat f64_80)]"]
  show ?thesis by (auto simp: NewNotifier_def alertCap_def)
qed


text \<open>
  The built-in temperature rules grade a reading: at most 50 notifies nothing, above 50
  and at most 80 the warning alone, above 80 the warning and then the critical alert, and a NaN
  reading nothing; no rule of another event type fires.
\<close>

theorem default_temperature_grading:
  assumes "map_of data ''temperature'' = Some (GFloat v)"
  shows "filter (rule_applies gj ''temperature'' data)
      (rules (NewAlertEvaluationService (Inl err))) =
    (if is_nan v \<or> f64_le v f64_50 then []
     else if f64_le v f64_80 then [defaultAlertRules ! 0]
     else [defaultAlertRules ! 0, defaultAlertRules ! 1])"
proof (cases "is_nan v")
  case True
  then show ?thesis
    by (simp add: NewAlertEvaluationService_def default_temperature_rules [OF assms])
next
  case False
  then show ?thesis
    using f64_lt_trans [OF f64_50_80(1), of v]
    by (simp add: NewAlertEvaluationService_def default_temperature_rules [OF assms] f64_le_not_lt
        f64_50_80)
qed

theorem default_temperature_grading_witness:
  "filter (rule_applies (\<lambda>_ _. None) ''temperature'' [(''temperature'', GFloat f64_80)])
      (rules (NewAlertEvaluationService (Inl ErrInternal))) = [defaultAlertRules ! 0]"
  using default_temperature_grading
      [of "[(''temperature'', GFloat f64_80)]" f64_80 "\<lambda>_ _. None" ErrInternal]
  by (simp add: f64_le_not_lt f64_50_80) (simp add: f64_lt_def)

text \<open>
  On a numeric field the ordering conditions are each other's complement: for readings and
  thresholds that are not NaN a rule with \<open>gte\<close> fires exactly when the same rule with
  \<open>lt\<close> does not, and \<open>gt\<close> exactly when \<open>lte\<close> does not; when either is NaN none of the
  four fires.
\<close>

theorem ordering_conditions_complement:
  assumes "map_of data (ar_FieldPath rule) = Some (GFloat v)"
  shows "evaluateCondition gj (rule\<lparr>ar_Condition := ''gte''\<rparr>) data =
      (\<not> is_nan v \<and> \<not> is_nan (ar_Threshold rule)
        \<and> \<not> evaluateCondition gj (rule\<lparr>ar_Condition := ''lt''\<rparr>) data)
    \<and> evaluateCondition gj (rule\<lparr>ar_Condition := ''gt''\<rparr>) data =
      (\<not> is_nan v \<and> \<not> is_nan (ar_Threshold rule)
        \<and> \<not> evaluateCondition gj (rule\<lparr>ar_Condition := ''lte''\<rparr>) data)"
proof -
  have "getFieldValue gj data (ar_FieldPath (rule\<lparr>ar_Condition := c\<rparr>)) = GFloat v" for c
    using assms by simp
  note ev = evaluateCondition_float [OF this]
  show ?thesis unfolding ev by (auto simp: f64_lt_def f64_le_def)
qed

theorem ordering_conditions_complement_witness:
  "evaluateCondition (\<lambda>_ _. None)
     ((defaultAlertRules ! 0)\<lparr>ar_Condition := ''gte''\<rparr>) [(''temperature'', GFloat f64_80)]"
proof -
  have f: "map_of [(''temperature'', GFloat f64_80)] (ar_FieldPath (defaultAlertRules ! 0))
      = Some (GFloat f64_80)"
    and t: "ar_Threshold (defaultAlertRules ! 0) = f64_50"
    by (simp_all add: defaultAlertRules_def)
  have g: "getFieldValue (\<lambda>_ _. None) [(''temperature'', GFloat f64_80)]
      (ar_FieldPath ((defaultAlertRules ! 0)\<lparr>ar_Condition := ''lt''\<rparr>)) = GFloat f64_80"
    by (simp add: defaultAlertRules_def)
  have "\<not> evaluateCondition (\<lambda>_ _. None) ((defaultAlertRules ! 0)\<lparr>ar_Condition := ''lt''\<rparr>)
      [(''temperature'', GFloat f64_80)]"
    unfolding evaluateCondition_float [OF g] using f64_50_80(1) by (simp add: t f64_lt_def)
  with ordering_conditions_complement [OF f, of "\<lambda>_ _. None"] show ?thesis
    by (simp add: t f64_50_80)
qed

text \<open>
  A failed reload never loses the rules: whatever the repository answers over any number
  of ticks, the service evaluates with the rules of the last successful answer, or with those it
  started with when every answer was an error.
\<close>

theorem reload_keeps_last_rules:
  "\<exists>s'. fold (\<lambda>found so. Option.bind so (reload_turn found)) answers
        (Some (NewAlertEvaluationService first)) = Some s'
    \<and> \<not> stopCh_closed s'
    \<and> rules s' = last (rules (NewAlertEvaluationService first)
        # map projr (filter (\<lambda>a. \<not> isl a) answers))"
proof (induction answers rule: rev_induct)
  case Nil
  show ?case by (simp add: NewAlertEvaluationService_def split: sum.splits)
next
  case (snoc a answers)
  then show ?case by (auto simp: reload_turn_def split: sum.splits)
qed

end
