(* ===== verification/Go_Time.thy ===== *)
theory Go_Time
  imports Go_Float
begin

text \<open>
  Go's \<open>time\<close> package as far as the program prints and reads instants: the proleptic Gregorian
  calendar, \<open>t.UTC().Format(time.RFC3339Nano)\<close> and \<open>time.Parse(time.RFC3339Nano, s)\<close>. Reading back
  what was printed gives the same instant for the years the format can hold (0 to 9999).
\<close>

section \<open>Calendar\<close>

definition isLeap :: "int \<Rightarrow> bool" where
  "isLeap y \<longleftrightarrow> y mod 4 = 0 \<and> (y mod 100 \<noteq> 0 \<or> y mod 400 = 0)"

definition month_lengths :: "int \<Rightarrow> int list" where
  "month_lengths y = [31, if isLeap y then 29 else 28, 31, 30, 31, 30, 31, 31, 30, 31, 30, 31]"

definition daysIn :: "int \<Rightarrow> int \<Rightarrow> int" where
  "daysIn m y = month_lengths y ! nat (m - 1)"

text \<open>Days from 1 January of year 1 to 1 January of year \<open>y\<close>.\<close>

definition days_before_year :: "int \<Rightarrow> int" where
  "days_before_year y = 365 * (y - 1) + (y - 1) div 4 - (y - 1) div 100 + (y - 1) div 400"

text \<open>The year of a day and the day within the year, by cycles of 400, 100, 4 and 1 years.\<close>

definition year_of_day :: "int \<Rightarrow> int \<times> int" where
  "year_of_day d =
     (let n400 = d div 146097; d1 = d mod 146097;
          n100 = min 3 (d1 div 36524); d2 = d1 - 36524 * n100;
          n4 = d2 div 1461; d3 = d2 mod 1461;
          n1 = min 3 (d3 div 365)
      in (400 * n400 + 100 * n100 + 4 * n4 + n1 + 1, d3 - 365 * n1))"

fun split_month :: "int list \<Rightarrow> int \<Rightarrow> int \<Rightarrow> int \<times> int" where
  "split_month [] m d = (m, d)"
| "split_month (n # ns) m d = (if d < n then (m, d) else split_month ns (m + 1) (d - n))"

record civil =
  year :: int
  month :: int
  day :: int
  hour :: int
  minute :: int
  second :: int
  nanos :: int

definition epoch_days :: int where
  "epoch_days = 719162"

definition civil_of_time :: "time \<Rightarrow> civil" where
  "civil_of_time t =
     (let secs = t div 1000000000; sod = secs mod 86400;
          (y, yd) = year_of_day (secs div 86400 + epoch_days);
          (m, d) = split_month (month_lengths y) 1 yd
      in \<lparr>year = y, month = m, day = d + 1, hour = sod div 3600, minute = sod div 60 mod 60,
          second = sod mod 60, nanos = t mod 1000000000\<rparr>)"

text \<open>\<open>time.Date\<close> in UTC on fields in range.\<close>

definition time_of_civil :: "civil \<Rightarrow> time" where
  "time_of_civil c =
     ((days_before_year (year c) + sum_list (take (nat (month c - 1)) (month_lengths (year c)))
       + (day c - 1) - epoch_days) * 86400
      + hour c * 3600 + minute c * 60 + second c) * 1000000000 + nanos c"

section \<open>Printing\<close>

definition digit_char :: "int \<Rightarrow> char" where
  "digit_char n = char_of (nat (48 + n mod 10))"

fun fixed_digits :: "nat \<Rightarrow> int \<Rightarrow> string" where
  "fixed_digits 0 n = []"
| "fixed_digits (Suc w) n = fixed_digits w (n div 10) @ [digit_char n]"

text \<open>\<open>appendInt(b, x, width)\<close>: at least \<open>width\<close> digits.\<close>

definition appendInt :: "int \<Rightarrow> nat \<Rightarrow> string" where
  "appendInt x width =
     (if x < 0 then ''-'' else []) @
     (if \<bar>x\<bar> < 10 ^ width then fixed_digits width \<bar>x\<bar> else nat_digits (nat \<bar>x\<bar>))"

text \<open>The \<open>.999999999\<close> of the layout: trailing zeros are left out, and the point with them.\<close>

definition fraction :: "int \<Rightarrow> string" where
  "fraction ns = (if ns = 0 then [] else CHR ''.'' # strip_zeros (fixed_digits 9 ns))"

definition Format_RFC3339Nano :: "time \<Rightarrow> string" where
  "Format_RFC3339Nano t =
     (let c = civil_of_time t
      in appendInt (year c) 4 @ ''-'' @ appendInt (month c) 2 @ ''-'' @ appendInt (day c) 2 @ ''T''
         @ appendInt (hour c) 2 @ '':'' @ appendInt (minute c) 2 @ '':'' @ appendInt (second c) 2
         @ fraction (nanos c) @ ''Z'')"

section \<open>Reading\<close>

definition is_dig :: "char \<Rightarrow> bool" where
  "is_dig c \<longleftrightarrow> 48 \<le> (of_char c :: nat) \<and> (of_char c :: nat) \<le> 57"

definition dig_val :: "char \<Rightarrow> int" where
  "dig_val c = of_char c - 48"

definition dec_val :: "string \<Rightarrow> int" where
  "dec_val s = foldl (\<lambda>n c. 10 * n + dig_val c) 0 s"

fun getnum :: "bool \<Rightarrow> string \<Rightarrow> (int \<times> string) option" where
  "getnum fixed [] = None"
| "getnum fixed [a] = (if is_dig a \<and> \<not> fixed then Some (dig_val a, []) else None)"
| "getnum fixed (a # b # s) =
     (if \<not> is_dig a then None
      else if is_dig b then Some (10 * dig_val a + dig_val b, s)
      else if fixed then None
      else Some (dig_val a, b # s))"

fun get_year :: "string \<Rightarrow> (int \<times> string) option" where
  "get_year (a # b # c # d # s) =
     (if is_dig a \<and> is_dig b \<and> is_dig c \<and> is_dig d then Some (dec_val [a, b, c, d], s) else None)"
| "get_year _ = None"

fun expect :: "char \<Rightarrow> string \<Rightarrow> string option" where
  "expect c [] = None"
| "expect c (x # s) = (if x = c then Some s else None)"

text \<open>The fraction is optional, takes a comma as well, and is cut after nine digits.\<close>

definition get_fraction :: "string \<Rightarrow> int \<times> string" where
  "get_fraction s =
     (case s of
        p # d # s' \<Rightarrow>
          (if (p = CHR ''.'' \<or> p = CHR '','') \<and> is_dig d
           then let ds = takeWhile is_dig (d # s'); k = take 9 ds
                in (dec_val k * 10 ^ (9 - length k), dropWhile is_dig (d # s'))
           else (0, s))
      | _ \<Rightarrow> (0, s))"

text \<open>The zone: \<open>Z\<close>, or a sign, two digits, a colon and two digits; the offset in seconds.\<close>

fun get_zone :: "string \<Rightarrow> (int \<times> string) option" where
  "get_zone (z # s) =
     (if z = CHR ''Z'' then Some (0, s)
      else
        (case s of
           h1 # h2 # c # m1 # m2 # s' \<Rightarrow>
             (if c \<noteq> CHR '':'' then None
              else
                (case (getnum True [h1, h2], getnum True [m1, m2]) of
                   (Some (hh, _), Some (mm, _)) \<Rightarrow>
                     (if 24 < hh \<or> 60 < mm then None
                      else if z = CHR ''+'' then Some ((hh * 60 + mm) * 60, s')
                      else if z = CHR ''-'' then Some (- ((hh * 60 + mm) * 60), s')
                      else None)
                 | _ \<Rightarrow> None))
         | _ \<Rightarrow> None))"
| "get_zone [] = None"

definition in_range :: "int \<Rightarrow> int \<Rightarrow> int \<times> string \<Rightarrow> (int \<times> string) option" where
  "in_range lo hi p = (if lo \<le> fst p \<and> fst p \<le> hi then Some p else None)"

definition Parse_date :: "string \<Rightarrow> (civil \<times> string) option" where
  "Parse_date s =
     Option.bind (get_year s) (\<lambda>(y, s).
     Option.bind (expect CHR ''-'' s) (\<lambda>s.
     Option.bind (Option.bind (getnum True s) (in_range 1 12)) (\<lambda>(m, s).
     Option.bind (expect CHR ''-'' s) (\<lambda>s.
     Option.bind (getnum True s) (\<lambda>(d, s).
     Option.bind (expect CHR ''T'' s) (\<lambda>s.
     Some (\<lparr>year = y, month = m, day = d, hour = 0, minute = 0, second = 0, nanos = 0\<rparr>, s)))))))"

definition Parse_clock :: "civil \<Rightarrow> string \<Rightarrow> (civil \<times> string) option" where
  "Parse_clock c s =
     Option.bind (Option.bind (getnum False s) (in_range 0 23)) (\<lambda>(h, s).
     Option.bind (expect CHR '':'' s) (\<lambda>s.
     Option.bind (Option.bind (getnum True s) (in_range 0 59)) (\<lambda>(mi, s).
     Option.bind (expect CHR '':'' s) (\<lambda>s.
     Option.bind (Option.bind (getnum True s) (in_range 0 59)) (\<lambda>(se, s).
     let (ns, s) = get_fraction s
     in Some (c\<lparr>hour := h, minute := mi, second := se, nanos := ns\<rparr>, s))))))"

definition Parse_RFC3339Nano :: "string \<Rightarrow> time option" where
  "Parse_RFC3339Nano s =
     Option.bind (Parse_date s) (\<lambda>(c, s).
     Option.bind (Parse_clock c s) (\<lambda>(c, s).
     Option.bind (get_zone s) (\<lambda>(off, s).
     if s \<noteq> [] then None
     else if day c < 1 \<or> daysIn (month c) (year c) < day c then None
     else Some (time_of_civil c - off * 1000000000))))"

section \<open>The calendar is exact\<close>

lemma capped_quotient:
  assumes "0 \<le> (x::int)" "x \<le> 4 * k" "0 < k"
  defines "q \<equiv> min 3 (x div k)"
  shows "0 \<le> q" "q \<le> 3" "0 \<le> x - k * q" "x - k * q < (if q = 3 then k + 1 else k)"
proof -
  have m: "0 \<le> x mod k" "x mod k < k" "x = k * (x div k) + x mod k" using assms by auto
  have nn: "0 \<le> x div k" using assms by (simp add: pos_imp_zdiv_nonneg_iff)
  then show "0 \<le> q" "q \<le> 3" by (auto simp: q_def)
  have "0 \<le> x - k * q \<and> x - k * q < (if q = 3 then k + 1 else k)"
  proof (cases "x div k \<le> 3")
    case True
    then have "x - k * q = x mod k" by (simp add: q_def minus_mult_div_eq_mod)
    then show ?thesis using m by simp
  next
    case False
    then have "k * 4 \<le> k * (x div k)" using assms by (intro mult_left_mono) auto
    then have "x = 4 * k" using m assms by linarith
    then show ?thesis using False assms by (simp add: q_def)
  qed
  then show "0 \<le> x - k * q" "x - k * q < (if q = 3 then k + 1 else k)" by auto
qed

lemma year_of_day_correct:
  assumes "year_of_day d = (y, yd)"
  shows "days_before_year y + yd = d" "0 \<le> yd" "yd < (if isLeap y then 366 else 365)"
proof -
  define a where "a = d div 146097"
  define d1 where "d1 = d mod 146097"
  define b where "b = min 3 (d1 div 36524)"
  define d2 where "d2 = d1 - 36524 * b"
  define c where "c = d2 div 1461"
  define d3 where "d3 = d2 mod 1461"
  define e where "e = min 3 (d3 div 365)"
  have y: "y = 400 * a + 100 * b + 4 * c + e + 1" and yd: "yd = d3 - 365 * e"
    using assms unfolding year_of_day_def a_def d1_def b_def d2_def c_def d3_def e_def Let_def
    by (metis prod.inject)+
  have d: "d = 146097 * a + d1" "0 \<le> d1" "d1 < 146097" by (auto simp: a_def d1_def)
  have b: "0 \<le> b" "b \<le> 3" "0 \<le> d2" "d2 < (if b = 3 then 36525 else 36524)"
    using capped_quotient [of d1 36524] d
    by (auto simp: b_def [symmetric] d2_def [symmetric] split: if_splits)
  have c: "d2 = 1461 * c + d3" "0 \<le> d3" "d3 < 1461" "0 \<le> c" "c \<le> 24"
  proof -
    have "d2 \<le> 36524" using b(4) by (simp split: if_splits)
    from zdiv_mono1 [OF this, of 1461] show "c \<le> 24" by (simp add: c_def)
    show "0 \<le> c" using b(3) by (simp add: c_def pos_imp_zdiv_nonneg_iff)
  qed (simp_all add: c_def d3_def)
  have e: "0 \<le> e" "e \<le> 3" "0 \<le> yd" "yd < (if e = 3 then 366 else 365)"
    using capped_quotient [of d3 365] c by (auto simp: e_def [symmetric] yd split: if_splits)
  have div: "(y - 1) div 4 = 100 * a + 25 * b + c" "(y - 1) div 100 = 4 * a + b" "(y - 1) div 400 = a"
  proof -
    have "y - 1 = e + 4 * (100 * a + 25 * b + c)" unfolding y by simp
    then show "(y - 1) div 4 = 100 * a + 25 * b + c"
      using e by (simp only: div_mult_self2 div_pos_pos_trivial)
    have "y - 1 = (4 * c + e) + 100 * (4 * a + b)" unfolding y by simp
    then show "(y - 1) div 100 = 4 * a + b"
      using e c by (simp only: div_mult_self2 div_pos_pos_trivial)
    have "y - 1 = (100 * b + 4 * c + e) + 400 * a" unfolding y by simp
    then show "(y - 1) div 400 = a"
      using e c b by (simp only: div_mult_self2 div_pos_pos_trivial)
  qed
  show "days_before_year y + yd = d"
    unfolding days_before_year_def div using d c yd y d2_def by simp
  show "0 \<le> yd" by (rule e)
  have leap: "e = 3 \<Longrightarrow> c \<noteq> 24 \<or> b = 3 \<Longrightarrow> isLeap y"
  proof -
    assume e3: "e = 3" and cb: "c \<noteq> 24 \<or> b = 3"
    have y4: "y = 4 * (100 * a + 25 * b + c + 1)" using y e3 by simp
    have y100: "y = (4 * c + 4) + 100 * (4 * a + b)" using y e3 by simp
    show "isLeap y"
    proof (cases "c = 24")
      case True
      then have "y = 400 * (a + 1)" using cb y e3 by simp
      then have "y mod 400 = 0" by (simp only: mod_mult_self1_is_0)
      moreover have "y mod 4 = 0" unfolding y4 by (simp only: mod_mult_self1_is_0)
      ultimately show ?thesis by (simp add: isLeap_def)
    next
      case False
      then have "0 < 4 * c + 4" "4 * c + 4 < 100" using c by auto
      then have "y mod 100 \<noteq> 0" unfolding y100 by (simp only: mod_mult_self2 mod_pos_pos_trivial)
      moreover have "y mod 4 = 0" unfolding y4 by (simp only: mod_mult_self1_is_0)
      ultimately show ?thesis by (simp add: isLeap_def)
    qed
  qed
  have "e = 3 \<Longrightarrow> c = 24 \<Longrightarrow> b \<noteq> 3 \<Longrightarrow> yd < 365"
    using c b yd by simp
  with leap e show "yd < (if isLeap y then 366 else 365)" by (auto split: if_splits)
qed

lemma split_month_correct:
  assumes "split_month ns m d = (m', d')" "0 \<le> d" "d < sum_list ns" "\<forall>n \<in> set ns. 0 < n"
  shows "m \<le> m' \<and> m' < m + int (length ns) \<and> sum_list (take (nat (m' - m)) ns) + d' = d
    \<and> 0 \<le> d' \<and> d' < ns ! nat (m' - m)"
  using assms
proof (induction ns m d rule: split_month.induct)
  case (2 n ns m d)
  show ?case
  proof (cases "d < n")
    case False
    with 2 have IH: "m + 1 \<le> m'" "m' < m + 1 + int (length ns)"
      "sum_list (take (nat (m' - (m + 1))) ns) + d' = d - n" "0 \<le> d'" "d' < ns ! nat (m' - (m + 1))"
      by auto
    have "nat (m' - m) = Suc (nat (m' - (m + 1)))" using IH by simp
    then show ?thesis using IH by simp
  qed (use 2 in auto)
qed simp

lemma month_lengths_props:
  "sum_list (month_lengths y) = (if isLeap y then 366 else 365)"
  "length (month_lengths y) = 12" "\<forall>n \<in> set (month_lengths y). 0 < n \<and> n \<le> 31"
  by (simp_all add: month_lengths_def)

definition civil_ok :: "civil \<Rightarrow> bool" where
  "civil_ok c \<longleftrightarrow> 1 \<le> month c \<and> month c \<le> 12 \<and> 1 \<le> day c \<and> day c \<le> daysIn (month c) (year c)
     \<and> 0 \<le> hour c \<and> hour c < 24 \<and> 0 \<le> minute c \<and> minute c < 60 \<and> 0 \<le> second c \<and> second c < 60
     \<and> 0 \<le> nanos c \<and> nanos c < 1000000000"

lemma clock_split:
  assumes "0 \<le> (r::int)" "r < 86400"
  shows "r div 3600 * 3600 + r div 60 mod 60 * 60 + r mod 60 = r"
proof -
  have "r div 3600 = r div 60 div 60" by (simp add: zdiv_zmult2_eq)
  moreover have "r div 60 div 60 * 60 + r div 60 mod 60 = r div 60" "r div 60 * 60 + r mod 60 = r"
    by simp_all
  ultimately show ?thesis by linarith
qed

lemma hour_bounds: "0 \<le> (r::int) \<Longrightarrow> r < 86400 \<Longrightarrow> 0 \<le> r div 3600 \<and> r div 3600 < 24"
  using zdiv_mono1 [of r 86399 3600] by (auto simp: pos_imp_zdiv_nonneg_iff)

lemma assemble:
  assumes "B + yd = D + E" "S + d = yd" "H + M + s = r" "D * 86400 + r = q" "q * 1000000000 + n = t"
  shows "((B + S + (d + 1 - 1) - E) * 86400 + H + M + s) * 1000000000 + n = (t::int)"
proof -
  have "B + S + (d + 1 - 1) - E = D" using assms(1,2) by simp
  moreover have "D * 86400 + H + M + s = q" using assms(3,4) by simp
  ultimately show ?thesis using assms(5) by simp
qed

lemma civil_of_time_correct: "civil_ok (civil_of_time t) \<and> time_of_civil (civil_of_time t) = t"
proof -
  define secs where "secs = t div 1000000000"
  define sod where "sod = secs mod 86400"
  obtain y yd where y: "year_of_day (secs div 86400 + epoch_days) = (y, yd)" by fastforce
  obtain m d where m: "split_month (month_lengths y) 1 yd = (m, d)" by fastforce
  note Y = year_of_day_correct [OF y]
  have M: "1 \<le> m" "m < 13" "sum_list (take (nat (m - 1)) (month_lengths y)) + d = yd" "0 \<le> d"
    "d < daysIn m y"
    using split_month_correct [OF m] Y month_lengths_props [of y] by (auto simp: daysIn_def)
  have c: "civil_of_time t = \<lparr>year = y, month = m, day = d + 1, hour = sod div 3600,
      minute = sod div 60 mod 60, second = sod mod 60, nanos = t mod 1000000000\<rparr>"
    using y m by (simp add: civil_of_time_def Let_def secs_def [symmetric] sod_def [symmetric])
  have sod: "0 \<le> sod" "sod < 86400" by (simp_all add: sod_def)
  have "civil_ok (civil_of_time t)"
    using M sod hour_bounds [of sod] by (simp add: c civil_ok_def)
  moreover have "time_of_civil (civil_of_time t) = t"
  proof -
    have e: "(secs div 86400) * 86400 + sod = secs" "secs * 1000000000 + t mod 1000000000 = t"
      by (simp_all add: secs_def sod_def)
    have "time_of_civil (civil_of_time t) =
        ((days_before_year y + sum_list (take (nat (m - 1)) (month_lengths y)) + (d + 1 - 1)
          - epoch_days) * 86400 + sod div 3600 * 3600 + sod div 60 mod 60 * 60 + sod mod 60)
        * 1000000000 + t mod 1000000000"
      unfolding c time_of_civil_def by (simp only: civil.simps)
    also have "\<dots> = t"
      by (rule assemble [OF Y(1) M(3) clock_split [OF sod] e])
    finally show ?thesis .
  qed
  ultimately show ?thesis ..
qed

section \<open>Reading what was printed\<close>

lemma digit_char_props [simp]: "is_dig (digit_char n)" "dig_val (digit_char n) = n mod 10"
proof -
  have b: "0 \<le> n mod 10" "n mod 10 < 10" by auto
  have "nat (48 + n mod 10) < 256" using b by linarith
  then have o: "(of_char (digit_char n) :: nat) = nat (48 + n mod 10)"
    unfolding digit_char_def of_char_of by (rule mod_less)
  then show "is_dig (digit_char n)" using b by (simp add: is_dig_def nat_le_iff le_nat_iff)
  have "(of_char (digit_char n) :: int) = int (of_char (digit_char n) :: nat)"
    by (simp add: of_char_def)
  then show "dig_val (digit_char n) = n mod 10" using o b by (simp add: dig_val_def)
qed

lemma not_dig [simp]: "\<not> is_dig CHR ''Z''" "is_dig CHR ''0''" "dig_val CHR ''0'' = 0"
  by (simp_all add: is_dig_def dig_val_def)

lemma appendInt_small:
  "0 \<le> x \<Longrightarrow> x < 100 \<Longrightarrow> appendInt x 2 = [digit_char (x div 10), digit_char x]"
  "0 \<le> x \<Longrightarrow> x < 10000 \<Longrightarrow> appendInt x 4 =
     [digit_char (x div 1000), digit_char (x div 100), digit_char (x div 10), digit_char x]"
  by (simp_all add: appendInt_def numeral_eq_Suc div_mult2_eq [symmetric] zdiv_zmult2_eq [symmetric])

lemma two_digits: "0 \<le> (x::int) \<Longrightarrow> x < 100 \<Longrightarrow> 10 * (x div 10 mod 10) + x mod 10 = x"
proof -
  assume x: "0 \<le> x" "x < 100"
  then have "0 \<le> x div 10" "x div 10 < 10"
    using zdiv_mono1 [of x 99 10] by (auto simp: pos_imp_zdiv_nonneg_iff)
  then show ?thesis by simp
qed

lemma dec_val_append: "dec_val (s @ [c]) = 10 * dec_val s + dig_val c"
  by (simp add: dec_val_def)

lemma dec_val_zeros: "dec_val (s @ replicate k CHR ''0'') = dec_val s * 10 ^ k"
proof (induction k)
  case (Suc k)
  have "s @ replicate (Suc k) CHR ''0'' = (s @ replicate k CHR ''0'') @ [CHR ''0'']"
    by (simp add: replicate_append_same)
  then show ?case using Suc by (simp only: dec_val_append) simp
qed simp

lemma fixed_digits_props:
  "length (fixed_digits w n) = w" "\<forall>c \<in> set (fixed_digits w n). is_dig c"
  "0 \<le> n \<Longrightarrow> dec_val (fixed_digits w n) = n mod 10 ^ w"
proof -
  show "length (fixed_digits w n) = w" "\<forall>c \<in> set (fixed_digits w n). is_dig c"
    by (induction w n rule: fixed_digits.induct) auto
  show "0 \<le> n \<Longrightarrow> dec_val (fixed_digits w n) = n mod 10 ^ w"
  proof (induction w n rule: fixed_digits.induct)
    case (1 n)
    then show ?case by (simp add: dec_val_def)
  next
    case (2 w n)
    then have "dec_val (fixed_digits w (n div 10)) = n div 10 mod 10 ^ w"
      by (simp add: pos_imp_zdiv_nonneg_iff)
    then show ?case
      using mod_mult2_eq' [of n 10 "10 ^ w"]
      by (simp add: dec_val_append zmod_zmult2_eq)
  qed
qed

lemma strip_zeros_split: "s = strip_zeros s @ replicate (length s - length (strip_zeros s)) CHR ''0''"
proof -
  let ?z = "takeWhile (\<lambda>c. c = CHR ''0'') (rev s)"
  have z: "?z = replicate (length ?z) CHR ''0''"
    by (rule replicate_eqI) (auto dest: set_takeWhileD)
  have s: "s = strip_zeros s @ rev ?z"
    unfolding strip_zeros_def by (metis rev_append rev_rev_ident takeWhile_dropWhile_id)
  then have "length ?z = length s - length (strip_zeros s)"
    by (metis add_diff_cancel_left' length_append length_rev)
  then show ?thesis using s z by (metis rev_replicate)
qed

lemma get_fraction_fraction:
  assumes "0 \<le> ns" "ns < 1000000000"
  shows "get_fraction (fraction ns @ ''Z'') = (ns, ''Z'')"
proof (cases "ns = 0")
  case True
  then show ?thesis by (simp add: fraction_def get_fraction_def)
next
  case False
  let ?s = "fixed_digits 9 ns"
  let ?t = "strip_zeros ?s"
  have v: "dec_val ?s = ns" using fixed_digits_props(3) [OF assms(1), of 9] assms by simp
  have l: "length ?s = 9" by (rule fixed_digits_props)
  have split: "?s = ?t @ replicate (9 - length ?t) CHR ''0''"
    using strip_zeros_split [of ?s] l by simp
  have le: "length ?t \<le> 9" using arg_cong [OF split, of length] l by simp
  have dig: "\<forall>c \<in> set ?t. is_dig c"
    using fixed_digits_props(2) [of 9 ns] arg_cong [OF split, of set] by auto
  have val: "dec_val ?t * 10 ^ (9 - length ?t) = ns"
    using v dec_val_zeros [of ?t "9 - length ?t"] split by simp
  then have "?t \<noteq> []" using False by (auto simp: dec_val_def)
  then obtain d t where dt: "?t = d # t" by (cases ?t) auto
  have tw: "takeWhile is_dig (?t @ ''Z'') = ?t" "dropWhile is_dig (?t @ ''Z'') = ''Z''"
    using dig by (simp_all add: takeWhile_append dropWhile_append)
  have "is_dig d" using dig dt by simp
  then have "get_fraction (CHR ''.'' # d # (t @ ''Z'')) =
      (let ds = takeWhile is_dig (?t @ ''Z''); k = take 9 ds
       in (dec_val k * 10 ^ (9 - length k), dropWhile is_dig (?t @ ''Z'')))"
    by (simp add: get_fraction_def dt)
  also have "\<dots> = (ns, ''Z'')"
    unfolding tw Let_def using le val by simp
  finally show ?thesis using False by (simp add: fraction_def dt)
qed

lemma month_length_le:
  assumes "1 \<le> m" "m \<le> 12"
  shows "daysIn m y \<le> 31"
proof -
  have "nat (m - 1) < length (month_lengths y)" using assms by (simp add: month_lengths_props)
  from nth_mem [OF this] show ?thesis using month_lengths_props(3) [of y] by (simp add: daysIn_def)
qed

lemma get_year_digits:
  assumes "0 \<le> y" "y < 10000"
  shows "get_year (digit_char (y div 1000) # digit_char (y div 100) # digit_char (y div 10)
      # digit_char y # s) = Some (y, s)"
proof -
  have "[digit_char (y div 1000), digit_char (y div 100), digit_char (y div 10), digit_char y]
      = fixed_digits 4 y"
    using appendInt_small(2) [OF assms] assms by (simp add: appendInt_def)
  then have "dec_val [digit_char (y div 1000), digit_char (y div 100), digit_char (y div 10),
      digit_char y] = y"
    using fixed_digits_props(3) [OF assms(1), of 4] assms by simp
  then show ?thesis by simp
qed

lemma Parse_Format:
  assumes "0 \<le> year (civil_of_time t)" "year (civil_of_time t) \<le> 9999"
  shows "Parse_RFC3339Nano (Format_RFC3339Nano t) = Some t"
proof -
  let ?c = "civil_of_time t"
  have ok: "civil_ok ?c" and t: "time_of_civil ?c = t"
    using civil_of_time_correct [of t] by auto
  note r = ok [unfolded civil_ok_def]
  have d31: "day ?c \<le> 31" using r month_length_le [of "month ?c" "year ?c"] by simp
  have f: "Format_RFC3339Nano t =
      appendInt (year ?c) 4 @ CHR ''-'' # appendInt (month ?c) 2 @ CHR ''-'' # appendInt (day ?c) 2
      @ CHR ''T'' # appendInt (hour ?c) 2 @ CHR '':'' # appendInt (minute ?c) 2
      @ CHR '':'' # appendInt (second ?c) 2 @ fraction (nanos ?c) @ ''Z''"
    by (simp add: Format_RFC3339Nano_def Let_def)
  have date: "Parse_date (Format_RFC3339Nano t) =
      Some (\<lparr>year = year ?c, month = month ?c, day = day ?c, hour = 0, minute = 0, second = 0,
        nanos = 0\<rparr>,
        appendInt (hour ?c) 2 @ CHR '':'' # appendInt (minute ?c) 2
        @ CHR '':'' # appendInt (second ?c) 2 @ fraction (nanos ?c) @ ''Z'')"
    using r d31 assms
    by (simp add: Parse_date_def f appendInt_small get_year_digits two_digits in_range_def
        del: get_year.simps)
  have clock: "Parse_clock \<lparr>year = year ?c, month = month ?c, day = day ?c, hour = 0, minute = 0,
        second = 0, nanos = 0\<rparr>
      (appendInt (hour ?c) 2 @ CHR '':'' # appendInt (minute ?c) 2
        @ CHR '':'' # appendInt (second ?c) 2 @ fraction (nanos ?c) @ ''Z'') = Some (?c, ''Z'')"
    using r get_fraction_fraction [of "nanos ?c"]
    by (simp add: Parse_clock_def appendInt_small two_digits in_range_def)
  show ?thesis
    using r t by (simp add: Parse_RFC3339Nano_def date clock)
qed

lemma digit_char_neq [simp]: "\<not> is_dig c \<Longrightarrow> digit_char n \<noteq> c" "\<not> is_dig c \<Longrightarrow> c \<noteq> digit_char n"
  by (metis digit_char_props(1))+

lemma Format_chars:
  assumes "0 \<le> year (civil_of_time t)" "year (civil_of_time t) \<le> 9999"
    "x \<in> set (Format_RFC3339Nano t)"
  shows "is_dig x \<or> x \<in> set ''-:.TZ''"
proof -
  let ?c = "civil_of_time t"
  have ok: "civil_ok ?c" using civil_of_time_correct [of t] by auto
  note r = ok [unfolded civil_ok_def]
  have d31: "day ?c \<le> 31" using r month_length_le [of "month ?c" "year ?c"] by simp
  have "set (strip_zeros (fixed_digits 9 n)) \<subseteq> set (fixed_digits 9 n)" for n
    by (metis strip_zeros_split set_append Un_upper1)
  then have "y \<in> set (fraction (nanos ?c)) \<Longrightarrow> is_dig y \<or> y = CHR ''.''" for y
    using fixed_digits_props(2) [of 9 "nanos ?c"] by (auto simp: fraction_def split: if_splits)
  then show ?thesis
    using assms r d31 by (auto simp: Format_RFC3339Nano_def Let_def appendInt_small)
qed

end
