(* ===== verification/Go_Base64.thy ===== *)
theory Go_Base64
  imports Domain_Errors
begin

text \<open>
  Go's \<open>encoding/base64\<close>, \<open>StdEncoding\<close>: encoding with padding, and the decoder, which
  ignores carriage returns and line feeds, wants the padding, and does not look at the bits
  left over in the last digit.
\<close>

definition b64_alphabet :: string where
  "b64_alphabet = ''ABCDEFGHIJKLMNOPQRSTUVWXYZabcdefghijklmnopqrstuvwxyz0123456789+/''"

definition b64_char :: "nat \<Rightarrow> char" where
  "b64_char n = b64_alphabet ! (n mod 64)"

fun index_from :: "nat \<Rightarrow> char \<Rightarrow> string \<Rightarrow> nat option" where
  "index_from i c [] = None"
| "index_from i c (x # xs) = (if x = c then Some i else index_from (Suc i) c xs)"

definition b64_val :: "char \<Rightarrow> nat option" where
  "b64_val c = index_from 0 c b64_alphabet"

fun EncodeToString :: "bytes \<Rightarrow> string" where
  "EncodeToString (a # b # c # s) =
     (let v = of_char a * 65536 + of_char b * 256 + of_char c :: nat
      in [b64_char (v div 262144), b64_char (v div 4096), b64_char (v div 64), b64_char v])
     @ EncodeToString s"
| "EncodeToString [a, b] =
     (let v = of_char a * 65536 + of_char b * 256 :: nat
      in [b64_char (v div 262144), b64_char (v div 4096), b64_char (v div 64), CHR ''=''])"
| "EncodeToString [a] =
     (let v = of_char a * 65536 :: nat
      in [b64_char (v div 262144), b64_char (v div 4096), CHR ''='', CHR ''=''])"
| "EncodeToString [] = []"

text \<open>The bytes of a quantum, from the values of its digits.\<close>

definition quantum :: "nat \<Rightarrow> nat \<Rightarrow> nat \<Rightarrow> nat \<Rightarrow> bytes" where
  "quantum x y z w =
     (let v = x * 262144 + y * 4096 + z * 64 + w
      in [char_of (v div 65536), char_of (v div 256), char_of v])"

fun b64_decode :: "string \<Rightarrow> bytes option" where
  "b64_decode [] = Some []"
| "b64_decode (a # b # c # d # s) =
     (case (b64_val a, b64_val b) of
        (Some x, Some y) \<Rightarrow>
          (if c = CHR ''='' then
             (if d = CHR ''='' \<and> s = [] then Some (take 1 (quantum x y 0 0)) else None)
           else
             (case b64_val c of
                None \<Rightarrow> None
              | Some z \<Rightarrow>
                  (if d = CHR ''='' then (if s = [] then Some (take 2 (quantum x y z 0)) else None)
                   else
                     (case (b64_val d, b64_decode s) of
                        (Some w, Some bs) \<Rightarrow> Some (quantum x y z w @ bs)
                      | _ \<Rightarrow> None))))
      | _ \<Rightarrow> None)"
| "b64_decode _ = None"

definition DecodeString :: "string \<Rightarrow> bytes option" where
  "DecodeString s = b64_decode (filter (\<lambda>c. c \<noteq> CHR 0x0A \<and> c \<noteq> CHR 0x0D) s)"

section \<open>Decoding inverts encoding\<close>

lemma b64_table:
  "list_all (\<lambda>n. b64_val (b64_char n) = Some n \<and> b64_char n \<noteq> CHR ''='' \<and>
     b64_char n \<noteq> CHR 0x0A \<and> b64_char n \<noteq> CHR 0x0D) [0..<64]"
  by code_simp

lemma b64_char_props:
  "b64_val (b64_char n) = Some (n mod 64)" "b64_char n \<noteq> CHR ''=''"
  "b64_char n \<noteq> CHR 0x0A" "b64_char n \<noteq> CHR 0x0D"
proof -
  have "n mod 64 \<in> set [0..<64]" by simp
  from b64_table [unfolded list_all_iff, rule_format, OF this]
  show "b64_val (b64_char n) = Some (n mod 64)" "b64_char n \<noteq> CHR ''=''"
    "b64_char n \<noteq> CHR 0x0A" "b64_char n \<noteq> CHR 0x0D"
    by (simp_all add: b64_char_def)
qed

lemma quantum_digits:
  assumes "(v::nat) < 16777216"
  shows "v div 262144 mod 64 * 262144 + v div 4096 mod 64 * 4096 + v div 64 mod 64 * 64 + v mod 64 = v"
proof -
  have "v div 262144 mod 64 = v div 262144" using assms by simp
  moreover have "v div 262144 * 64 + v div 4096 mod 64 = v div 4096"
    using div_mult_mod_eq [of "v div 4096" 64] by (simp add: div_mult2_eq [symmetric])
  moreover have "v div 4096 * 64 + v div 64 mod 64 = v div 64"
    using div_mult_mod_eq [of "v div 64" 64] by (simp add: div_mult2_eq [symmetric])
  moreover have "v div 64 * 64 + v mod 64 = v" by simp
  ultimately show ?thesis by linarith
qed

lemma quantum_encoded:
  assumes "a < 256" "b < 256" "c < 256"
  defines "v \<equiv> a * 65536 + b * 256 + c :: nat"
  shows "quantum (v div 262144 mod 64) (v div 4096 mod 64) (v div 64 mod 64) (v mod 64) =
    [char_of a, char_of b, char_of c]"
proof -
  have "v < 16777216" using assms by simp
  then have q: "quantum (v div 262144 mod 64) (v div 4096 mod 64) (v div 64 mod 64) (v mod 64) =
      [char_of (v div 65536), char_of (v div 256), char_of v]"
    unfolding quantum_def by (simp only: quantum_digits Let_def)
  have "v div 65536 = a" "v div 256 = a * 256 + b"
    using assms unfolding v_def by auto
  moreover have e1: "(a * 256 + b) mod 256 = b"
    using assms by (simp only: mod_mult_self3 mod_less)
  moreover have e2: "v mod 256 = c"
  proof -
    have "v = (a * 256 + b) * 256 + c" unfolding v_def by simp
    then show ?thesis using assms by (simp only: mod_mult_self3 mod_less)
  qed
  moreover have "(char_of (a * 256 + b) :: char) = char_of b" "(char_of v :: char) = char_of c"
    by (metis char_of_mod_256 e1, metis char_of_mod_256 e2)
  ultimately show ?thesis using q by simp
qed

lemma of_char_less_256: "(of_char c :: nat) < 256"
  by (metis of_char_mod_256 mod_less_divisor zero_less_numeral)

lemma b64_decode_encode: "b64_decode (EncodeToString bs) = Some bs"
proof (induction bs rule: EncodeToString.induct)
  case (1 a b c s)
  define v :: nat where "v = of_char a * 65536 + of_char b * 256 + of_char c"
  have "EncodeToString (a # b # c # s) =
      [b64_char (v div 262144), b64_char (v div 4096), b64_char (v div 64), b64_char v] @ EncodeToString s"
    unfolding v_def by (simp only: EncodeToString.simps Let_def)
  moreover have "quantum (v div 262144 mod 64) (v div 4096 mod 64) (v div 64 mod 64) (v mod 64) = [a, b, c]"
    unfolding v_def by (subst quantum_encoded) (simp_all only: of_char_less_256 zero_less_numeral char_of_char)
  ultimately show ?case using 1 by (simp add: b64_char_props v_def del: EncodeToString.simps)
next
  case (2 a b)
  define v :: nat where "v = of_char a * 65536 + of_char b * 256 + 0"
  have e: "EncodeToString [a, b] =
      [b64_char (v div 262144), b64_char (v div 4096), b64_char (v div 64), CHR ''='']"
    unfolding v_def by (simp only: EncodeToString.simps Let_def add_0_right)
  have "quantum (v div 262144 mod 64) (v div 4096 mod 64) (v div 64 mod 64) (v mod 64)
      = [a, b, char_of (0::nat)]"
    unfolding v_def by (subst quantum_encoded) (simp_all only: of_char_less_256 zero_less_numeral char_of_char)
  moreover have "v mod 64 = 0"
  proof -
    have "v = 64 * (of_char a * 1024 + of_char b * 4)" unfolding v_def by simp
    then show ?thesis by (simp only: mod_mult_self1_is_0)
  qed
  ultimately show ?case using e by (simp add: b64_char_props del: EncodeToString.simps)
next
  case (3 a)
  define v :: nat where "v = of_char a * 65536 + 0 * 256 + 0"
  have e: "EncodeToString [a] = [b64_char (v div 262144), b64_char (v div 4096), CHR ''='', CHR ''='']"
    unfolding v_def by (simp only: EncodeToString.simps Let_def mult_0 add_0_right)
  have "quantum (v div 262144 mod 64) (v div 4096 mod 64) (v div 64 mod 64) (v mod 64)
      = [a, char_of (0::nat), char_of (0::nat)]"
    unfolding v_def by (subst quantum_encoded) (simp_all only: of_char_less_256 zero_less_numeral char_of_char)
  moreover have "v mod 64 = 0" "v div 64 mod 64 = 0"
  proof -
    have v: "v = 64 * (64 * (of_char a * 16))" unfolding v_def by simp
    then show "v mod 64 = 0" by (simp only: mod_mult_self1_is_0)
    have "v div 64 = 64 * (of_char a * 16)"
      unfolding v by (rule nonzero_mult_div_cancel_left) simp
    then show "v div 64 mod 64 = 0" by (simp only: mod_mult_self1_is_0)
  qed
  ultimately show ?case using e by (simp add: b64_char_props del: EncodeToString.simps)
qed simp

lemma EncodeToString_no_newline:
  "x \<in> set (EncodeToString bs) \<Longrightarrow> x \<noteq> CHR 0x0A \<and> x \<noteq> CHR 0x0D"
  by (induction bs rule: EncodeToString.induct) (auto simp: Let_def b64_char_props)

lemma DecodeString_EncodeToString: "DecodeString (EncodeToString bs) = Some bs"
proof -
  have "filter (\<lambda>c. c \<noteq> CHR 0x0A \<and> c \<noteq> CHR 0x0D) (EncodeToString bs) = EncodeToString bs"
    using EncodeToString_no_newline by (simp add: filter_id_conv)
  then show ?thesis by (simp add: DecodeString_def b64_decode_encode)
qed

end
