(* ===== verification/Pagination.thy ===== *)
theory Pagination
  imports Go_Time Go_Base64 Entities "HOL-Library.Product_Lexorder"
begin

text \<open>
  \<open>internal/domain/ports/output/pagination.go\<close>: the page query with its bounds, and the opaque
  cursor that a page hands to the next request.

  \<open>github.com/google/uuid\<close> is third-party code: its \<open>String\<close> and \<open>Parse\<close> are the parameters
  \<open>uuid_String\<close> and \<open>uuid_Parse\<close>. The texts of the standard library's own errors are the
  parameters \<open>b64_err\<close> and \<open>time_err\<close>.
\<close>

definition DefaultPageSize :: int where
  "DefaultPageSize = 50"

definition MaxPageSize :: int where
  "MaxPageSize = 200"

record PageCursor =
  pc_CreatedAt :: time
  pc_ID :: uuid

record PageQuery =
  pq_Limit :: int
  pq_Cursor :: "PageCursor option"

record 'a Page =
  pg_Items :: "'a list"
  pg_NextCursor :: string
  pg_Count :: int

definition EncodeCursor :: "(uuid \<Rightarrow> string) \<Rightarrow> time \<Rightarrow> uuid \<Rightarrow> string" where
  "EncodeCursor uuid_String t uid =
     EncodeToString (Format_RFC3339Nano t @ ''|'' @ uuid_String uid)"

definition DecodeCursor ::
  "(string \<Rightarrow> goerr + uuid) \<Rightarrow> (string \<Rightarrow> goerr) \<Rightarrow> (string \<Rightarrow> goerr) \<Rightarrow> string
   \<Rightarrow> goerr + PageCursor" where
  "DecodeCursor uuid_Parse b64_err time_err s =
     (case DecodeString s of
        None \<Rightarrow> Inl (Errorf_w ''invalid cursor encoding'' (b64_err s))
      | Some b \<Rightarrow>
          (case SplitN2 b CHR ''|'' of
             [p0, p1] \<Rightarrow>
               (case Parse_RFC3339Nano p0 of
                  None \<Rightarrow> Inl (Errorf_w ''invalid cursor timestamp'' (time_err p0))
                | Some t \<Rightarrow>
                    (case uuid_Parse p1 of
                       Inl err \<Rightarrow> Inl (Errorf_w ''invalid cursor uuid'' err)
                     | Inr uid \<Rightarrow> Inr \<lparr>pc_CreatedAt = t, pc_ID = uid\<rparr>))
           | _ \<Rightarrow> Inl (TextError ''invalid cursor format'')))"

definition NormalizePageQuery :: "PageQuery \<Rightarrow> PageQuery" where
  "NormalizePageQuery q =
     (let q = (if pq_Limit q \<le> 0 then q\<lparr>pq_Limit := DefaultPageSize\<rparr> else q)
      in if MaxPageSize < pq_Limit q then q\<lparr>pq_Limit := MaxPageSize\<rparr> else q)"

section \<open>Lemmas\<close>

definition printable_time :: "time \<Rightarrow> bool" where
  "printable_time t \<longleftrightarrow> 0 \<le> year (civil_of_time t) \<and> year (civil_of_time t) \<le> 9999"

lemma NormalizePageQuery_bounds [bound]:
  "1 \<le> pq_Limit (NormalizePageQuery q)" "pq_Limit (NormalizePageQuery q) \<le> 200"
  by (auto simp: NormalizePageQuery_def DefaultPageSize_def MaxPageSize_def)

lemma NormalizePageQuery_cursor [simp]: "pq_Cursor (NormalizePageQuery q) = pq_Cursor q"
  by (simp add: NormalizePageQuery_def Let_def)

lemma NormalizePageQuery_idem [simp]:
  "1 \<le> pq_Limit q \<Longrightarrow> pq_Limit q \<le> 200 \<Longrightarrow> NormalizePageQuery q = q"
  by (simp add: NormalizePageQuery_def DefaultPageSize_def MaxPageSize_def)

lemma EncodeCursor_nonempty: "EncodeCursor us t uid \<noteq> []"
proof
  assume "EncodeCursor us t uid = []"
  then have "DecodeString [] = Some (Format_RFC3339Nano t @ ''|'' @ us uid)"
    by (metis EncodeCursor_def DecodeString_EncodeToString)
  then show False by (simp add: DecodeString_def)
qed

lemma Decode_Encode:
  assumes "printable_time t" "uuid_Parse (uuid_String uid) = Inr uid"
  shows "DecodeCursor uuid_Parse be te (EncodeCursor uuid_String t uid) = Inr \<lparr>pc_CreatedAt = t, pc_ID = uid\<rparr>"
proof -
  have "\<not> is_dig CHR ''|''" by (simp add: is_dig_def)
  then have "CHR ''|'' \<notin> set (Format_RFC3339Nano t)"
    using Format_chars [of t "CHR ''|''"] assms(1) by (auto simp: printable_time_def)
  then have "SplitN2 (Format_RFC3339Nano t @ ''|'' @ uuid_String uid) CHR ''|'' =
      [Format_RFC3339Nano t, uuid_String uid]"
    by (simp add: SplitN2_append)
  then show ?thesis
    using assms Parse_Format [of t]
    by (simp add: DecodeCursor_def EncodeCursor_def DecodeString_EncodeToString printable_time_def)
qed

text \<open>A pair of functions with the law the round trip asks of \<open>uuid\<close>, for the examples.\<close>

definition plain_uuid :: "uuid \<Rightarrow> string" where
  "plain_uuid u = fixed_digits 39 (uint u)"

definition read_plain_uuid :: "string \<Rightarrow> goerr + uuid" where
  "read_plain_uuid s =
     (if length s = 39 then Inr (word_of_int (dec_val s))
      else Inl (TextError ''invalid UUID length''))"

lemma read_plain_uuid_plain_uuid [simp]: "read_plain_uuid (plain_uuid u) = Inr u"
proof -
  have "uint u < 2 ^ 128" using uint_lt2p [of u] by simp
  then have "uint u mod 10 ^ 39 = uint u" by simp
  then show ?thesis
    using fixed_digits_props(1) [of 39 "uint u"] fixed_digits_props(3) [of "uint u" 39]
    by (simp add: read_plain_uuid_def plain_uuid_def)
qed

section \<open>Properties\<close>

text \<open>
  C33. A cursor handed out is understood when it comes back: decoding an encoded position gives
  the same instant, to the nanosecond, and the same id, for every instant whose year has four
  digits, provided the UUID text reads back.
\<close>

theorem cursor_round_trip:
  assumes "printable_time t" "uuid_Parse (uuid_String uid) = Inr uid"
  shows "DecodeCursor uuid_Parse b64_err time_err (EncodeCursor uuid_String t uid) =
    Inr \<lparr>pc_CreatedAt = t, pc_ID = uid\<rparr>"
  using assms by (rule Decode_Encode)

theorem cursor_round_trip_witness:
  "DecodeCursor read_plain_uuid TextError TextError (EncodeCursor plain_uuid 1772713905123450000 7) =
    Inr \<lparr>pc_CreatedAt = 1772713905123450000, pc_ID = 7\<rparr>"
proof (rule cursor_round_trip)
  show "printable_time 1772713905123450000"
    unfolding printable_time_def by code_simp
qed simp

end
