(* ===== verification/Repositories.thy ===== *)
theory Repositories
  imports Pagination
begin

text \<open>
  \<open>internal/infrastructure/adapters/repositories\<close>: the gorm repositories of events, plants,
  plant status, examples and alert rules, over tables given as lists of rows.

  Every operation takes \<open>fault\<close>, the error of the database for this call if it has one;
  without a fault the SQL statement the source builds is carried out on the table. An
  \<open>INSERT \<dots> ON CONFLICT DO NOTHING\<close> keeps the row that has the key already. gorm fills a zero
  id with the database's \<open>gen_random_uuid()\<close> (the parameter \<open>fresh\<close>) and a zero
  \<open>CreatedAt\<close> or \<open>UpdatedAt\<close> with the clock (\<open>now\<close>). Rows of \<open>master.energy_plants\<close>
  with a \<open>deleted_at\<close> are invisible, as gorm's soft delete has it.
\<close>

section \<open>Operational events\<close>

definition filled :: "time \<Rightarrow> uuid \<Rightarrow> EventOperationalModel \<Rightarrow> EventOperationalModel" where
  "filled now fresh m =
     m\<lparr>opm_ID := (if opm_ID m = 0 then fresh else opm_ID m),
       opm_CreatedAt := (if opm_CreatedAt m = zero_time then now else opm_CreatedAt m)\<rparr>"

definition insert_operational ::
  "EventOperationalModel \<Rightarrow> EventOperationalModel list \<Rightarrow> EventOperationalModel list" where
  "insert_operational m tbl = (if opm_ID m \<in> opm_ID ` set tbl then tbl else tbl @ [m])"

definition Create_operational ::
  "goerr option \<Rightarrow> time \<Rightarrow> uuid \<Rightarrow> EventOperational \<Rightarrow> EventOperationalModel list
   \<Rightarrow> (goerr + EventOperational) \<times> EventOperationalModel list" where
  "Create_operational fault now fresh entity tbl =
     (let model = filled now fresh (ToEventOperationalModel entity)
      in case fault of
           Some err \<Rightarrow> (Inl err, tbl)
         | None \<Rightarrow> (Inr (ToEventOperationalEntity model), insert_operational model tbl))"

text \<open>\<open>ORDER BY created_at DESC, id DESC\<close>\<close>

definition newest_first :: "EventOperationalModel list \<Rightarrow> EventOperationalModel list" where
  "newest_first rows = rev (sort_key (\<lambda>m. (opm_CreatedAt m, opm_ID m)) rows)"

definition before_cursor :: "PageCursor option \<Rightarrow> EventOperationalModel \<Rightarrow> bool" where
  "before_cursor cur m \<longleftrightarrow>
     (case cur of
        None \<Rightarrow> True
      | Some c \<Rightarrow> opm_CreatedAt m < pc_CreatedAt c
          \<or> opm_CreatedAt m = pc_CreatedAt c \<and> opm_ID m < pc_ID c)"

text \<open>The part the two paged queries share, after the \<open>WHERE\<close> and \<open>ORDER BY\<close> clauses.\<close>

definition page_of ::
  "(uuid \<Rightarrow> string) \<Rightarrow> PageQuery \<Rightarrow> EventOperationalModel list \<Rightarrow> EventOperational Page" where
  "page_of uuid_String q ordered =
     (let models = take (nat (pq_Limit q + 1)) ordered;
          hasMore = pq_Limit q < int (length models);
          models = (if hasMore then take (nat (pq_Limit q)) models else models);
          items = map ToEventOperationalEntity models
      in \<lparr>pg_Items = items,
          pg_NextCursor =
            (if hasMore \<and> models \<noteq> []
             then EncodeCursor uuid_String (opm_CreatedAt (last models)) (opm_ID (last models)) else []),
          pg_Count = int (length items)\<rparr>)"

definition FindAll_operational ::
  "(uuid \<Rightarrow> string) \<Rightarrow> goerr option \<Rightarrow> EventOperationalModel list \<Rightarrow> PageQuery
   \<Rightarrow> goerr + EventOperational Page" where
  "FindAll_operational uuid_String fault tbl q =
     (let q = NormalizePageQuery q
      in case fault of
           Some err \<Rightarrow> Inl err
         | None \<Rightarrow> Inr (page_of uuid_String q (newest_first (filter (before_cursor (pq_Cursor q)) tbl))))"

definition FindByEventType ::
  "(uuid \<Rightarrow> string) \<Rightarrow> goerr option \<Rightarrow> EventOperationalModel list \<Rightarrow> string \<Rightarrow> PageQuery
   \<Rightarrow> goerr + EventOperational Page" where
  "FindByEventType uuid_String fault tbl eventType q =
     (let q = NormalizePageQuery q
      in case fault of
           Some err \<Rightarrow> Inl err
         | None \<Rightarrow>
             Inr (page_of uuid_String q
                    (newest_first (filter (before_cursor (pq_Cursor q))
                       (filter (\<lambda>m. opm_EventType m = eventType) tbl)))))"

definition FindByID_operational ::
  "goerr option \<Rightarrow> EventOperationalModel list \<Rightarrow> uuid \<Rightarrow> goerr + EventOperational" where
  "FindByID_operational fault tbl uid =
     (case fault of
        Some err \<Rightarrow> (if Is err ErrRecordNotFound then Inl ErrNotFound else Inl err)
      | None \<Rightarrow>
          (case filter (\<lambda>m. opm_ID m = uid) tbl of
             [] \<Rightarrow> Inl ErrNotFound
           | m # _ \<Rightarrow> Inr (ToEventOperationalEntity m)))"

section \<open>Analytical events\<close>

definition insert_analytical ::
  "EventAnalyticalModel \<Rightarrow> EventAnalyticalModel list \<Rightarrow> EventAnalyticalModel list" where
  "insert_analytical m tbl =
     (if (anm_CreatedAt m, anm_ID m) \<in> (\<lambda>r. (anm_CreatedAt r, anm_ID r)) ` set tbl
      then tbl else tbl @ [m])"

definition Create_analytical ::
  "goerr option \<Rightarrow> time \<Rightarrow> uuid \<Rightarrow> EventAnalytical \<Rightarrow> EventAnalyticalModel list
   \<Rightarrow> (goerr + EventAnalytical) \<times> EventAnalyticalModel list" where
  "Create_analytical fault now fresh entity tbl =
     (let m = ToEventAnalyticalModel entity;
          model = m\<lparr>anm_ID := (if anm_ID m = 0 then fresh else anm_ID m),
                    anm_CreatedAt := (if anm_CreatedAt m = zero_time then now else anm_CreatedAt m)\<rparr>
      in case fault of
           Some err \<Rightarrow> (Inl err, tbl)
         | None \<Rightarrow> (Inr (ToEventAnalyticalEntity model), insert_analytical model tbl))"

definition FindByTimeRange ::
  "goerr option \<Rightarrow> EventAnalyticalModel list \<Rightarrow> time \<Rightarrow> time \<Rightarrow> goerr + EventAnalytical list" where
  "FindByTimeRange fault tbl start stop =
     (case fault of
        Some err \<Rightarrow> Inl err
      | None \<Rightarrow>
          Inr (map ToEventAnalyticalEntity
                 (rev (sort_key anm_CreatedAt
                    (filter (\<lambda>m. start \<le> anm_CreatedAt m \<and> anm_CreatedAt m \<le> stop) tbl)))))"

record AggregatedEvent =
  ag_Bucket :: time
  ag_PlantSourceId :: uuid
  ag_EventType :: string
  ag_EventCount :: int

text \<open>
  \<open>time_bucket(width, created_at)\<close> of TimescaleDB: widths of an hour or a day are aligned with
  midnight, so with the Unix epoch as well.
\<close>

definition time_bucket :: "duration \<Rightarrow> time \<Rightarrow> time" where
  "time_bucket width t = t - t mod width"

text \<open>
  The statement of \<open>GetHourlyAggregation\<close> and \<open>GetDailyAggregation\<close>: one row per bucket and
  event type of the plant, newest bucket first.
\<close>

definition aggregate :: "duration \<Rightarrow> EventAnalyticalModel list \<Rightarrow> AggregatedEvent list" where
  "aggregate width rows =
     (let keys = remdups (map (\<lambda>m. (time_bucket width (anm_CreatedAt m), anm_PlantSourceId m,
                                   anm_EventType m)) rows)
      in rev (sort_key ag_Bucket
           (map (\<lambda>(b, p, e). \<lparr>ag_Bucket = b, ag_PlantSourceId = p, ag_EventType = e,
              ag_EventCount = int (length (filter (\<lambda>m. time_bucket width (anm_CreatedAt m) = b
                \<and> anm_PlantSourceId m = p \<and> anm_EventType m = e) rows))\<rparr>) keys)))"

definition in_window :: "uuid \<Rightarrow> time \<Rightarrow> time \<Rightarrow> EventAnalyticalModel \<Rightarrow> bool" where
  "in_window plantId start stop m \<longleftrightarrow>
     anm_PlantSourceId m = plantId \<and> start \<le> anm_CreatedAt m \<and> anm_CreatedAt m \<le> stop"

definition GetHourlyAggregation ::
  "goerr option \<Rightarrow> EventAnalyticalModel list \<Rightarrow> uuid \<Rightarrow> time \<Rightarrow> time
   \<Rightarrow> goerr + AggregatedEvent list" where
  "GetHourlyAggregation fault tbl plantId start stop =
     (case fault of
        Some err \<Rightarrow> Inl err
      | None \<Rightarrow> Inr (aggregate (3600 * Second) (filter (in_window plantId start stop) tbl)))"

definition GetDailyAggregation ::
  "goerr option \<Rightarrow> EventAnalyticalModel list \<Rightarrow> uuid \<Rightarrow> time \<Rightarrow> time
   \<Rightarrow> goerr + AggregatedEvent list" where
  "GetDailyAggregation fault tbl plantId start stop =
     (case fault of
        Some err \<Rightarrow> Inl err
      | None \<Rightarrow> Inr (aggregate (86400 * Second) (filter (in_window plantId start stop) tbl)))"

section \<open>Energy plants\<close>

text \<open>
  The cache is \<open>hashicorp/golang-lru\<close>, third-party code: a state \<^typ>\<open>'c\<close> with the parameters
  \<open>Get\<close> (which may reorder the entries) and \<open>Add\<close>; \<^const>\<open>None\<close> is the nil cache of a failed
  constructor.
\<close>

definition FindByID_plant ::
  "goerr option \<Rightarrow> EnergyPlantsModel list \<Rightarrow> uuid \<Rightarrow> goerr + EnergyPlants" where
  "FindByID_plant fault tbl uid =
     (case fault of
        Some err \<Rightarrow> (if Is err ErrRecordNotFound then Inl ErrNotFound else Inl err)
      | None \<Rightarrow>
          (case filter (\<lambda>m. epm_ID m = uid \<and> epm_DeletedAt m = None) tbl of
             [] \<Rightarrow> Inl ErrNotFound
           | m # _ \<Rightarrow> Inr (ToEnergyPlantsEntity m)))"

definition plant_count :: "EnergyPlantsModel list \<Rightarrow> uuid \<Rightarrow> nat" where
  "plant_count tbl uid = length (filter (\<lambda>m. epm_ID m = uid \<and> epm_DeletedAt m = None) tbl)"

definition Exists_plant ::
  "('c \<Rightarrow> uuid \<Rightarrow> bool option \<times> 'c) \<Rightarrow> ('c \<Rightarrow> uuid \<Rightarrow> bool \<Rightarrow> 'c) \<Rightarrow> goerr option
   \<Rightarrow> EnergyPlantsModel list \<Rightarrow> 'c option \<Rightarrow> uuid \<Rightarrow> (goerr + bool) \<times> 'c option" where
  "Exists_plant Get Add fault tbl cache uid =
     (let (hit, cache) =
            (case cache of
               None \<Rightarrow> (None, None)
             | Some c \<Rightarrow> (let (h, c) = Get c uid in (h, Some c)))
      in case hit of
           Some exists \<Rightarrow> (Inr exists, cache)
         | None \<Rightarrow>
             (case fault of
                Some err \<Rightarrow> (Inl err, cache)
              | None \<Rightarrow>
                  (let exists = 0 < plant_count tbl uid
                   in (Inr exists,
                       case cache of None \<Rightarrow> None | Some c \<Rightarrow> Some (Add c uid exists)))))"

section \<open>Plant status\<close>

definition upsert_status ::
  "PlantCurrentStatusModel \<Rightarrow> PlantCurrentStatusModel list \<Rightarrow> PlantCurrentStatusModel list" where
  "upsert_status m tbl =
     (if psm_PlantID m \<in> psm_PlantID ` set tbl
      then map (\<lambda>r. if psm_PlantID r = psm_PlantID m
                     then r\<lparr>psm_LastEventData := psm_LastEventData m,
                            psm_CurrentStatus := psm_CurrentStatus m,
                            psm_LastEventType := psm_LastEventType m,
                            psm_LastEventAt := psm_LastEventAt m,
                            psm_UpdatedAt := psm_UpdatedAt m\<rparr>
                     else r) tbl
      else tbl @ [m])"

definition Upsert_status ::
  "goerr option \<Rightarrow> time \<Rightarrow> PlantCurrentStatus \<Rightarrow> PlantCurrentStatusModel list
   \<Rightarrow> goerr option \<times> PlantCurrentStatusModel list" where
  "Upsert_status fault now status tbl =
     (let m = ToPlantCurrentStatusModel status;
          model = m\<lparr>psm_UpdatedAt := (if psm_UpdatedAt m = zero_time then now else psm_UpdatedAt m)\<rparr>
      in case fault of
           Some err \<Rightarrow> (Some (Errorf_w ''failed to upsert plant status'' err), tbl)
         | None \<Rightarrow> (None, upsert_status model tbl))"

definition GetByPlantID ::
  "goerr option \<Rightarrow> PlantCurrentStatusModel list \<Rightarrow> uuid \<Rightarrow> goerr + PlantCurrentStatus option" where
  "GetByPlantID fault tbl plantID =
     (case fault of
        Some err \<Rightarrow>
          (if err = ErrRecordNotFound then Inr None
           else Inl (Errorf_w ''failed to get plant status'' err))
      | None \<Rightarrow>
          (case filter (\<lambda>m. psm_PlantID m = plantID) tbl of
             [] \<Rightarrow> Inr None
           | m # _ \<Rightarrow> Inr (Some (ToPlantCurrentStatusEntity m))))"

definition GetAll_status ::
  "goerr option \<Rightarrow> PlantCurrentStatusModel list \<Rightarrow> goerr + PlantCurrentStatus list" where
  "GetAll_status fault tbl =
     (case fault of
        Some err \<Rightarrow> Inl (Errorf_w ''failed to get all plant statuses'' err)
      | None \<Rightarrow> Inr (map ToPlantCurrentStatusEntity (rev (sort_key psm_UpdatedAt tbl))))"

definition GetByStatus ::
  "goerr option \<Rightarrow> PlantCurrentStatusModel list \<Rightarrow> string \<Rightarrow> goerr + PlantCurrentStatus list" where
  "GetByStatus fault tbl status =
     (case fault of
        Some err \<Rightarrow> Inl (Errorf_w ''failed to get plants by status'' err)
      | None \<Rightarrow>
          Inr (map ToPlantCurrentStatusEntity
                 (rev (sort_key psm_UpdatedAt (filter (\<lambda>m. psm_CurrentStatus m = status) tbl)))))"

section \<open>Alert rules\<close>

definition FindActive :: "goerr option \<Rightarrow> AlertRuleModel list \<Rightarrow> goerr + AlertRule list" where
  "FindActive fault tbl =
     (case fault of
        Some err \<Rightarrow> Inl err
      | None \<Rightarrow> Inr (map ToAlertRuleFromModel (filter arm_Active tbl)))"

section \<open>Examples\<close>

definition FindByID_example :: "goerr option \<Rightarrow> ExampleModel list \<Rightarrow> uuid \<Rightarrow> goerr + ExampleEntity" where
  "FindByID_example fault tbl uid =
     (case fault of
        Some err \<Rightarrow> (if Is err ErrRecordNotFound then Inl ErrNotFound else Inl err)
      | None \<Rightarrow>
          (case filter (\<lambda>m. exm_ID m = uid) tbl of
             [] \<Rightarrow> Inl ErrNotFound
           | m # _ \<Rightarrow> Inr (ToExampleEntity m)))"

definition FindAll_example :: "goerr option \<Rightarrow> ExampleModel list \<Rightarrow> goerr + ExampleEntity list" where
  "FindAll_example fault tbl =
     (case fault of Some err \<Rightarrow> Inl err | None \<Rightarrow> Inr (map ToExampleEntity tbl))"

text \<open>\<open>dup\<close> is the database's error for a primary key that is taken.\<close>

definition Create_example ::
  "goerr option \<Rightarrow> goerr \<Rightarrow> time \<Rightarrow> uuid \<Rightarrow> ExampleEntity \<Rightarrow> ExampleModel list
   \<Rightarrow> (goerr + ExampleEntity) \<times> ExampleModel list" where
  "Create_example fault dup now fresh entity tbl =
     (let m = ToExampleModel entity;
          model = m\<lparr>exm_ID := (if exm_ID m = 0 then fresh else exm_ID m),
                    exm_CreatedAt := (if exm_CreatedAt m = zero_time then now else exm_CreatedAt m),
                    exm_UpdatedAt := (if exm_UpdatedAt m = zero_time then now else exm_UpdatedAt m)\<rparr>
      in case fault of
           Some err \<Rightarrow> (Inl err, tbl)
         | None \<Rightarrow>
             (if exm_ID model \<in> exm_ID ` set tbl then (Inl dup, tbl)
              else (Inr (ToExampleEntity model), tbl @ [model])))"

text \<open>
  gorm's \<open>Save\<close>: with a zero id an insert; otherwise an update of every column with
  \<open>updated_at\<close> set to the clock, and an insert when no row has the id.
\<close>

definition Update_example ::
  "goerr option \<Rightarrow> time \<Rightarrow> uuid \<Rightarrow> ExampleEntity \<Rightarrow> ExampleModel list
   \<Rightarrow> (goerr + ExampleEntity) \<times> ExampleModel list" where
  "Update_example fault now fresh entity tbl =
     (let m = ToExampleModel entity;
          model = m\<lparr>exm_ID := (if exm_ID m = 0 then fresh else exm_ID m),
                    exm_CreatedAt := (if exm_CreatedAt m = zero_time \<and> exm_ID m \<notin> exm_ID ` set tbl
                                      then now else exm_CreatedAt m),
                    exm_UpdatedAt := now\<rparr>
      in case fault of
           Some err \<Rightarrow> (Inl err, tbl)
         | None \<Rightarrow>
             (Inr (ToExampleEntity model),
              if exm_ID model \<in> exm_ID ` set tbl
              then map (\<lambda>r. if exm_ID r = exm_ID model then model else r) tbl
              else tbl @ [model]))"

definition Delete_example ::
  "goerr option \<Rightarrow> uuid \<Rightarrow> ExampleModel list \<Rightarrow> goerr option \<times> ExampleModel list" where
  "Delete_example fault uid tbl =
     (case fault of
        Some err \<Rightarrow> (Some err, tbl)
      | None \<Rightarrow> (None, filter (\<lambda>m. exm_ID m \<noteq> uid) tbl))"

section \<open>Contracts of the stores\<close>

text \<open>A store that keeps the first entry of a key: \<open>ON CONFLICT DO NOTHING\<close>.\<close>

locale first_wins =
  fixes put :: "'e \<Rightarrow> 's \<Rightarrow> 's"
    and get :: "'k \<Rightarrow> 's \<Rightarrow> 'e option"
    and key :: "'e \<Rightarrow> 'k"
  assumes get_put: "get k (put e s) =
    (case get k s of Some x \<Rightarrow> Some x | None \<Rightarrow> if key e = k then Some e else None)"
begin

lemma get_fold:
  "get k (fold put es s) =
    (case get k s of Some x \<Rightarrow> Some x | None \<Rightarrow> List.find (\<lambda>e. key e = k) es)"
  by (induction es arbitrary: s) (auto simp: get_put split: option.splits)

lemma redelivery: "get k (fold put (es @ es) s) = get k (fold put es s)"
  by (auto simp: get_fold split: option.splits)

lemma get_fold_in:
  assumes "e \<in> set es"
  shows "get (key e) (fold put es s) \<noteq> None"
proof -
  have "List.find (\<lambda>x. key x = key e) es \<noteq> None"
    using assms by (auto simp: find_None_iff simp del: not_None_eq)
  then show ?thesis by (auto simp: get_fold split: option.splits)
qed

lemma kept: "get k s = Some x \<Longrightarrow> get k (fold put es s) = Some x"
  by (simp add: get_fold)

end

text \<open>A store that keeps the last entry of a key: \<open>ON CONFLICT DO UPDATE\<close>.\<close>

locale last_wins =
  fixes put :: "'e \<Rightarrow> 's \<Rightarrow> 's"
    and get :: "'k \<Rightarrow> 's \<Rightarrow> 'e option"
    and key :: "'e \<Rightarrow> 'k"
  assumes get_put: "get k (put e s) = (if key e = k then Some e else get k s)"
begin

lemma get_fold:
  "get k (fold put es s) =
    (case filter (\<lambda>e. key e = k) es of [] \<Rightarrow> get k s | x # xs \<Rightarrow> Some (last (x # xs)))"
  by (induction es arbitrary: s) (auto simp: get_put split: list.splits)

end

definition get_operational :: "uuid \<Rightarrow> EventOperationalModel list \<Rightarrow> EventOperationalModel option" where
  "get_operational k tbl = List.find (\<lambda>m. opm_ID m = k) tbl"

definition get_analytical ::
  "time \<times> uuid \<Rightarrow> EventAnalyticalModel list \<Rightarrow> EventAnalyticalModel option" where
  "get_analytical k tbl = List.find (\<lambda>m. (anm_CreatedAt m, anm_ID m) = k) tbl"

definition get_status :: "uuid \<Rightarrow> PlantCurrentStatusModel list \<Rightarrow> PlantCurrentStatusModel option" where
  "get_status k tbl = List.find (\<lambda>m. psm_PlantID m = k) tbl"

lemma find_append:
  "List.find P (xs @ ys) = (case List.find P xs of Some x \<Rightarrow> Some x | None \<Rightarrow> List.find P ys)"
  by (induction xs) auto

lemma find_None_key: "List.find (\<lambda>m. f m = k) tbl = None \<longleftrightarrow> k \<notin> f ` set tbl"
  by (auto simp: find_None_iff)

interpretation op_store: first_wins insert_operational get_operational opm_ID
proof
  fix k e and s :: "EventOperationalModel list"
  have "List.find (\<lambda>m. opm_ID m = k) s = None \<longleftrightarrow> k \<notin> opm_ID ` set s" by (rule find_None_key)
  then show "get_operational k (insert_operational e s) =
      (case get_operational k s of Some x \<Rightarrow> Some x | None \<Rightarrow> if opm_ID e = k then Some e else None)"
    by (auto simp: get_operational_def insert_operational_def find_append split: option.splits)
qed

interpretation an_store: first_wins insert_analytical get_analytical "\<lambda>m. (anm_CreatedAt m, anm_ID m)"
proof
  fix k e and s :: "EventAnalyticalModel list"
  have "List.find (\<lambda>m. (anm_CreatedAt m, anm_ID m) = k) s = None
      \<longleftrightarrow> k \<notin> (\<lambda>m. (anm_CreatedAt m, anm_ID m)) ` set s" by (rule find_None_key)
  then show "get_analytical k (insert_analytical e s) =
      (case get_analytical k s of Some x \<Rightarrow> Some x
       | None \<Rightarrow> if (anm_CreatedAt e, anm_ID e) = k then Some e else None)"
    by (auto simp: get_analytical_def insert_analytical_def find_append split: option.splits)
qed

lemma status_update_whole:
  "psm_PlantID r = psm_PlantID m \<Longrightarrow>
    r\<lparr>psm_LastEventData := psm_LastEventData m, psm_CurrentStatus := psm_CurrentStatus m,
      psm_LastEventType := psm_LastEventType m, psm_LastEventAt := psm_LastEventAt m,
      psm_UpdatedAt := psm_UpdatedAt m\<rparr> = (m :: PlantCurrentStatusModel)"
  by simp

lemma find_key: "List.find (\<lambda>m. f m = k) tbl = Some r \<Longrightarrow> f r = k"
  by (induction tbl) (auto split: if_splits)

lemma find_map_key:
  "(\<And>r. f (g r) = f r) \<Longrightarrow>
    List.find (\<lambda>m. f m = k) (map g tbl) = map_option g (List.find (\<lambda>m. f m = k) tbl)"
  by (induction tbl) auto

interpretation status_store: last_wins upsert_status get_status psm_PlantID
proof
  fix k e and s :: "PlantCurrentStatusModel list"
  have "List.find (\<lambda>m. psm_PlantID m = k) s = None \<longleftrightarrow> k \<notin> psm_PlantID ` set s"
    by (rule find_None_key)
  then show "get_status k (upsert_status e s) = (if psm_PlantID e = k then Some e else get_status k s)"
    by (auto simp: get_status_def upsert_status_def find_append find_map_key status_update_whole
        split: option.splits dest: find_key)
qed

section \<open>Pages\<close>

definition op_key :: "EventOperationalModel \<Rightarrow> time \<times> uuid" where
  "op_key m = (opm_CreatedAt m, opm_ID m)"

definition descending :: "EventOperationalModel list \<Rightarrow> bool" where
  "descending ys \<longleftrightarrow> sorted_wrt (\<lambda>a b. op_key b < op_key a) ys"

lemma newest_first_descending:
  assumes "distinct (map opm_ID rows)"
  shows "descending (newest_first rows)"
proof -
  have "distinct (map op_key rows)"
    using assms by (auto simp: distinct_map op_key_def inj_on_def)
  then have "distinct (map op_key (sort_key op_key rows))"
    by (simp add: distinct_map)
  then have "sorted_wrt (<) (map op_key (sort_key op_key rows))"
    by (simp add: strict_sorted_iff)
  then show ?thesis
    by (simp add: descending_def newest_first_def op_key_def [abs_def] sorted_wrt_rev sorted_wrt_map)
qed

lemma newest_first_filter: "newest_first (filter P rows) = filter P (newest_first rows)"
  by (simp add: newest_first_def filter_sort [symmetric] rev_filter)

lemma mset_newest_first [simp]: "mset (newest_first rows) = mset rows"
  by (simp add: newest_first_def)

lemma before_cursor_iff:
  "before_cursor (Some \<lparr>pc_CreatedAt = opm_CreatedAt l, pc_ID = opm_ID l\<rparr>) m \<longleftrightarrow> op_key m < op_key l"
  by (auto simp: before_cursor_def op_key_def less_prod_def)

lemma filter_after:
  assumes "descending (as @ l # bs)"
  shows "filter (before_cursor (Some \<lparr>pc_CreatedAt = opm_CreatedAt l, pc_ID = opm_ID l\<rparr>)) (as @ l # bs)
    = bs"
  using assms
  by (auto simp: before_cursor_iff descending_def sorted_wrt_append filter_empty_conv filter_id_conv
      dest: order.strict_trans order.asym)

text \<open>
  A client that follows \<open>next_cursor\<close> until it is empty: \<^const>\<open>None\<close> where a request or the
  decoding of a cursor fails, or the fuel is used up.
\<close>

fun follow_pages ::
  "(PageQuery \<Rightarrow> goerr + EventOperational Page) \<Rightarrow> (string \<Rightarrow> goerr + PageCursor) \<Rightarrow> nat \<Rightarrow> PageQuery
   \<Rightarrow> EventOperational list list option" where
  "follow_pages query decode 0 q = None"
| "follow_pages query decode (Suc n) q =
     (case query q of
        Inl err \<Rightarrow> None
      | Inr p \<Rightarrow>
          (if pg_NextCursor p = [] then Some [pg_Items p]
           else
             (case decode (pg_NextCursor p) of
                Inl err \<Rightarrow> None
              | Inr c \<Rightarrow>
                  map_option ((#) (pg_Items p))
                    (follow_pages query decode n (q\<lparr>pq_Cursor := Some c\<rparr>)))))"

lemma page_of_last:
  "int (length xs) \<le> pq_Limit q \<Longrightarrow> page_of us q xs =
    \<lparr>pg_Items = map ToEventOperationalEntity xs, pg_NextCursor = [], pg_Count = int (length xs)\<rparr>"
  by (simp add: page_of_def)

lemma page_of_more:
  assumes "1 \<le> pq_Limit q" "pq_Limit q < int (length xs)"
  shows "page_of us q xs =
    (let ms = take (nat (pq_Limit q)) xs
     in \<lparr>pg_Items = map ToEventOperationalEntity ms,
         pg_NextCursor = EncodeCursor us (opm_CreatedAt (last ms)) (opm_ID (last ms)),
         pg_Count = pq_Limit q\<rparr>)"
proof -
  have "nat (pq_Limit q) \<le> nat (pq_Limit q + 1)" by simp
  moreover have "take (nat (pq_Limit q)) xs \<noteq> []" using assms by auto
  moreover have "\<not> length xs \<le> nat (pq_Limit q)" using assms by linarith
  ultimately show ?thesis using assms by (simp add: page_of_def Let_def min_def)
qed

lemma follow_pages_all:
  assumes page: "\<And>q. query q = Inr (page_of us (NormalizePageQuery q)
      (filter (before_cursor (pq_Cursor q)) ys))"
    and desc: "descending ys" and times: "\<forall>m \<in> set ys. printable_time (opm_CreatedAt m)"
    and uuid: "\<forall>m \<in> set ys. uuid_Parse (us (opm_ID m)) = Inr (opm_ID m)"
    and suffix: "ys = pre @ filter (before_cursor (pq_Cursor q)) ys"
    and fuel: "length (filter (before_cursor (pq_Cursor q)) ys) < n"
  shows "\<exists>ps. follow_pages query (DecodeCursor uuid_Parse be te) n q = Some ps
    \<and> concat ps = map ToEventOperationalEntity (filter (before_cursor (pq_Cursor q)) ys)
    \<and> (\<forall>p \<in> set ps. length p \<le> nat (pq_Limit (NormalizePageQuery q)))"
  using suffix fuel
proof (induction n arbitrary: q pre)
  case (Suc n)
  let ?xs = "filter (before_cursor (pq_Cursor q)) ys" and ?q = "NormalizePageQuery q"
  show ?case
  proof (cases "int (length ?xs) \<le> pq_Limit ?q")
    case True
    then show ?thesis by (auto simp: page page_of_last nat_le_iff le_nat_iff)
  next
    case False
    let ?L = "nat (pq_Limit ?q)"
    let ?ms = "take ?L ?xs"
    let ?l = "last ?ms"
    have L: "1 \<le> pq_Limit ?q" "0 < ?L" "?L < length ?xs"
      using NormalizePageQuery_bounds [of q] False by auto
    then have ne: "?ms \<noteq> []" by auto
    have l_in: "?l \<in> set ys" using last_in_set [OF ne] by (auto dest: in_set_takeD)
    have ms: "?ms = butlast ?ms @ [?l]" using ne by simp
    have split: "ys = (pre @ butlast ?ms) @ ?l # drop ?L ?xs"
      using Suc.prems(1) ms by (metis append.assoc append_Cons append_Nil append_take_drop_id)
    let ?q' = "q\<lparr>pq_Cursor := Some \<lparr>pc_CreatedAt = opm_CreatedAt ?l, pc_ID = opm_ID ?l\<rparr>\<rparr>"
    have rest: "filter (before_cursor (pq_Cursor ?q')) ys = drop ?L ?xs"
    proof -
      have "descending ((pre @ butlast ?ms) @ ?l # drop ?L ?xs)"
        unfolding split [symmetric] by (rule desc)
      from filter_after [OF this] show ?thesis unfolding split [symmetric] by simp
    qed
    have dec: "DecodeCursor uuid_Parse be te (EncodeCursor us (opm_CreatedAt ?l) (opm_ID ?l)) =
        Inr \<lparr>pc_CreatedAt = opm_CreatedAt ?l, pc_ID = opm_ID ?l\<rparr>"
      using times uuid l_in by (intro Decode_Encode) auto
    have "ys = ((pre @ butlast ?ms) @ [?l]) @ filter (before_cursor (pq_Cursor ?q')) ys"
      using split rest by simp
    moreover have "length (filter (before_cursor (pq_Cursor ?q')) ys) < n"
      using Suc.prems(2) L rest by simp
    ultimately obtain ps where ps: "follow_pages query (DecodeCursor uuid_Parse be te) n ?q' = Some ps"
      "concat ps = map ToEventOperationalEntity (drop ?L ?xs)"
      "\<forall>p \<in> set ps. length p \<le> nat (pq_Limit (NormalizePageQuery ?q'))"
      using Suc.IH [of _ ?q'] rest by metis
    have same: "pq_Limit (NormalizePageQuery ?q') = pq_Limit ?q"
      by (simp add: NormalizePageQuery_def Let_def)
    have "follow_pages query (DecodeCursor uuid_Parse be te) (Suc n) q =
        Some (map ToEventOperationalEntity ?ms # ps)"
      using False L ps dec by (simp add: page page_of_more Let_def EncodeCursor_nonempty)
    moreover have "concat (map ToEventOperationalEntity ?ms # ps) = map ToEventOperationalEntity ?xs"
      using ps by (simp flip: map_append)
    moreover have "\<forall>p \<in> set (map ToEventOperationalEntity ?ms # ps). length p \<le> ?L"
      using ps(3) same by simp
    ultimately show ?thesis by blast
  qed
qed simp

section \<open>Facts about the single repositories\<close>

lemma Create_operational_stored:
  assumes "op_ID e \<noteq> 0" "op_CreatedAt e \<noteq> zero_time"
  shows "snd (Create_operational None now fresh e tbl) = insert_operational (ToEventOperationalModel e) tbl"
  using assms by (simp add: Create_operational_def filled_def ToEventOperationalModel_def Let_def)

lemma FindByID_get:
  "FindByID_operational None tbl k =
    (case get_operational k tbl of None \<Rightarrow> Inl ErrNotFound | Some m \<Rightarrow> Inr (ToEventOperationalEntity m))"
  unfolding FindByID_operational_def get_operational_def by (induction tbl) auto

lemma GetByPlantID_get:
  "GetByPlantID None tbl k = Inr (map_option ToPlantCurrentStatusEntity (get_status k tbl))"
  unfolding GetByPlantID_def get_status_def by (induction tbl) auto

lemma Upsert_status_stored:
  assumes "ps_UpdatedAt st \<noteq> zero_time"
  shows "Upsert_status None now st tbl = (None, upsert_status (ToPlantCurrentStatusModel st) tbl)"
  using assms by (simp add: Upsert_status_def ToPlantCurrentStatusModel_def Let_def)

lemma plant_count_found:
  "0 < plant_count tbl k \<longleftrightarrow> (\<exists>p. FindByID_plant None tbl k = Inr p)"
  unfolding plant_count_def FindByID_plant_def by (induction tbl) auto

text \<open>Inserts only append, and only rows of new ids.\<close>

lemma insert_operational_known:
  "opm_ID ` set ms \<subseteq> opm_ID ` set tbl \<Longrightarrow> fold insert_operational ms tbl = tbl"
  by (induction ms) (auto simp: insert_operational_def)

lemma insert_operational_new:
  "\<exists>new. fold insert_operational ms tbl = tbl @ new \<and> set new \<subseteq> set ms \<and> distinct (map opm_ID new)
    \<and> opm_ID ` set new = opm_ID ` set ms - opm_ID ` set tbl"
proof (induction ms arbitrary: tbl)
  case (Cons m ms)
  show ?case
  proof (cases "opm_ID m \<in> opm_ID ` set tbl")
    case True
    then have "insert_operational m tbl = tbl" by (simp add: insert_operational_def)
    then show ?thesis using True Cons.IH [of tbl] by auto
  next
    case False
    obtain new where "fold insert_operational ms (tbl @ [m]) = (tbl @ [m]) @ new" "set new \<subseteq> set ms"
        "distinct (map opm_ID new)" "opm_ID ` set new = opm_ID ` set ms - opm_ID ` set (tbl @ [m])"
      using Cons.IH by blast
    moreover have "insert_operational m tbl = tbl @ [m]" using False by (simp add: insert_operational_def)
    ultimately show ?thesis using False by (intro exI [of _ "m # new"]) auto
  qed
qed simp

text \<open>The rows of an aggregation, key by key.\<close>

lemma bucket_interval:
  assumes "0 < width"
  shows "time_bucket width t = b \<longleftrightarrow> b mod width = 0 \<and> b \<le> t \<and> t < b + width"
proof
  assume "b mod width = 0 \<and> b \<le> t \<and> t < b + width"
  moreover from this have "t mod width = (t - b) mod width" by (simp add: mod_diff_eq [symmetric])
  ultimately show "time_bucket width t = b" by (simp add: time_bucket_def mod_pos_pos_trivial)
next
  assume b: "time_bucket width t = b"
  have "(t - t mod width) mod width = 0" by (simp add: minus_mod_eq_mult_div)
  with b have "b mod width = 0" by (simp add: time_bucket_def)
  then show "b mod width = 0 \<and> b \<le> t \<and> t < b + width"
    using pos_mod_sign [OF assms, of t] pos_mod_bound [OF assms, of t] b by (simp add: time_bucket_def)
qed

definition aggregate_row :: "duration \<Rightarrow> EventAnalyticalModel list \<Rightarrow> EventAnalyticalModel \<Rightarrow> AggregatedEvent" where
  "aggregate_row width rows m =
     \<lparr>ag_Bucket = time_bucket width (anm_CreatedAt m), ag_PlantSourceId = anm_PlantSourceId m,
      ag_EventType = anm_EventType m,
      ag_EventCount = int (length (filter (\<lambda>m'. time_bucket width (anm_CreatedAt m') = time_bucket width (anm_CreatedAt m)
        \<and> anm_PlantSourceId m' = anm_PlantSourceId m \<and> anm_EventType m' = anm_EventType m) rows))\<rparr>"

lemma set_aggregate: "set (aggregate width rows) = aggregate_row width rows ` set rows"
  by (simp add: aggregate_def Let_def image_image aggregate_row_def)

lemma aggregate_keys_distinct:
  "distinct (map (\<lambda>r. (ag_Bucket r, ag_PlantSourceId r, ag_EventType r)) (aggregate width rows))"
proof -
  let ?k = "\<lambda>r. (ag_Bucket r, ag_PlantSourceId r, ag_EventType r)"
  let ?g = "\<lambda>(b, p, e). \<lparr>ag_Bucket = b, ag_PlantSourceId = p, ag_EventType = e,
      ag_EventCount = int (length (filter (\<lambda>m. time_bucket width (anm_CreatedAt m) = b
        \<and> anm_PlantSourceId m = p \<and> anm_EventType m = e) rows))\<rparr>"
  let ?ks = "remdups (map (\<lambda>m. (time_bucket width (anm_CreatedAt m), anm_PlantSourceId m, anm_EventType m)) rows)"
  have "mset (aggregate width rows) = mset (map ?g ?ks)" by (simp add: aggregate_def Let_def del: mset_map)
  then have m: "mset (map ?k (aggregate width rows)) = mset (map ?k (map ?g ?ks))" by (simp only: mset_map)
  have k: "map ?k (map ?g ?ks) = ?ks" by (simp add: case_prod_beta o_def)
  show ?thesis using mset_eq_imp_distinct_iff [OF m] unfolding k by (simp only: distinct_remdups)
qed

lemma aggregate_sorted: "sorted_wrt (\<lambda>r r'. ag_Bucket r' \<le> ag_Bucket r) (aggregate width rows)"
  unfolding aggregate_def Let_def sorted_wrt_rev using sorted_sort_key [unfolded sorted_map] by blast

text \<open>A row for the examples.\<close>

definition zero_op :: EventOperationalModel where
  "zero_op = \<lparr>opm_ID = 0, opm_EventType = ''t'', opm_PlantSourceId = 0, opm_Source = ''a'', opm_Data = ''{}'',
     opm_Metadata = [], opm_CreatedAt = 0, opm_PlantSource = zero_EnergyPlantsModel\<rparr>"

section \<open>Properties\<close>

text \<open>
  C6. Following \<open>next_cursor\<close> from the first page reads the whole operational table: with
  distinct ids and at least one more request than rows, the pages joined are all events, newest
  first (by instant, then id), each exactly once, none skipped; and no page is longer than the
  normalised limit.
\<close>

theorem pages_enumerate_events:
  assumes "distinct (map opm_ID tbl)" "\<forall>m \<in> set tbl. printable_time (opm_CreatedAt m)"
    "\<And>k. uuid_Parse (uuid_String k) = Inr k" "length tbl < n"
  shows "\<exists>ps. follow_pages (FindAll_operational uuid_String None tbl)
        (DecodeCursor uuid_Parse b64_err time_err) n \<lparr>pq_Limit = l, pq_Cursor = None\<rparr> = Some ps
    \<and> concat ps = map ToEventOperationalEntity (newest_first tbl)
    \<and> (\<forall>p \<in> set ps. length p \<le> nat (pq_Limit (NormalizePageQuery \<lparr>pq_Limit = l, pq_Cursor = None\<rparr>)))"
proof -
  let ?q = "\<lparr>pq_Limit = l, pq_Cursor = None\<rparr>"
  have "before_cursor None = (\<lambda>m. True)" by (auto simp: before_cursor_def)
  then have all: "filter (before_cursor (pq_Cursor ?q)) (newest_first tbl) = newest_first tbl" by simp
  have len: "length (newest_first tbl) = length tbl" and set: "set (newest_first tbl) = set tbl"
    by (simp_all add: newest_first_def)
  have page: "FindAll_operational uuid_String None tbl q = Inr (page_of uuid_String (NormalizePageQuery q)
      (filter (before_cursor (pq_Cursor q)) (newest_first tbl)))" for q
    by (simp add: FindAll_operational_def newest_first_filter)
  show ?thesis
    using follow_pages_all [where pre = "[]" and q = ?q and n = n, OF page newest_first_descending [OF assms(1)]]
      assms(2-4) all len set by simp
qed

theorem pages_enumerate_events_witness:
  "\<exists>ps. follow_pages (FindAll_operational plain_uuid None
        [ToEventOperationalModel \<lparr>op_ID = 7, op_EventType = ''t'', op_PlantSourceId = 1, op_Source = ''s'',
           op_Data = ''{}'', op_Metadata = [], op_CreatedAt = 0\<rparr>])
      (DecodeCursor read_plain_uuid TextError TextError) 2 \<lparr>pq_Limit = 1, pq_Cursor = None\<rparr> = Some ps
    \<and> length (concat ps) = 1"
proof -
  let ?m = "ToEventOperationalModel \<lparr>op_ID = 7, op_EventType = ''t'', op_PlantSourceId = 1, op_Source = ''s'',
      op_Data = ''{}'', op_Metadata = [], op_CreatedAt = 0\<rparr>"
  have "printable_time 0" unfolding printable_time_def by code_simp
  then have "\<forall>m \<in> set [?m]. printable_time (opm_CreatedAt m)"
    by (simp add: ToEventOperationalModel_def)
  from pages_enumerate_events [of "[?m]" read_plain_uuid plain_uuid 2 TextError TextError 1, OF _ this]
  obtain ps where "follow_pages (FindAll_operational plain_uuid None [?m])
      (DecodeCursor read_plain_uuid TextError TextError) 2 \<lparr>pq_Limit = 1, pq_Cursor = None\<rparr> = Some ps"
    "concat ps = map ToEventOperationalEntity (newest_first [?m])"
    by auto
  moreover have "length (newest_first [?m]) = 1" by (simp add: newest_first_def)
  ultimately show ?thesis by (metis length_map)
qed

text \<open>
  C34. Storing is idempotent: inserting a sequence of operational events a second time leaves the
  table as it is, row by row. The rows a table had stay as they are, in front of the new ones; every
  inserted id is in the table afterwards, and no id is in it twice if none was before.
\<close>

theorem operational_insert_idempotent:
  "fold insert_operational (ms @ ms) tbl = fold insert_operational ms tbl
   \<and> (\<exists>new. fold insert_operational ms tbl = tbl @ new \<and> set new \<subseteq> set ms
        \<and> distinct (map opm_ID new) \<and> opm_ID ` set new = opm_ID ` set ms - opm_ID ` set tbl)
   \<and> distinct (map opm_ID (fold insert_operational ms tbl)) = distinct (map opm_ID tbl)"
proof -
  obtain new where new: "fold insert_operational ms tbl = tbl @ new" "set new \<subseteq> set ms" "distinct (map opm_ID new)"
      "opm_ID ` set new = opm_ID ` set ms - opm_ID ` set tbl"
    using insert_operational_new by blast
  have "fold insert_operational ms (fold insert_operational ms tbl) = fold insert_operational ms tbl"
    using new by (intro insert_operational_known) auto
  moreover have "distinct (map opm_ID (tbl @ new)) = distinct (map opm_ID tbl)"
    using new(3,4) by auto
  ultimately show ?thesis using new by simp
qed

text \<open>
  The digital twin shows the last update: after any sequence of upserts the status of a
  plant is that of the last one addressed to it, and a plant none of them addressed is unchanged.
\<close>

theorem status_is_last_upsert:
  "GetByPlantID None (fold upsert_status ms tbl) plant =
    (case filter (\<lambda>m. psm_PlantID m = plant) ms of
       [] \<Rightarrow> GetByPlantID None tbl plant
     | x # xs \<Rightarrow> Inr (Some (ToPlantCurrentStatusEntity (last (x # xs)))))"
  by (simp add: GetByPlantID_get status_store.get_fold split: list.splits)

text \<open>
  C35. The hourly aggregation answers with exactly one row for each hour and event type of the
  plant that has an event in the window, newest hour first. A row begins at a full hour, and
  counts the events of the plant and window that lie in this hour and have this type.
\<close>

theorem hourly_aggregation_rows:
  "\<exists>rows. GetHourlyAggregation None tbl plant start stop = Inr rows
    \<and> distinct (map (\<lambda>r. (ag_Bucket r, ag_EventType r)) rows)
    \<and> sorted_wrt (\<lambda>r r'. ag_Bucket r' \<le> ag_Bucket r) rows
    \<and> (\<forall>m \<in> set tbl. in_window plant start stop m \<longrightarrow>
         (\<exists>r \<in> set rows. ag_EventType r = anm_EventType m
            \<and> ag_Bucket r \<le> anm_CreatedAt m \<and> anm_CreatedAt m < ag_Bucket r + 3600 * Second))
    \<and> (\<forall>r \<in> set rows. ag_PlantSourceId r = plant \<and> ag_Bucket r mod (3600 * Second) = 0 \<and> 0 < ag_EventCount r
         \<and> ag_EventCount r = int (length (filter (\<lambda>m. anm_PlantSourceId m = plant \<and> anm_EventType m = ag_EventType r
              \<and> start \<le> anm_CreatedAt m \<and> anm_CreatedAt m \<le> stop
              \<and> ag_Bucket r \<le> anm_CreatedAt m \<and> anm_CreatedAt m < ag_Bucket r + 3600 * Second) tbl)))"
proof -
  let ?w = "filter (in_window plant start stop) tbl" and ?h = "3600 * Second"
  let ?rows = "aggregate ?h ?w"
  have h: "0 < ?h" by (simp add: Second_def)
  note b = bucket_interval [OF h]
  have plant: "ag_PlantSourceId r = plant" if "r \<in> set ?rows" for r
    using that by (auto simp: set_aggregate aggregate_row_def in_window_def)
  have "distinct (map (\<lambda>r. (ag_Bucket r, ag_PlantSourceId r, ag_EventType r)) ?rows)" by (rule aggregate_keys_distinct)
  then have d: "distinct (map (\<lambda>r. (ag_Bucket r, ag_EventType r)) ?rows)"
    using plant by (auto simp: distinct_map inj_on_def)
  have all: "\<exists>r \<in> set ?rows. ag_EventType r = anm_EventType m
      \<and> ag_Bucket r \<le> anm_CreatedAt m \<and> anm_CreatedAt m < ag_Bucket r + ?h"
    if "m \<in> set tbl" "in_window plant start stop m" for m
    using that b [of "anm_CreatedAt m" "time_bucket ?h (anm_CreatedAt m)"] by (force simp: set_aggregate aggregate_row_def)
  have row: "ag_Bucket r mod ?h = 0 \<and> 0 < ag_EventCount r
      \<and> ag_EventCount r = int (length (filter (\<lambda>m. anm_PlantSourceId m = plant \<and> anm_EventType m = ag_EventType r
              \<and> start \<le> anm_CreatedAt m \<and> anm_CreatedAt m \<le> stop
              \<and> ag_Bucket r \<le> anm_CreatedAt m \<and> anm_CreatedAt m < ag_Bucket r + ?h) tbl))"
    if r: "r \<in> set ?rows" for r
  proof -
    obtain m where m: "m \<in> set ?w" "r = aggregate_row ?h ?w m" using r unfolding set_aggregate by blast
    have e: "ag_Bucket r = time_bucket ?h (anm_CreatedAt m)" "ag_EventType r = anm_EventType m"
        "ag_EventCount r = int (length (filter (\<lambda>m'. time_bucket ?h (anm_CreatedAt m') = ag_Bucket r
           \<and> anm_PlantSourceId m' = anm_PlantSourceId m \<and> anm_EventType m' = ag_EventType r) ?w))"
      by (simp_all only: m(2) aggregate_row_def AggregatedEvent.select_convs)
    have p: "anm_PlantSourceId m = plant" using m(1) by (simp add: in_window_def)
    have z: "ag_Bucket r mod ?h = 0" using b [of "anm_CreatedAt m" "ag_Bucket r"] e(1) by (simp only: simp_thms)
    have "filter (\<lambda>m'. time_bucket ?h (anm_CreatedAt m') = ag_Bucket r
           \<and> anm_PlantSourceId m' = anm_PlantSourceId m \<and> anm_EventType m' = ag_EventType r) ?w
        = filter (\<lambda>m. anm_PlantSourceId m = plant \<and> anm_EventType m = ag_EventType r
              \<and> start \<le> anm_CreatedAt m \<and> anm_CreatedAt m \<le> stop
              \<and> ag_Bucket r \<le> anm_CreatedAt m \<and> anm_CreatedAt m < ag_Bucket r + ?h) tbl"
    proof -
      have "(in_window plant start stop m' \<and> time_bucket ?h (anm_CreatedAt m') = ag_Bucket r
            \<and> anm_PlantSourceId m' = plant \<and> anm_EventType m' = ag_EventType r)
          = (anm_PlantSourceId m' = plant \<and> anm_EventType m' = ag_EventType r
            \<and> start \<le> anm_CreatedAt m' \<and> anm_CreatedAt m' \<le> stop
            \<and> ag_Bucket r \<le> anm_CreatedAt m' \<and> anm_CreatedAt m' < ag_Bucket r + ?h)" for m'
        unfolding b in_window_def using z by blast
      then show ?thesis unfolding filter_filter p by (simp only:)
    qed
    moreover have "m \<in> set (filter (\<lambda>m'. time_bucket ?h (anm_CreatedAt m') = ag_Bucket r
           \<and> anm_PlantSourceId m' = anm_PlantSourceId m \<and> anm_EventType m' = ag_EventType r) ?w)"
      using m(1) e(1,2) by simp
    from length_pos_if_in_set [OF this] have "0 < ag_EventCount r" by (simp only: e(3) of_nat_0_less_iff)
    ultimately show ?thesis using z e(3) by (simp only: simp_thms)
  qed
  show ?thesis
  proof (intro exI [of _ ?rows] conjI ballI impI)
    show "GetHourlyAggregation None tbl plant start stop = Inr ?rows" by (simp add: GetHourlyAggregation_def)
  qed (fact d aggregate_sorted | (rule all plant; assumption) | (drule row; elim conjE; assumption))+
qed

text \<open>Two events of one hour and type, and one of the next hour.\<close>

definition three_events :: "EventAnalyticalModel list" where
  "three_events = map (\<lambda>(t, i). \<lparr>anm_CreatedAt = t * Second, anm_ID = i, anm_EventType = ''t'', anm_PlantSourceId = 1,
      anm_Source = ''s'', anm_Data = ''{}'', anm_Metadata = []\<rparr>) [(7205, 1), (7300, 2), (10801, 3)]"

theorem hourly_aggregation_rows_witness:
  "\<exists>rows r. GetHourlyAggregation None three_events 1 0 (20000 * Second) = Inr rows \<and> r \<in> set rows
    \<and> ag_Bucket r = 7200 * Second \<and> ag_EventCount r = 2"
proof -
  obtain rows where rows: "GetHourlyAggregation None three_events 1 0 (20000 * Second) = Inr rows"
    "\<forall>m \<in> set three_events. in_window 1 0 (20000 * Second) m \<longrightarrow>
       (\<exists>r \<in> set rows. ag_EventType r = anm_EventType m
          \<and> ag_Bucket r \<le> anm_CreatedAt m \<and> anm_CreatedAt m < ag_Bucket r + 3600 * Second)"
    "\<forall>r \<in> set rows. ag_PlantSourceId r = 1 \<and> ag_Bucket r mod (3600 * Second) = 0 \<and> 0 < ag_EventCount r
       \<and> ag_EventCount r = int (length (filter (\<lambda>m. anm_PlantSourceId m = 1 \<and> anm_EventType m = ag_EventType r
            \<and> 0 \<le> anm_CreatedAt m \<and> anm_CreatedAt m \<le> 20000 * Second
            \<and> ag_Bucket r \<le> anm_CreatedAt m \<and> anm_CreatedAt m < ag_Bucket r + 3600 * Second) three_events))"
    using hourly_aggregation_rows [of three_events 1 0 "20000 * Second"] by blast
  let ?m = "hd three_events"
  have m: "?m \<in> set three_events" "in_window 1 0 (20000 * Second) ?m" "anm_EventType ?m = ''t''" "anm_CreatedAt ?m = 7205 * Second"
    by (simp_all add: three_events_def in_window_def Second_def)
  obtain r where r: "r \<in> set rows" "ag_EventType r = ''t''" "ag_Bucket r \<le> 7205 * Second"
      "7205 * Second < ag_Bucket r + 3600 * Second"
    using mp [OF bspec [OF rows(2) m(1)] m(2)] unfolding m(3,4) by blast
  note row = bspec [OF rows(3) r(1)]
  have "3600 * Second dvd ag_Bucket r" using row by (simp only: dvd_eq_mod_eq_0)
  then obtain k where k: "ag_Bucket r = 3600 * Second * k" by (elim dvdE)
  have "k < 3" "1 < k" using r(3,4) unfolding k Second_def by linarith+
  then have "k = 2" by simp
  with k have b: "ag_Bucket r = 7200 * Second" by simp
  have "ag_EventCount r = 2"
    using row [THEN conjunct2, THEN conjunct2, THEN conjunct2] unfolding b r(2)
    by (simp add: three_events_def Second_def)
  with rows(1) r(1) b show ?thesis by blast
qed

text \<open>
  The plant cache answers like the database as long as it is honest: if every cached answer
  is the one the table would give, \<open>Exists\<close> gives the table's answer (an error only where
  the query failed), and the cache is honest afterwards. \<open>Get\<close> and \<open>Add\<close> may reorder and
  evict entries but never invent one.
\<close>

theorem Exists_agrees_with_table:
  assumes "\<And>c k k' b. fst (Get (snd (Get c k)) k') = Some b \<Longrightarrow> fst (Get c k') = Some b"
    "\<And>c k b k' b'. fst (Get (Add c k b) k') = Some b' \<Longrightarrow> fst (Get c k') = Some b' \<or> k' = k \<and> b' = b"
    "\<And>k b. fst (Get c k) = Some b \<Longrightarrow> b = (0 < plant_count tbl k)"
  shows "\<exists>r c'. Exists_plant Get Add fault tbl (Some c) uid = (r, Some c')
    \<and> r \<in> {Inr (0 < plant_count tbl uid)} \<union> Inl ` set_option fault
    \<and> (\<forall>k b. fst (Get c' k) = Some b \<longrightarrow> b = (0 < plant_count tbl k))"
proof -
  obtain h c1 where g: "Get c uid = (h, c1)" by fastforce
  have c1: "fst (Get c1 k) = Some b \<Longrightarrow> b = (0 < plant_count tbl k)" for k b
    using assms(1) [of c uid k b] assms(3) [of k b] g by simp
  show ?thesis
  proof (cases h)
    case (Some b)
    then show ?thesis using g assms(3) [of uid b] c1 by (simp add: Exists_plant_def)
  next
    case None
    show ?thesis
    proof (cases fault)
      case (Some err)
      with None g c1 show ?thesis by (simp add: Exists_plant_def)
    next
      case f: None
      have "fst (Get (Add c1 uid (0 < plant_count tbl uid)) k) = Some b \<Longrightarrow> b = (0 < plant_count tbl k)"
        for k b using assms(2) c1 by blast
      with None f g show ?thesis by (auto simp: Exists_plant_def Let_def)
    qed
  qed
qed

text \<open>A cache for the examples: an association list without eviction.\<close>

definition list_Get :: "(uuid \<times> bool) list \<Rightarrow> uuid \<Rightarrow> bool option \<times> (uuid \<times> bool) list" where
  "list_Get c k = (map_of c k, c)"

definition list_Add :: "(uuid \<times> bool) list \<Rightarrow> uuid \<Rightarrow> bool \<Rightarrow> (uuid \<times> bool) list" where
  "list_Add c k b = (k, b) # c"

theorem Exists_agrees_with_table_witness:
  "fst (Exists_plant list_Get list_Add None [zero_EnergyPlantsModel\<lparr>epm_ID := 5\<rparr>] (Some []) 5) = Inr True"
proof -
  have "\<exists>r c'. Exists_plant list_Get list_Add None [zero_EnergyPlantsModel\<lparr>epm_ID := 5\<rparr>] (Some []) 5 = (r, Some c')
    \<and> r \<in> {Inr (0 < plant_count [zero_EnergyPlantsModel\<lparr>epm_ID := 5\<rparr>] 5)} \<union> Inl ` set_option None
    \<and> (\<forall>k b. fst (list_Get c' k) = Some b \<longrightarrow> b = (0 < plant_count [zero_EnergyPlantsModel\<lparr>epm_ID := 5\<rparr>] k))"
    by (rule Exists_agrees_with_table) (auto simp: list_Get_def list_Add_def split: if_splits)
  then show ?thesis by (auto simp: plant_count_def zero_EnergyPlantsModel_def)
qed

text \<open>
  A negative answer sticks: once \<open>Exists\<close> has answered no for a plant and the cache still
  holds the answer, it answers no again after the plant has been created, without a query.
\<close>

theorem Exists_negative_sticks:
  assumes "fst (Get c uid) = None" "plant_count tbl uid = 0"
    "\<And>c k b. fst (Get (Add c k b) k) = Some b"
  shows "\<exists>c'. Exists_plant Get Add None tbl (Some c) uid = (Inr False, Some c')
    \<and> fst (Exists_plant Get Add fault (tbl @ [m\<lparr>epm_ID := uid, epm_DeletedAt := None\<rparr>]) (Some c') uid) = Inr False"
proof -
  obtain c1 where g: "Get c uid = (None, c1)" using assms(1) by (metis prod.collapse)
  then have "Exists_plant Get Add None tbl (Some c) uid = (Inr False, Some (Add c1 uid False))"
    using assms(2) by (simp add: Exists_plant_def)
  moreover have "fst (Exists_plant Get Add fault tbl' (Some (Add c1 uid False)) uid) = Inr False" for tbl'
    using assms(3) [of c1 uid False] by (auto simp: Exists_plant_def split: prod.splits)
  ultimately show ?thesis by blast
qed

theorem Exists_negative_sticks_witness:
  "\<exists>c'. Exists_plant list_Get list_Add None [] (Some []) 5 = (Inr False, Some c')
    \<and> fst (Exists_plant list_Get list_Add None
        ([] @ [zero_EnergyPlantsModel\<lparr>epm_ID := 5, epm_DeletedAt := None\<rparr>]) (Some c') 5) = Inr False"
  by (rule Exists_negative_sticks) (simp_all add: list_Get_def list_Add_def plant_count_def)

end
