(* ===== verification/Dual_Event_Writer.thy ===== *)
theory Dual_Event_Writer
  imports Repositories
begin

text \<open>
  \<open>internal/infrastructure/adapters/repositories/dual_event_writer.go\<close>: the two independent
  pipelines (operational and analytical), each a bounded channel with its workers, their batches
  written with COPY, the synchronous write, and the shutdown.

  The two pipelines run the same code on different types, so a pipeline is generic in the event
  type \<^typ>\<open>'e\<close> and the model type \<^typ>\<open>'m\<close>. A worker is the local state of its goroutine.
  The fields called history record what happened to each event; no operation reads them.
  \<open>copy_env\<close> is what the database does in one call of a copy function: the error of each step.
\<close>

definition pipelineBufferSize :: nat where
  "pipelineBufferSize = 1000"

definition batchSize :: nat where
  "batchSize = 500"

section \<open>Writing a batch\<close>

record copy_env =
  ce_acquire :: "goerr option"
  ce_begin :: "goerr option"
  ce_gorm :: "goerr option"
  ce_temp :: "goerr option"
  ce_copy :: "goerr option"
  ce_insert :: "goerr option"
  ce_commit :: "goerr option"
  ce_applied :: bool  \<comment> \<open>whether a failed commit took effect all the same\<close>
  ce_now :: time
  ce_fresh :: "nat \<Rightarrow> uuid"

text \<open>gorm's \<open>CreateInBatches\<close> with \<open>DoNothing\<close>, on a batch that fits one statement.\<close>

definition gorm_operational ::
  "copy_env \<Rightarrow> EventOperationalModel list \<Rightarrow> EventOperationalModel list
   \<Rightarrow> goerr option \<times> EventOperationalModel list" where
  "gorm_operational env models tbl =
     (case ce_gorm env of
        Some err \<Rightarrow> (Some err, tbl)
      | None \<Rightarrow>
          (None, fold (\<lambda>(i, m). insert_operational (filled (ce_now env) (ce_fresh env i) m))
                   (enumerate 0 models) tbl))"

definition copyOperationalBatch ::
  "copy_env \<Rightarrow> EventOperationalModel list \<Rightarrow> EventOperationalModel list
   \<Rightarrow> goerr option \<times> EventOperationalModel list" where
  "copyOperationalBatch env models tbl =
     (if models = [] then (None, tbl)
      else if ce_acquire env \<noteq> None then gorm_operational env models tbl
      else if ce_begin env \<noteq> None then gorm_operational env models tbl
      else
        (case ce_temp env of
           Some err \<Rightarrow> (Some (Errorf_w ''pgx create temp'' err), tbl)
         | None \<Rightarrow>
             (case ce_copy env of
                Some err \<Rightarrow> (Some (Errorf_w ''pgx CopyFrom operational'' err), tbl)
              | None \<Rightarrow>
                  (case ce_insert env of
                     Some err \<Rightarrow> (Some (Errorf_w ''pgx insert operational'' err), tbl)
                   | None \<Rightarrow>
                       (let tbl' = fold insert_operational models tbl
                        in case ce_commit env of
                             Some err \<Rightarrow> (Some err, if ce_applied env then tbl' else tbl)
                           | None \<Rightarrow> (None, tbl'))))))"

definition an_filled :: "time \<Rightarrow> uuid \<Rightarrow> EventAnalyticalModel \<Rightarrow> EventAnalyticalModel" where
  "an_filled now fresh m =
     m\<lparr>anm_ID := (if anm_ID m = 0 then fresh else anm_ID m),
       anm_CreatedAt := (if anm_CreatedAt m = zero_time then now else anm_CreatedAt m)\<rparr>"

definition gorm_analytical ::
  "copy_env \<Rightarrow> EventAnalyticalModel list \<Rightarrow> EventAnalyticalModel list
   \<Rightarrow> goerr option \<times> EventAnalyticalModel list" where
  "gorm_analytical env models tbl =
     (case ce_gorm env of
        Some err \<Rightarrow> (Some err, tbl)
      | None \<Rightarrow>
          (None, fold (\<lambda>(i, m). insert_analytical (an_filled (ce_now env) (ce_fresh env i) m))
                   (enumerate 0 models) tbl))"

definition copyAnalyticalBatch ::
  "copy_env \<Rightarrow> EventAnalyticalModel list \<Rightarrow> EventAnalyticalModel list
   \<Rightarrow> goerr option \<times> EventAnalyticalModel list" where
  "copyAnalyticalBatch env models tbl =
     (if models = [] then (None, tbl)
      else if ce_acquire env \<noteq> None then gorm_analytical env models tbl
      else if ce_begin env \<noteq> None then gorm_analytical env models tbl
      else
        (case ce_temp env of
           Some err \<Rightarrow> (Some (Errorf_w ''pgx create temp analytical'' err), tbl)
         | None \<Rightarrow>
             (case ce_copy env of
                Some err \<Rightarrow> (Some (Errorf_w ''pgx CopyFrom analytical'' err), tbl)
              | None \<Rightarrow>
                  (case ce_insert env of
                     Some err \<Rightarrow> (Some (Errorf_w ''pgx insert analytical'' err), tbl)
                   | None \<Rightarrow>
                       (let tbl' = fold insert_analytical models tbl
                        in case ce_commit env of
                             Some err \<Rightarrow> (Some err, if ce_applied env then tbl' else tbl)
                           | None \<Rightarrow> (None, tbl'))))))"

section \<open>A pipeline and its workers\<close>

datatype worker_mode = Running | Draining | Exited

record 'm worker =
  w_batch :: "'m list"
  w_mode :: worker_mode

record ('e, 'm) pipe =
  p_channel :: "'e list"
  p_workers :: "'m worker list"
  p_processed :: int
  p_table :: "'m list"
  p_accepted :: "'m list"  \<comment> \<open>history: events of the calls that returned nil\<close>
  p_written :: "'m list"   \<comment> \<open>history: events of batches written without error\<close>
  p_failed :: "'m list"    \<comment> \<open>history: events of batches whose write failed\<close>
  p_dropped :: "'m list"   \<comment> \<open>history: events that found the channel full\<close>
  p_late :: "'m list"      \<comment> \<open>history: events enqueued after the stop signal\<close>

type_synonym 'm copy_fun = "copy_env \<Rightarrow> 'm list \<Rightarrow> 'm list \<Rightarrow> goerr option \<times> 'm list"

definition set_worker :: "nat \<Rightarrow> 'm worker \<Rightarrow> ('e, 'm) pipe \<Rightarrow> ('e, 'm) pipe" where
  "set_worker i wk p = p\<lparr>p_workers := (p_workers p)[i := wk]\<rparr>"

text \<open>The closure \<open>flush\<close> of worker \<open>i\<close>: the batch is emptied whatever the write returned.\<close>

definition flush :: "'m copy_fun \<Rightarrow> copy_env \<Rightarrow> nat \<Rightarrow> ('e, 'm) pipe \<Rightarrow> ('e, 'm) pipe" where
  "flush copy env i p =
     (let wk = p_workers p ! i; batch = w_batch wk
      in if batch = [] then p
         else
           (case copy env batch (p_table p) of
              (Some err, tbl) \<Rightarrow>
                set_worker i (wk\<lparr>w_batch := []\<rparr>) (p\<lparr>p_table := tbl, p_failed := p_failed p @ batch\<rparr>)
            | (None, tbl) \<Rightarrow>
                set_worker i (wk\<lparr>w_batch := []\<rparr>)
                  (p\<lparr>p_table := tbl, p_processed := p_processed p + int (length batch),
                     p_written := p_written p @ batch\<rparr>)))"

definition receive ::
  "('e \<Rightarrow> 'm) \<Rightarrow> 'm copy_fun \<Rightarrow> copy_env \<Rightarrow> nat \<Rightarrow> ('e, 'm) pipe \<Rightarrow> ('e, 'm) pipe" where
  "receive conv copy env i p =
     (case p_channel p of
        [] \<Rightarrow> p
      | ev # evs \<Rightarrow>
          (let wk = p_workers p ! i; batch = w_batch wk @ [conv ev];
               p = set_worker i (wk\<lparr>w_batch := batch\<rparr>) (p\<lparr>p_channel := evs\<rparr>)
           in if batchSize \<le> length batch then flush copy env i p else p))"

text \<open>
  One turn of a worker's loop: the branch its \<open>select\<close> takes. \<^const>\<open>None\<close> where the branch is
  not ready: the stop branch needs the closed channel, a receive needs an event, the end of the
  drain an empty channel.
\<close>

datatype turn = SeeStop | Tick copy_env | Recv copy_env | DrainOne copy_env | DrainEnd copy_env

definition worker_loop ::
  "('e \<Rightarrow> 'm) \<Rightarrow> 'm copy_fun \<Rightarrow> bool \<Rightarrow> nat \<Rightarrow> turn \<Rightarrow> ('e, 'm) pipe \<Rightarrow> ('e, 'm) pipe option" where
  "worker_loop conv copy stopped i t p =
     (if length (p_workers p) \<le> i then None
      else
        (let wk = p_workers p ! i
         in case t of
              SeeStop \<Rightarrow>
                (if w_mode wk = Running \<and> stopped
                 then Some (set_worker i (wk\<lparr>w_mode := Draining\<rparr>) p) else None)
            | Tick env \<Rightarrow> (if w_mode wk = Running then Some (flush copy env i p) else None)
            | Recv env \<Rightarrow>
                (if w_mode wk = Running \<and> p_channel p \<noteq> []
                 then Some (receive conv copy env i p) else None)
            | DrainOne env \<Rightarrow>
                (if w_mode wk = Draining \<and> p_channel p \<noteq> []
                 then Some (receive conv copy env i p) else None)
            | DrainEnd env \<Rightarrow>
                (if w_mode wk = Draining \<and> p_channel p = []
                 then (let p = flush copy env i p
                       in Some (set_worker i ((p_workers p ! i)\<lparr>w_mode := Exited\<rparr>) p))
                 else None)))"

section \<open>The writer\<close>

record operationalEvent =
  oe_entity :: EventOperational
  oe_rawData :: "bytes option"

record analyticalEvent =
  ae_entity :: EventAnalytical
  ae_rawData :: "bytes option"

definition op_model :: "operationalEvent \<Rightarrow> EventOperationalModel" where
  "op_model ev = ToEventOperationalModel (oe_entity ev)"

definition an_model :: "analyticalEvent \<Rightarrow> EventAnalyticalModel" where
  "an_model ev = ToEventAnalyticalModel (ae_entity ev)"

definition operationalWorker ::
  "bool \<Rightarrow> nat \<Rightarrow> turn \<Rightarrow> (operationalEvent, EventOperationalModel) pipe
   \<Rightarrow> (operationalEvent, EventOperationalModel) pipe option" where
  "operationalWorker stopped i t p = worker_loop op_model copyOperationalBatch stopped i t p"

definition analyticalWorker ::
  "bool \<Rightarrow> nat \<Rightarrow> turn \<Rightarrow> (analyticalEvent, EventAnalyticalModel) pipe
   \<Rightarrow> (analyticalEvent, EventAnalyticalModel) pipe option" where
  "analyticalWorker stopped i t p = worker_loop an_model copyAnalyticalBatch stopped i t p"

record DualEventWriter =
  op_pipe :: "(operationalEvent, EventOperationalModel) pipe"
  an_pipe :: "(analyticalEvent, EventAnalyticalModel) pipe"
  spilloverFunc :: bool  \<comment> \<open>whether the callback is set\<close>
  spilled :: "(bytes \<times> string) list"  \<comment> \<open>the calls of the callback\<close>
  stopping :: bool
  stopChan_closed :: bool
  in_flight :: "(operationalEvent \<times> analyticalEvent) list"
    \<comment> \<open>calls of \<open>SaveEventAsyncWithRaw\<close> that have passed the check of \<open>stopping\<close>\<close>

definition new_pipe :: "int \<Rightarrow> 'm list \<Rightarrow> ('e, 'm) pipe" where
  "new_pipe workerCount tbl =
     \<lparr>p_channel = [],
      p_workers = replicate (nat (if workerCount \<le> 0 then 2 else workerCount))
        \<lparr>w_batch = [], w_mode = Running\<rparr>,
      p_processed = 0, p_table = tbl, p_accepted = [], p_written = [], p_failed = [],
      p_dropped = [], p_late = []\<rparr>"

definition NewDualEventWriterWithConfig ::
  "int \<Rightarrow> int \<Rightarrow> bool \<Rightarrow> EventOperationalModel list \<Rightarrow> EventAnalyticalModel list \<Rightarrow> DualEventWriter" where
  "NewDualEventWriterWithConfig opWorkerCount anWorkerCount spill op_tbl an_tbl =
     \<lparr>op_pipe = new_pipe opWorkerCount op_tbl, an_pipe = new_pipe anWorkerCount an_tbl,
      spilloverFunc = spill, spilled = [], stopping = False, stopChan_closed = False,
      in_flight = []\<rparr>"

definition NewDualEventWriter ::
  "int \<Rightarrow> EventOperationalModel list \<Rightarrow> EventAnalyticalModel list \<Rightarrow> DualEventWriter" where
  "NewDualEventWriter workerCount op_tbl an_tbl =
     NewDualEventWriterWithConfig workerCount workerCount False op_tbl an_tbl"

definition SetSpilloverFunc :: "bool \<Rightarrow> DualEventWriter \<Rightarrow> DualEventWriter" where
  "SetSpilloverFunc fn w = w\<lparr>spilloverFunc := fn\<rparr>"

text \<open>The synchronous write; \<open>f1\<close> and \<open>f2\<close> are the errors of its two inserts.\<close>

definition SaveEvent ::
  "goerr option \<Rightarrow> goerr option \<Rightarrow> time \<Rightarrow> (nat \<Rightarrow> uuid) \<Rightarrow> EventOperational \<Rightarrow> EventAnalytical
   \<Rightarrow> EventOperationalModel list \<Rightarrow> EventAnalyticalModel list
   \<Rightarrow> goerr option \<times> EventOperationalModel list \<times> EventAnalyticalModel list" where
  "SaveEvent f1 f2 now fresh op an op_tbl an_tbl =
     (case f1 of
        Some err \<Rightarrow> (Some err, op_tbl, an_tbl)
      | None \<Rightarrow>
          (let op_tbl = insert_operational (filled now (fresh 0) (ToEventOperationalModel op)) op_tbl
           in case f2 of
                Some err \<Rightarrow> (Some err, op_tbl, an_tbl)
              | None \<Rightarrow>
                  (None, op_tbl, insert_analytical (an_filled now (fresh 1) (ToEventAnalyticalModel an)) an_tbl)))"

definition handleSpillover :: "bytes option \<Rightarrow> string \<Rightarrow> DualEventWriter \<Rightarrow> DualEventWriter" where
  "handleSpillover rawData reason w =
     (case rawData of
        Some b \<Rightarrow> if spilloverFunc w then w\<lparr>spilled := spilled w @ [(b, reason)]\<rparr> else w
      | None \<Rightarrow> w)"

definition offer :: "('e \<Rightarrow> 'm) \<Rightarrow> bool \<Rightarrow> 'e \<Rightarrow> ('e, 'm) pipe \<Rightarrow> ('e, 'm) pipe" where
  "offer conv stopped ev p =
     (if length (p_channel p) < pipelineBufferSize
      then p\<lparr>p_channel := p_channel p @ [ev], p_accepted := p_accepted p @ [conv ev],
             p_late := (if stopped then p_late p @ [conv ev] else p_late p)\<rparr>
      else p\<lparr>p_accepted := p_accepted p @ [conv ev], p_dropped := p_dropped p @ [conv ev]\<rparr>)"

text \<open>What a call does after its check of \<open>stopping\<close>: the two sends, each with its default branch.\<close>

definition enqueue_both ::
  "operationalEvent \<Rightarrow> analyticalEvent \<Rightarrow> DualEventWriter \<Rightarrow> DualEventWriter" where
  "enqueue_both ev1 ev2 w =
     (let full = \<not> length (p_channel (op_pipe w)) < pipelineBufferSize;
          w = w\<lparr>op_pipe := offer op_model (stopChan_closed w) ev1 (op_pipe w)\<rparr>;
          w = (if full then handleSpillover (oe_rawData ev1) ''operational pipeline full'' w else w)
      in w\<lparr>an_pipe := offer an_model (stopChan_closed w) ev2 (an_pipe w)\<rparr>)"

definition SaveEventAsyncWithRaw ::
  "(uuid \<Rightarrow> string) \<Rightarrow> EventOperational \<Rightarrow> EventAnalytical \<Rightarrow> bytes option \<Rightarrow> DualEventWriter
   \<Rightarrow> goerr option \<times> DualEventWriter" where
  "SaveEventAsyncWithRaw uuid_String op an rawData w =
     (if stopping w
      then (Some (TextError (''DualEventWriter is shutting down, rejecting event '' @ uuid_String (op_ID op))), w)
      else (None, enqueue_both \<lparr>oe_entity = op, oe_rawData = rawData\<rparr>
                    \<lparr>ae_entity = an, ae_rawData = rawData\<rparr> w))"

definition SaveEventAsync ::
  "(uuid \<Rightarrow> string) \<Rightarrow> EventOperational \<Rightarrow> EventAnalytical \<Rightarrow> DualEventWriter
   \<Rightarrow> goerr option \<times> DualEventWriter" where
  "SaveEventAsync uuid_String op an w = SaveEventAsyncWithRaw uuid_String op an None w"

text \<open>
  \<open>Stop\<close> runs once: it sets \<open>stopping\<close>, then closes the channel, then waits for the workers;
  it has returned when every worker has.
\<close>

definition Stop_flag :: "DualEventWriter \<Rightarrow> DualEventWriter" where
  "Stop_flag w = w\<lparr>stopping := True\<rparr>"

definition Stop_close :: "DualEventWriter \<Rightarrow> DualEventWriter option" where
  "Stop_close w = (if stopping w \<and> \<not> stopChan_closed w then Some (w\<lparr>stopChan_closed := True\<rparr>) else None)"

definition all_exited :: "('e, 'm) pipe \<Rightarrow> bool" where
  "all_exited p \<longleftrightarrow> (\<forall>wk \<in> set (p_workers p). w_mode wk = Exited)"

definition Stop_returned :: "DualEventWriter \<Rightarrow> bool" where
  "Stop_returned w \<longleftrightarrow> stopChan_closed w \<and> all_exited (op_pipe w) \<and> all_exited (an_pipe w)"

text \<open>
  The steps of the writer: any worker takes a turn, a call passes its check, a call that has
  passed it does its two sends (whatever \<open>Stop\<close> did in between), and the steps of \<open>Stop\<close>.
\<close>

inductive writer_step :: "DualEventWriter \<Rightarrow> DualEventWriter \<Rightarrow> bool" where
  op_turn: "operationalWorker (stopChan_closed w) i t (op_pipe w) = Some p
    \<Longrightarrow> writer_step w (w\<lparr>op_pipe := p\<rparr>)"
| an_turn: "analyticalWorker (stopChan_closed w) i t (an_pipe w) = Some p
    \<Longrightarrow> writer_step w (w\<lparr>an_pipe := p\<rparr>)"
| call_check: "\<not> stopping w \<Longrightarrow> writer_step w (w\<lparr>in_flight := (ev1, ev2) # in_flight w\<rparr>)"
| call_send: "in_flight w = as @ (ev1, ev2) # bs
    \<Longrightarrow> writer_step w (enqueue_both ev1 ev2 (w\<lparr>in_flight := as @ bs\<rparr>))"
| stop_flag: "writer_step w (Stop_flag w)"
| stop_close: "Stop_close w = Some w' \<Longrightarrow> writer_step w w'"

inductive writer_reach :: "DualEventWriter \<Rightarrow> DualEventWriter \<Rightarrow> bool" for w0 where
  start: "writer_reach w0 w0"
| step: "writer_reach w0 w \<Longrightarrow> writer_step w w' \<Longrightarrow> writer_reach w0 w'"

inductive_cases writer_stepE: "writer_step w w'"

section \<open>Every event is accounted for\<close>

definition batched :: "('e, 'm) pipe \<Rightarrow> 'm multiset" where
  "batched p = sum_list (map (\<lambda>wk. mset (w_batch wk)) (p_workers p))"

definition accounted :: "('e \<Rightarrow> 'm) \<Rightarrow> ('e, 'm) pipe \<Rightarrow> bool" where
  "accounted conv p \<longleftrightarrow>
     mset (p_accepted p) = mset (map conv (p_channel p)) + batched p + mset (p_written p)
       + mset (p_failed p) + mset (p_dropped p)"

text \<open>
  The state of a pipeline between turns: everything accepted is accounted for, the channel is
  within its buffer, batches are short of the batch size, the counter is the number of events
  written, and once a worker has exited the channel holds late events only and that worker's
  batch is empty.
\<close>

definition worker_ok :: "'m worker \<Rightarrow> bool" where
  "worker_ok wk \<longleftrightarrow> length (w_batch wk) < batchSize \<and> (w_mode wk = Exited \<longrightarrow> w_batch wk = [])"

definition exit_clean :: "('e \<Rightarrow> 'm) \<Rightarrow> ('e, 'm) pipe \<Rightarrow> bool" where
  "exit_clean conv p \<longleftrightarrow>
     (Exited \<in> set (map w_mode (p_workers p)) \<longrightarrow> set (map conv (p_channel p)) \<subseteq> set (p_late p))"

definition pipe_inv :: "('e \<Rightarrow> 'm) \<Rightarrow> ('e, 'm) pipe \<Rightarrow> bool" where
  "pipe_inv conv p \<longleftrightarrow>
     accounted conv p
     \<and> length (p_channel p) \<le> pipelineBufferSize
     \<and> (\<forall>j < length (p_workers p). worker_ok (p_workers p ! j))
     \<and> p_processed p = int (length (p_written p))
     \<and> exit_clean conv p"

lemma set_worker_simps [simp]:
  "p_channel (set_worker i wk p) = p_channel p" "p_processed (set_worker i wk p) = p_processed p"
  "p_table (set_worker i wk p) = p_table p" "p_accepted (set_worker i wk p) = p_accepted p"
  "p_written (set_worker i wk p) = p_written p" "p_failed (set_worker i wk p) = p_failed p"
  "p_dropped (set_worker i wk p) = p_dropped p" "p_late (set_worker i wk p) = p_late p"
  "p_workers (set_worker i wk p) = (p_workers p)[i := wk]"
  by (simp_all add: set_worker_def)

lemma batched_set_worker:
  "i < length (p_workers p) \<Longrightarrow>
    batched (set_worker i wk p) + mset (w_batch (p_workers p ! i)) = batched p + mset (w_batch wk)"
  unfolding batched_def set_worker_simps by (rule sum_list_update_comm)

lemma flush_frame [frame]:
  "p_channel (flush copy env i p) = p_channel p" "p_accepted (flush copy env i p) = p_accepted p"
  "p_dropped (flush copy env i p) = p_dropped p" "p_late (flush copy env i p) = p_late p"
  "length (p_workers (flush copy env i p)) = length (p_workers p)"
  by (auto simp: flush_def Let_def split: prod.splits option.splits)

lemma flush_workers:
  "i < length (p_workers p) \<Longrightarrow>
    p_workers (flush copy env i p) = (p_workers p)[i := (p_workers p ! i)\<lparr>w_batch := []\<rparr>]"
proof (cases "w_batch (p_workers p ! i) = []")
  case True
  then have "(p_workers p ! i)\<lparr>w_batch := []\<rparr> = p_workers p ! i" by simp
  then have e: "(p_workers p)[i := (p_workers p ! i)\<lparr>w_batch := []\<rparr>] = p_workers p"
    by (simp only: list_update_id)
  show ?thesis unfolding e using True by (simp add: flush_def)
next
  case False
  then show ?thesis by (auto simp: flush_def Let_def split: prod.splits option.splits)
qed

lemma flush_moves:
  assumes "i < length (p_workers p)"
  shows "batched (flush copy env i p) + mset (p_written (flush copy env i p)) + mset (p_failed (flush copy env i p))
    = batched p + mset (p_written p) + mset (p_failed p)"
proof -
  let ?b = "w_batch (p_workers p ! i)"
  let ?wk = "(p_workers p ! i)\<lparr>w_batch := []\<rparr>"
  have b: "batched (flush copy env i p) + mset ?b = batched p"
    using batched_set_worker [OF assms, of ?wk] by (simp add: batched_def flush_workers [OF assms])
  have "mset (p_written (flush copy env i p)) + mset (p_failed (flush copy env i p))
      = mset (p_written p) + mset (p_failed p) + mset ?b"
    by (auto simp: flush_def Let_def split: prod.splits option.splits)
  then show ?thesis by (metis (no_types, lifting) add.assoc add.commute b)
qed

lemma flush_processed:
  "p_processed p = int (length (p_written p)) \<Longrightarrow>
    p_processed (flush copy env i p) = int (length (p_written (flush copy env i p)))"
  by (auto simp: flush_def Let_def split: prod.splits option.splits)

lemma flush_accounted:
  "i < length (p_workers p) \<Longrightarrow> accounted conv p \<Longrightarrow> accounted conv (flush copy env i p)"
  using flush_moves [of i p copy env] unfolding accounted_def flush_frame
  by (metis (no_types, lifting) add.assoc add.commute)

lemma flush_exit_clean:
  assumes "i < length (p_workers p)"
  shows "exit_clean conv (flush copy env i p) = exit_clean conv p"
proof -
  have "map w_mode (p_workers (flush copy env i p)) = map w_mode (p_workers p)"
    using assms by (simp add: flush_workers map_update list_update_same_conv)
  then show ?thesis by (simp add: exit_clean_def flush_frame del: set_map)
qed

lemma flush_inv:
  assumes "i < length (p_workers p)" "accounted conv p" "length (p_channel p) \<le> pipelineBufferSize"
    "\<And>j. j < length (p_workers p) \<Longrightarrow> j \<noteq> i \<Longrightarrow> worker_ok (p_workers p ! j)"
    "p_processed p = int (length (p_written p))" "exit_clean conv p"
  shows "pipe_inv conv (flush copy env i p)"
  using assms
  by (auto simp: pipe_inv_def flush_accounted flush_frame flush_processed flush_exit_clean flush_workers
      nth_list_update worker_ok_def batchSize_def)

lemma receive_inv:
  assumes i: "i < length (p_workers p)" and inv: "pipe_inv conv p" and ne: "p_channel p \<noteq> []"
    and mode: "w_mode (p_workers p ! i) \<noteq> Exited"
  shows "pipe_inv conv (receive conv copy env i p)"
proof -
  obtain ev evs where ch: "p_channel p = ev # evs" using ne by (cases "p_channel p") auto
  let ?wk = "p_workers p ! i"
  let ?b = "w_batch ?wk @ [conv ev]"
  let ?p = "set_worker i (?wk\<lparr>w_batch := ?b\<rparr>) (p\<lparr>p_channel := evs\<rparr>)"
  have i': "i < length (p_workers (p\<lparr>p_channel := evs\<rparr>))" using i by simp
  have "batched ?p + mset (w_batch ?wk) = batched p + mset ?b"
    using batched_set_worker [OF i', of "?wk\<lparr>w_batch := ?b\<rparr>"] by (simp add: batched_def)
  then have b: "batched ?p = add_mset (conv ev) (batched p)" by simp
  have acc: "accounted conv ?p"
    using inv ch unfolding pipe_inv_def accounted_def b by simp
  have modes: "map w_mode (p_workers ?p) = map w_mode (p_workers p)"
    using i by (simp add: map_update list_update_same_conv)
  have late: "exit_clean conv ?p"
    using inv ch modes unfolding pipe_inv_def exit_clean_def by (auto simp del: set_map simp: list_update_same_conv)
  have others: "worker_ok (p_workers ?p ! j)" if "j < length (p_workers ?p)" "j \<noteq> i" for j
    using that inv by (simp add: pipe_inv_def)
  have len: "length (p_channel ?p) \<le> pipelineBufferSize" "p_processed ?p = int (length (p_written ?p))"
    using inv ch by (auto simp: pipe_inv_def)
  show ?thesis
  proof (cases "batchSize \<le> length ?b")
    case True
    then have "receive conv copy env i p = flush copy env i ?p" by (simp add: receive_def ch Let_def)
    then show ?thesis using flush_inv [of i ?p conv copy env] i acc late others len by simp
  next
    case False
    then have r: "receive conv copy env i p = ?p" by (simp add: receive_def ch Let_def)
    have "worker_ok (p_workers ?p ! j)" if "j < length (p_workers ?p)" for j
      using that others False mode i by (cases "j = i") (auto simp: worker_ok_def)
    then show ?thesis unfolding r pipe_inv_def using acc late len by blast
  qed
qed

lemma worker_loop_inv:
  assumes "worker_loop conv copy stopped i t p = Some p'" "pipe_inv conv p"
  shows "pipe_inv conv p'"
proof -
  have i: "i < length (p_workers p)"
    using assms(1) by (auto simp: worker_loop_def split: if_splits)
  have fl: "pipe_inv conv (flush copy env i p)" for env
    using assms(2) i by (intro flush_inv) (auto simp: pipe_inv_def)
  show ?thesis
  proof (cases t)
    case SeeStop
    let ?wk = "(p_workers p ! i)\<lparr>w_mode := Draining\<rparr>"
    have p': "p' = set_worker i ?wk p" "w_mode (p_workers p ! i) = Running"
      using assms(1) i SeeStop by (auto simp: worker_loop_def Let_def split: if_splits)
    have b: "batched p' = batched p"
      using batched_set_worker [OF i, of ?wk] p' by simp
    have "Exited \<in> set (map w_mode (p_workers p')) \<Longrightarrow> Exited \<in> set (map w_mode (p_workers p))"
      using p' set_update_subset_insert [of "map w_mode (p_workers p)" i Draining]
      by (auto simp: map_update)
    then show ?thesis
      using assms(2) p' i b
      by (auto simp: pipe_inv_def accounted_def exit_clean_def nth_list_update worker_ok_def)
  next
    case (Tick env)
    then show ?thesis using assms(1) i fl by (auto simp: worker_loop_def Let_def split: if_splits)
  next
    case (Recv env)
    then show ?thesis
      using assms i receive_inv [of i p conv copy env]
      by (auto simp: worker_loop_def Let_def split: if_splits)
  next
    case (DrainOne env)
    then show ?thesis
      using assms i receive_inv [of i p conv copy env]
      by (auto simp: worker_loop_def Let_def split: if_splits)
  next
    case (DrainEnd env)
    let ?p = "flush copy env i p"
    let ?wk = "(p_workers ?p ! i)\<lparr>w_mode := Exited\<rparr>"
    have p': "p' = set_worker i ?wk ?p" "p_channel p = []"
      using assms(1) i DrainEnd by (auto simp: worker_loop_def Let_def split: if_splits)
    have b: "batched p' = batched ?p"
      using batched_set_worker [of i ?p ?wk] p' i by (simp add: flush_frame)
    have "w_batch (p_workers ?p ! i) = []" using i by (simp add: flush_workers)
    then show ?thesis
      using fl [of env] p' i b
      by (auto simp: pipe_inv_def accounted_def exit_clean_def nth_list_update worker_ok_def flush_frame
          batchSize_def)
  qed
qed

lemma offer_inv:
  assumes "pipe_inv conv p" "stopped \<or> \<not> (Exited \<in> set (map w_mode (p_workers p)))"
  shows "pipe_inv conv (offer conv stopped ev p)"
  using assms by (auto simp: offer_def pipe_inv_def accounted_def exit_clean_def batched_def)

section \<open>What is written is in the table\<close>

text \<open>
  The contract between a pipeline and the store it copies to: a batch reported as written is
  found under the keys of its events, and no copy, failed or not, takes a stored row away.
\<close>

locale batch_sink =
  fixes conv :: "'e \<Rightarrow> 'm"
    and copy :: "'m copy_fun"
    and get :: "'k \<Rightarrow> 'm list \<Rightarrow> 'm option"
    and key :: "'m \<Rightarrow> 'k"
    and ok :: "'m \<Rightarrow> bool"
  assumes copy_stores: "copy env ms tbl = (None, tbl') \<Longrightarrow> m \<in> set ms \<Longrightarrow> ok m \<Longrightarrow> get (key m) tbl' \<noteq> None"
    and copy_keeps: "copy env ms tbl = (r, tbl') \<Longrightarrow> get k tbl = Some x \<Longrightarrow> get k tbl' = Some x"
begin

definition stored :: "('e, 'm) pipe \<Rightarrow> bool" where
  "stored p \<longleftrightarrow> (\<forall>m \<in> set (p_written p). ok m \<longrightarrow> get (key m) (p_table p) \<noteq> None)"

lemma flush_stored: "stored p \<Longrightarrow> stored (flush copy env i p)"
  unfolding stored_def
  by (auto simp: flush_def Let_def split: prod.splits option.splits dest: copy_keeps copy_stores)

lemma receive_stored: "stored p \<Longrightarrow> stored (receive conv copy env i p)"
  by (auto simp: receive_def Let_def split: list.splits if_splits intro!: flush_stored)
    (auto simp: stored_def)

lemma worker_loop_stored:
  "worker_loop conv copy stopped i t p = Some p' \<Longrightarrow> stored p \<Longrightarrow> stored p'"
  using flush_stored [of p _ i] receive_stored [of p _ i]
  by (auto simp: worker_loop_def Let_def split: if_splits turn.splits) (auto simp: stored_def)

lemma offer_stored: "stored p \<Longrightarrow> stored (offer conv stopped ev p)"
  by (simp add: stored_def offer_def)

lemma kept_by_turn:
  "worker_loop conv copy stopped i t p = Some p' \<Longrightarrow> get k (p_table p) = Some x \<Longrightarrow>
    get k (p_table p') = Some x"
  by (auto simp: worker_loop_def flush_def receive_def Let_def
      split: if_splits turn.splits prod.splits option.splits list.splits dest: copy_keeps)

end

definition op_keyed :: "EventOperationalModel \<Rightarrow> bool" where
  "op_keyed m \<longleftrightarrow> opm_ID m \<noteq> 0 \<and> opm_CreatedAt m \<noteq> zero_time"

definition an_keyed :: "EventAnalyticalModel \<Rightarrow> bool" where
  "an_keyed m \<longleftrightarrow> anm_ID m \<noteq> 0 \<and> anm_CreatedAt m \<noteq> zero_time"

lemma filled_keyed [simp]: "op_keyed m \<Longrightarrow> filled now fresh m = m" "an_keyed m' \<Longrightarrow> an_filled now fresh m' = m'"
  by (simp_all add: filled_def op_keyed_def an_filled_def an_keyed_def)

lemma in_enumerate_map:
  "m \<in> set ms \<Longrightarrow> (\<And>i. g i m = m) \<Longrightarrow> m \<in> set (map (\<lambda>(i, m). g i m) (enumerate n ms))"
  by (induction ms arbitrary: n) auto

lemma fold_enumerate:
  "fold (\<lambda>(i, m). put (g i m)) xs s = fold put (map (\<lambda>(i, m). g i m) xs) s"
  by (induction xs arbitrary: s) auto

text \<open>A successful copy of a batch is an insert of some list that holds its keyed events.\<close>

lemma copyOperationalBatch_cases:
  assumes "copyOperationalBatch env ms tbl = (r, tbl')"
  obtains "r \<noteq> None \<or> ms = []" "tbl' = tbl"
  | es where "tbl' = fold insert_operational es tbl" "\<forall>m \<in> set ms. op_keyed m \<longrightarrow> m \<in> set es"
proof -
  let ?es = "map (\<lambda>(i, m). filled (ce_now env) (ce_fresh env i) m) (enumerate 0 ms)"
  have "\<forall>m \<in> set ms. op_keyed m \<longrightarrow> m \<in> set ?es" by (intro ballI impI in_enumerate_map) auto
  moreover have "gorm_operational env ms tbl =
      (case ce_gorm env of Some err \<Rightarrow> (Some err, tbl) | None \<Rightarrow> (None, fold insert_operational ?es tbl))"
    using fold_enumerate [of insert_operational "\<lambda>i. filled (ce_now env) (ce_fresh env i)"]
    by (simp add: gorm_operational_def split: option.split)
  ultimately show thesis
    using assms that(1) that(2) [of ?es] that(2) [of ms]
    by (auto simp: copyOperationalBatch_def Let_def split: if_splits option.splits) metis+
qed

lemma copyAnalyticalBatch_cases:
  assumes "copyAnalyticalBatch env ms tbl = (r, tbl')"
  obtains "r \<noteq> None \<or> ms = []" "tbl' = tbl"
  | es where "tbl' = fold insert_analytical es tbl" "\<forall>m \<in> set ms. an_keyed m \<longrightarrow> m \<in> set es"
proof -
  let ?es = "map (\<lambda>(i, m). an_filled (ce_now env) (ce_fresh env i) m) (enumerate 0 ms)"
  have "\<forall>m \<in> set ms. an_keyed m \<longrightarrow> m \<in> set ?es" by (intro ballI impI in_enumerate_map) auto
  moreover have "gorm_analytical env ms tbl =
      (case ce_gorm env of Some err \<Rightarrow> (Some err, tbl) | None \<Rightarrow> (None, fold insert_analytical ?es tbl))"
    using fold_enumerate [of insert_analytical "\<lambda>i. an_filled (ce_now env) (ce_fresh env i)"]
    by (simp add: gorm_analytical_def split: option.split)
  ultimately show thesis
    using assms that(1) that(2) [of ?es] that(2) [of ms]
    by (auto simp: copyAnalyticalBatch_def Let_def split: if_splits option.splits) metis+
qed

interpretation op_sink: batch_sink op_model copyOperationalBatch get_operational opm_ID op_keyed
proof
  show "get_operational (opm_ID m) tbl' \<noteq> None"
    if "copyOperationalBatch env ms tbl = (None, tbl')" "m \<in> set ms" "op_keyed m" for env ms tbl tbl' m
    using that(1) by (cases rule: copyOperationalBatch_cases) (use that op_store.get_fold_in in auto)
  show "get_operational k tbl' = Some x"
    if "copyOperationalBatch env ms tbl = (r, tbl')" "get_operational k tbl = Some x" for env ms tbl r tbl' k x
    using that(1) by (cases rule: copyOperationalBatch_cases) (use that op_store.kept in auto)
qed

interpretation an_sink: batch_sink an_model copyAnalyticalBatch get_analytical
  "\<lambda>m. (anm_CreatedAt m, anm_ID m)" an_keyed
proof
  show "get_analytical (anm_CreatedAt m, anm_ID m) tbl' \<noteq> None"
    if "copyAnalyticalBatch env ms tbl = (None, tbl')" "m \<in> set ms" "an_keyed m" for env ms tbl tbl' m
    using that(1) by (cases rule: copyAnalyticalBatch_cases) (use that an_store.get_fold_in in auto)
  show "get_analytical k tbl' = Some x"
    if "copyAnalyticalBatch env ms tbl = (r, tbl')" "get_analytical k tbl = Some x" for env ms tbl r tbl' k x
    using that(1) by (cases rule: copyAnalyticalBatch_cases) (use that an_store.kept in auto)
qed

section \<open>The invariant of the writer\<close>

definition all_running :: "('e, 'm) pipe \<Rightarrow> bool" where
  "all_running p \<longleftrightarrow> set (map w_mode (p_workers p)) \<subseteq> {Running}"

lemma flush_modes: "i < length (p_workers p) \<Longrightarrow>
    map w_mode (p_workers (flush copy env i p)) = map w_mode (p_workers p)"
  by (simp add: flush_workers map_update list_update_same_conv)

lemma receive_modes:
  assumes "i < length (p_workers p)"
  shows "map w_mode (p_workers (receive conv copy env i p)) = map w_mode (p_workers p)"
proof (cases "p_channel p")
  case (Cons ev evs)
  let ?p = "set_worker i ((p_workers p ! i)\<lparr>w_batch := w_batch (p_workers p ! i) @ [conv ev]\<rparr>)
      (p\<lparr>p_channel := evs\<rparr>)"
  have "map w_mode (p_workers ?p) = map w_mode (p_workers p)"
    using assms by (simp add: map_update list_update_same_conv)
  then show ?thesis using flush_modes [of i ?p copy env] assms Cons by (simp add: receive_def Let_def)
qed (simp add: receive_def)

lemma worker_loop_running:
  assumes "worker_loop conv copy False i t p = Some p'" "all_running p"
  shows "all_running p'"
proof -
  have i: "i < length (p_workers p)" using assms(1) by (auto simp: worker_loop_def split: if_splits)
  then have "w_mode (p_workers p ! i) \<in> set (map w_mode (p_workers p))" by simp
  then have r: "w_mode (p_workers p ! i) = Running"
    using assms(2) by (auto simp: all_running_def simp del: set_map)
  show ?thesis
    using assms i r unfolding all_running_def
    by (cases t) (auto simp: worker_loop_def Let_def flush_modes receive_modes simp del: set_map
        split: if_splits)
qed

definition writer_inv :: "DualEventWriter \<Rightarrow> bool" where
  "writer_inv w \<longleftrightarrow>
     pipe_inv op_model (op_pipe w) \<and> pipe_inv an_model (an_pipe w)
     \<and> op_sink.stored (op_pipe w) \<and> an_sink.stored (an_pipe w)
     \<and> (stopChan_closed w \<longrightarrow> stopping w)
     \<and> (\<not> stopChan_closed w \<longrightarrow> all_running (op_pipe w) \<and> all_running (an_pipe w))"

lemma new_pipe_inv: "pipe_inv conv (new_pipe n tbl)" "all_running (new_pipe n tbl)"
proof -
  have "batched (new_pipe n tbl) = {#}" by (simp add: batched_def new_pipe_def)
  then show "pipe_inv conv (new_pipe n tbl)"
    by (simp add: pipe_inv_def accounted_def worker_ok_def exit_clean_def batchSize_def)
      (simp add: new_pipe_def)
  show "all_running (new_pipe n tbl)" by (auto simp: all_running_def new_pipe_def)
qed

lemma writer_inv_start: "writer_inv (NewDualEventWriterWithConfig n m spill t1 t2)"
  by (simp add: writer_inv_def NewDualEventWriterWithConfig_def new_pipe_inv)
    (simp add: op_sink.stored_def an_sink.stored_def new_pipe_def)

lemma all_running_not_exited: "all_running p \<Longrightarrow> Exited \<notin> set (map w_mode (p_workers p))"
  unfolding all_running_def by (auto simp del: set_map)

lemma offer_running: "all_running (offer conv b ev p) = all_running p"
  by (simp add: all_running_def offer_def)

lemma handleSpillover_frame [frame, simp]:
  "op_pipe (handleSpillover raw r w) = op_pipe w" "an_pipe (handleSpillover raw r w) = an_pipe w"
  "stopping (handleSpillover raw r w) = stopping w"
  "stopChan_closed (handleSpillover raw r w) = stopChan_closed w"
  by (simp_all add: handleSpillover_def split: option.splits)

lemma enqueue_both_simps [simp]:
  "op_pipe (enqueue_both ev1 ev2 w) = offer op_model (stopChan_closed w) ev1 (op_pipe w)"
  "an_pipe (enqueue_both ev1 ev2 w) = offer an_model (stopChan_closed w) ev2 (an_pipe w)"
  "stopping (enqueue_both ev1 ev2 w) = stopping w"
  "stopChan_closed (enqueue_both ev1 ev2 w) = stopChan_closed w"
  by (simp_all add: enqueue_both_def Let_def)

lemma enqueue_both_inv: "writer_inv w \<Longrightarrow> writer_inv (enqueue_both ev1 ev2 w)"
  by (auto simp: writer_inv_def offer_running op_sink.offer_stored an_sink.offer_stored
      intro!: offer_inv dest: all_running_not_exited)

lemma writer_step_inv:
  assumes "writer_step w w'" "writer_inv w"
  shows "writer_inv w'"
  using assms
proof (cases rule: writer_step.cases)
  case (op_turn i t p)
  then have l: "worker_loop op_model copyOperationalBatch (stopChan_closed w) i t (op_pipe w) = Some p"
    by (simp add: operationalWorker_def)
  show ?thesis
    using op_turn(1) assms(2) worker_loop_inv [OF l] op_sink.worker_loop_stored [OF l] worker_loop_running l
    by (auto simp: writer_inv_def)
next
  case (an_turn i t p)
  then have l: "worker_loop an_model copyAnalyticalBatch (stopChan_closed w) i t (an_pipe w) = Some p"
    by (simp add: analyticalWorker_def)
  show ?thesis
    using an_turn(1) assms(2) worker_loop_inv [OF l] an_sink.worker_loop_stored [OF l] worker_loop_running l
    by (auto simp: writer_inv_def)
next
  case (call_send as ev1 ev2 bs)
  have "writer_inv (w\<lparr>in_flight := as @ bs\<rparr>)" using assms(2) by (simp add: writer_inv_def)
  then show ?thesis using call_send enqueue_both_inv by blast
qed (use assms in \<open>auto simp: writer_inv_def Stop_flag_def Stop_close_def split: if_splits\<close>)

lemma writer_reach_inv:
  "writer_reach (NewDualEventWriterWithConfig n m spill t1 t2) w \<Longrightarrow> writer_inv w"
  by (induction rule: writer_reach.induct) (auto intro: writer_inv_start writer_step_inv)

lemma accounted_done:
  assumes "pipe_inv conv p" "all_exited p" "p_channel p = []"
  shows "mset (p_accepted p) = mset (p_written p) + mset (p_failed p) + mset (p_dropped p)"
proof -
  have "\<forall>wk \<in> set (p_workers p). w_batch wk = []"
    using assms nth_mem by (fastforce simp: pipe_inv_def worker_ok_def all_exited_def in_set_conv_nth)
  then have "batched p = sum_list (map (\<lambda>wk. {#}) (p_workers p))"
    unfolding batched_def by (intro arg_cong [where f = sum_list] map_cong) auto
  also have "\<dots> = {#}" by (induction "p_workers p") auto
  finally show ?thesis using assms by (simp add: pipe_inv_def accounted_def)
qed

lemma exited_channel:
  assumes "pipe_inv conv p" "all_exited p" "p_workers p \<noteq> []" "p_late p = []"
  shows "p_channel p = []"
proof -
  have "Exited \<in> set (map w_mode (p_workers p))"
    using assms(2,3) by (cases "p_workers p") (auto simp: all_exited_def)
  then show ?thesis using assms by (simp add: pipe_inv_def exit_clean_def del: set_map)
qed

text \<open>The number of workers never changes.\<close>

lemma worker_loop_count:
  "worker_loop conv copy stopped i t p = Some p' \<Longrightarrow> length (p_workers p') = length (p_workers p)"
  using receive_modes [of i p conv copy, THEN arg_cong [of _ _ length]]
  by (auto simp: worker_loop_def Let_def flush_frame split: if_splits turn.splits)

definition workers_up :: "DualEventWriter \<Rightarrow> bool" where
  "workers_up w \<longleftrightarrow> p_workers (op_pipe w) \<noteq> [] \<and> p_workers (an_pipe w) \<noteq> []"

lemma offer_workers [simp]: "p_workers (offer conv b ev p) = p_workers p"
  by (simp add: offer_def)

lemma writer_step_count:
  "writer_step w w' \<Longrightarrow>
    length (p_workers (op_pipe w')) = length (p_workers (op_pipe w))
    \<and> length (p_workers (an_pipe w')) = length (p_workers (an_pipe w))"
  by (induction rule: writer_step.induct)
    (auto simp: operationalWorker_def analyticalWorker_def Stop_flag_def Stop_close_def split: if_splits
      dest: worker_loop_count)

lemma writer_reach_workers:
  "writer_reach (NewDualEventWriterWithConfig n m spill t1 t2) w \<Longrightarrow> workers_up w"
proof (induction rule: writer_reach.induct)
  case start
  then show ?case by (auto simp: workers_up_def NewDualEventWriterWithConfig_def new_pipe_def)
next
  case (step w w')
  then show ?case using writer_step_count [OF step(2)] unfolding workers_up_def by (metis length_0_conv)
qed

section \<open>Runs given as a list of steps\<close>

datatype action = OpTurn nat turn | AnTurn nat turn | CallCheck operationalEvent analyticalEvent
  | CallSend | StopFlag | StopClose

fun act :: "action \<Rightarrow> DualEventWriter \<Rightarrow> DualEventWriter option" where
  "act (OpTurn i t) w = map_option (\<lambda>p. w\<lparr>op_pipe := p\<rparr>) (operationalWorker (stopChan_closed w) i t (op_pipe w))"
| "act (AnTurn i t) w = map_option (\<lambda>p. w\<lparr>an_pipe := p\<rparr>) (analyticalWorker (stopChan_closed w) i t (an_pipe w))"
| "act (CallCheck ev1 ev2) w = (if stopping w then None else Some (w\<lparr>in_flight := (ev1, ev2) # in_flight w\<rparr>))"
| "act CallSend w =
     (case in_flight w of [] \<Rightarrow> None | (ev1, ev2) # rest \<Rightarrow> Some (enqueue_both ev1 ev2 (w\<lparr>in_flight := rest\<rparr>)))"
| "act StopFlag w = Some (Stop_flag w)"
| "act StopClose w = Stop_close w"

fun run_writer :: "action list \<Rightarrow> DualEventWriter \<Rightarrow> DualEventWriter option" where
  "run_writer [] w = Some w"
| "run_writer (a # as) w = Option.bind (act a w) (run_writer as)"

lemma act_step: "act a w = Some w' \<Longrightarrow> writer_step w w'"
  by (cases a)
    (auto intro: writer_step.intros writer_step.call_send [where as = "[]", simplified]
      split: if_splits list.splits)

lemma run_writer_reach: "run_writer as w = Some w' \<Longrightarrow> writer_reach w0 w \<Longrightarrow> writer_reach w0 w'"
proof (induction as arbitrary: w)
  case (Cons a as)
  then obtain y where "act a w = Some y" "run_writer as y = Some w'"
    by (auto simp: bind_eq_Some_conv)
  then show ?case using Cons.IH writer_reach.step [OF Cons.prems(2) act_step] by blast
qed simp

lemma exited_no_turn: "all_exited p \<Longrightarrow> worker_loop conv copy stopped i t p = None"
proof -
  assume "all_exited p"
  then have "i < length (p_workers p) \<Longrightarrow> w_mode (p_workers p ! i) = Exited"
    by (simp add: all_exited_def)
  then show ?thesis by (cases t) (auto simp: worker_loop_def)
qed

definition quiet_env :: copy_env where
  "quiet_env = \<lparr>ce_acquire = None, ce_begin = None, ce_gorm = None, ce_temp = None, ce_copy = None,
     ce_insert = None, ce_commit = None, ce_applied = True, ce_now = 1, ce_fresh = (\<lambda>i. 1)\<rparr>"

definition shutdown_one :: "action list" where
  "shutdown_one = [StopFlag, StopClose, OpTurn 0 SeeStop, OpTurn 0 (DrainEnd quiet_env),
     AnTurn 0 SeeStop, AnTurn 0 (DrainEnd quiet_env)]"

section \<open>What a shutdown has left to do\<close>

fun stages :: "worker_mode \<Rightarrow> nat" where
  "stages Running = 2"
| "stages Draining = 1"
| "stages Exited = 0"

definition drain_left :: "('e, 'm) pipe \<Rightarrow> nat" where
  "drain_left p = length (p_channel p) + sum_list (map (\<lambda>wk. stages (w_mode wk)) (p_workers p))"

fun stop_turn :: "turn \<Rightarrow> bool" where
  "stop_turn SeeStop \<longleftrightarrow> True"
| "stop_turn (DrainOne env) \<longleftrightarrow> True"
| "stop_turn (DrainEnd env) \<longleftrightarrow> True"
| "stop_turn _ \<longleftrightarrow> False"

lemma drain_left_alt:
  "drain_left p = length (p_channel p) + sum_list (map stages (map w_mode (p_workers p)))"
  by (simp add: drain_left_def o_def)

lemma drain_left_modes:
  "map w_mode (p_workers p') = map w_mode (p_workers p) \<Longrightarrow> length (p_channel p') = n \<Longrightarrow>
    drain_left p' + length (p_channel p) = drain_left p + n"
  unfolding drain_left_alt by simp

lemma drain_left_set:
  "i < length (p_workers p) \<Longrightarrow>
    drain_left (set_worker i wk p) + stages (w_mode (p_workers p ! i)) = drain_left p + stages (w_mode wk)"
  using sum_list_update_comm [of i "p_workers p" "\<lambda>wk. stages (w_mode wk)" wk]
  by (simp add: drain_left_def)

lemma receive_channel: "p_channel (receive conv copy env i p) = tl (p_channel p)"
  by (simp add: receive_def Let_def flush_frame split: list.split)

lemma stop_turn_decreases:
  assumes "worker_loop conv copy stopped i t p = Some p'" "stop_turn t"
  shows "drain_left p' < drain_left p"
proof -
  have i: "i < length (p_workers p)" using assms(1) by (auto simp: worker_loop_def split: if_splits)
  show ?thesis
  proof (cases t)
    case SeeStop
    then show ?thesis
      using assms(1) i drain_left_set [of i p "(p_workers p ! i)\<lparr>w_mode := Draining\<rparr>"]
      by (auto simp: worker_loop_def Let_def split: if_splits)
  next
    case (DrainOne env)
    then have "p' = receive conv copy env i p" "p_channel p \<noteq> []"
      using assms(1) i by (auto simp: worker_loop_def Let_def split: if_splits)
    then show ?thesis
      using drain_left_modes [OF receive_modes [OF i, of conv copy env], OF refl]
      by (cases "p_channel p") (auto simp: receive_channel)
  next
    case (DrainEnd env)
    let ?p = "flush copy env i p"
    have e: "p' = set_worker i ((p_workers ?p ! i)\<lparr>w_mode := Exited\<rparr>) ?p" "w_mode (p_workers p ! i) = Draining"
      using DrainEnd assms(1) i by (auto simp: worker_loop_def Let_def split: if_splits)
    have "w_mode (p_workers ?p ! i) = Draining" using i e by (simp add: flush_workers)
    moreover have "drain_left ?p = drain_left p"
      using drain_left_modes [OF flush_modes [OF i, of copy env], OF refl] by (simp add: flush_frame)
    ultimately show ?thesis
      using drain_left_set [of i ?p "(p_workers ?p ! i)\<lparr>w_mode := Exited\<rparr>"] i e
      by (simp add: flush_frame)
  qed (use assms in auto)
qed

lemma stop_turn_enabled:
  assumes "i < length (p_workers p)" "w_mode (p_workers p ! i) \<noteq> Exited"
  shows "\<exists>t p'. stop_turn t \<and> worker_loop conv copy True i t p = Some p'"
proof (cases "w_mode (p_workers p ! i)")
  case Running
  then have "\<exists>p'. worker_loop conv copy True i SeeStop p = Some p'"
    using assms by (simp add: worker_loop_def)
  then show ?thesis using stop_turn.simps by blast
next
  case Draining
  show ?thesis
  proof (cases "p_channel p = []")
    case True
    then have "\<exists>p'. worker_loop conv copy True i (DrainEnd undefined) p = Some p'"
      using Draining assms by (simp add: worker_loop_def Let_def)
    then show ?thesis using stop_turn.simps by blast
  next
    case False
    then have "\<exists>p'. worker_loop conv copy True i (DrainOne undefined) p = Some p'"
      using Draining assms by (simp add: worker_loop_def)
    then show ?thesis using stop_turn.simps by blast
  qed
qed (use assms in simp)

section \<open>Properties\<close>

text \<open>
  C3. Nothing enters a pipeline without being accounted for: in every reachable state of the
  writer each event of a call that returned nil is, exactly as often as it was accepted, in the
  channel, in a worker's batch, in a batch written without error, in a batch whose write failed,
  or among those that found the channel full; the channel never exceeds 1000 events, batches
  stay under 500 between turns, the counter is the number of events written, and every written
  event with an id and an instant is in the table. All this holds of both pipelines.
\<close>

theorem writer_accounts_for_events:
  assumes "writer_reach (NewDualEventWriterWithConfig n m spill t1 t2) w"
  shows "mset (p_accepted (op_pipe w)) = mset (map op_model (p_channel (op_pipe w)))
      + sum_list (map (\<lambda>wk. mset (w_batch wk)) (p_workers (op_pipe w)))
      + mset (p_written (op_pipe w)) + mset (p_failed (op_pipe w)) + mset (p_dropped (op_pipe w))
    \<and> mset (p_accepted (an_pipe w)) = mset (map an_model (p_channel (an_pipe w)))
      + sum_list (map (\<lambda>wk. mset (w_batch wk)) (p_workers (an_pipe w)))
      + mset (p_written (an_pipe w)) + mset (p_failed (an_pipe w)) + mset (p_dropped (an_pipe w))
    \<and> length (p_channel (op_pipe w)) \<le> 1000 \<and> length (p_channel (an_pipe w)) \<le> 1000
    \<and> (\<forall>wk \<in> set (p_workers (op_pipe w)). length (w_batch wk) < 500)
    \<and> (\<forall>wk \<in> set (p_workers (an_pipe w)). length (w_batch wk) < 500)
    \<and> p_processed (op_pipe w) = int (length (p_written (op_pipe w)))
    \<and> p_processed (an_pipe w) = int (length (p_written (an_pipe w)))
    \<and> (\<forall>e \<in> set (p_written (op_pipe w)). opm_ID e \<noteq> 0 \<and> opm_CreatedAt e \<noteq> zero_time \<longrightarrow>
        get_operational (opm_ID e) (p_table (op_pipe w)) \<noteq> None)
    \<and> (\<forall>e \<in> set (p_written (an_pipe w)). anm_ID e \<noteq> 0 \<and> anm_CreatedAt e \<noteq> zero_time \<longrightarrow>
        get_analytical (anm_CreatedAt e, anm_ID e) (p_table (an_pipe w)) \<noteq> None)"
  using writer_reach_inv [OF assms]
  unfolding writer_inv_def pipe_inv_def accounted_def batched_def worker_ok_def op_sink.stored_def
    an_sink.stored_def op_keyed_def an_keyed_def pipelineBufferSize_def batchSize_def
  by (auto simp: in_set_conv_nth)

text \<open>One call, whose operational event is in a batch and whose analytical event is written.\<close>

definition one_op :: operationalEvent where
  "one_op = \<lparr>oe_entity = \<lparr>op_ID = 7, op_EventType = ''t'', op_PlantSourceId = 1, op_Source = ''s'',
      op_Data = ''{}'', op_Metadata = [], op_CreatedAt = 5\<rparr>, oe_rawData = None\<rparr>"

definition one_an :: analyticalEvent where
  "one_an = \<lparr>ae_entity = \<lparr>an_CreatedAt = 5, an_ID = 7, an_EventType = ''t'', an_PlantSourceId = 1,
      an_Source = ''s'', an_Data = ''{}'', an_Metadata = []\<rparr>, ae_rawData = None\<rparr>"

definition one_call :: "action list" where
  "one_call = [CallCheck one_op one_an, CallSend, OpTurn 0 (Recv quiet_env), AnTurn 0 (Recv quiet_env), AnTurn 0 (Tick quiet_env)]"

theorem writer_accounts_for_events_witness:
  "\<exists>w. writer_reach (NewDualEventWriterWithConfig 1 1 True [] []) w
    \<and> p_accepted (op_pipe w) = [op_model one_op] \<and> p_written (an_pipe w) = [an_model one_an]
    \<and> sum_list (map (\<lambda>wk. mset (w_batch wk)) (p_workers (op_pipe w))) = {#op_model one_op#}
    \<and> get_analytical (anm_CreatedAt (an_model one_an), anm_ID (an_model one_an)) (p_table (an_pipe w)) \<noteq> None"
proof -
  let ?w0 = "NewDualEventWriterWithConfig 1 1 True [] []"
  have "\<exists>w. run_writer one_call ?w0 = Some w \<and> p_accepted (op_pipe w) = [op_model one_op] \<and> p_channel (op_pipe w) = []
      \<and> p_written (op_pipe w) = [] \<and> p_failed (op_pipe w) = [] \<and> p_dropped (op_pipe w) = []
      \<and> p_written (an_pipe w) = [an_model one_an]"
    by (simp add: one_call_def NewDualEventWriterWithConfig_def new_pipe_def operationalWorker_def analyticalWorker_def
        worker_loop_def Let_def flush_def set_worker_def offer_def pipelineBufferSize_def enqueue_both_def
        receive_def batchSize_def copyAnalyticalBatch_def quiet_env_def handleSpillover_def)
  then obtain w where w: "run_writer one_call ?w0 = Some w" "p_accepted (op_pipe w) = [op_model one_op]"
    "p_channel (op_pipe w) = []" "p_written (op_pipe w) = []" "p_failed (op_pipe w) = []" "p_dropped (op_pipe w) = []"
    "p_written (an_pipe w) = [an_model one_an]" by blast
  have r: "writer_reach ?w0 w" by (rule run_writer_reach [OF w(1)]) (rule writer_reach.start)
  have "anm_ID (an_model one_an) \<noteq> 0" "anm_CreatedAt (an_model one_an) \<noteq> zero_time"
    by (simp_all add: an_model_def one_an_def ToEventAnalyticalModel_def zero_time_def Second_def)
  with writer_accounts_for_events [OF r] r w show ?thesis by (intro exI [of _ w]) simp
qed

text \<open>
  A clean shutdown loses nothing: when \<open>Stop\<close> has returned and no call sent its event
  after the stop signal, both channels are empty and every accepted event was written, or was in
  a batch whose write failed, or was dropped at a full channel.
\<close>

theorem Stop_drains:
  assumes "writer_reach (NewDualEventWriterWithConfig n m spill t1 t2) w" "Stop_returned w"
    "p_late (op_pipe w) = []" "p_late (an_pipe w) = []"
  shows "p_channel (op_pipe w) = [] \<and> p_channel (an_pipe w) = []
    \<and> mset (p_accepted (op_pipe w)) =
        mset (p_written (op_pipe w)) + mset (p_failed (op_pipe w)) + mset (p_dropped (op_pipe w))
    \<and> mset (p_accepted (an_pipe w)) =
        mset (p_written (an_pipe w)) + mset (p_failed (an_pipe w)) + mset (p_dropped (an_pipe w))"
  using writer_reach_inv [OF assms(1)] writer_reach_workers [OF assms(1)] assms(2-4)
    exited_channel [of op_model "op_pipe w"] exited_channel [of an_model "an_pipe w"]
    accounted_done [of op_model "op_pipe w"] accounted_done [of an_model "an_pipe w"]
  by (simp add: writer_inv_def workers_up_def Stop_returned_def)

theorem Stop_drains_witness:
  "\<exists>w. writer_reach (NewDualEventWriterWithConfig 1 1 False [] []) w \<and> Stop_returned w
    \<and> p_channel (op_pipe w) = []"
proof -
  let ?w0 = "NewDualEventWriterWithConfig 1 1 False [] []"
  have "\<exists>w. run_writer shutdown_one ?w0 = Some w \<and> Stop_returned w
      \<and> p_late (op_pipe w) = [] \<and> p_late (an_pipe w) = []"
    by (simp add: shutdown_one_def NewDualEventWriterWithConfig_def new_pipe_def Stop_flag_def
        Stop_close_def operationalWorker_def analyticalWorker_def worker_loop_def Let_def flush_def
        set_worker_def Stop_returned_def all_exited_def)
  then obtain w where w: "run_writer shutdown_one ?w0 = Some w" "Stop_returned w"
    "p_late (op_pipe w) = []" "p_late (an_pipe w) = []" by blast
  have "writer_reach ?w0 w" by (rule run_writer_reach [OF w(1)]) (rule writer_reach.start)
  with Stop_drains [OF this w(2-4)] w(2) show ?thesis by blast
qed

text \<open>
  C36. The check of \<open>stopping\<close> and the send are not one step: a call that passes the check
  before \<open>Stop\<close> and sends after the workers have exited returns nil, and its event stays in the
  channel for good: \<open>Stop\<close> has returned, the event is in no table, and no worker can take a turn.
\<close>

theorem late_send_is_lost:
  "\<exists>w. writer_reach (NewDualEventWriterWithConfig 1 1 spill [] []) w \<and> Stop_returned w
    \<and> p_accepted (op_pipe w) = [op_model ev1] \<and> p_channel (op_pipe w) = [ev1]
    \<and> p_table (op_pipe w) = [] \<and> (\<forall>i t. operationalWorker (stopChan_closed w) i t (op_pipe w) = None)"
proof -
  let ?w0 = "NewDualEventWriterWithConfig 1 1 spill [] []"
  have "\<exists>w. run_writer (CallCheck ev1 ev2 # shutdown_one @ [CallSend]) ?w0 = Some w \<and> Stop_returned w
      \<and> p_accepted (op_pipe w) = [op_model ev1] \<and> p_channel (op_pipe w) = [ev1]
      \<and> p_table (op_pipe w) = []"
    by (simp add: shutdown_one_def NewDualEventWriterWithConfig_def new_pipe_def Stop_flag_def
        Stop_close_def operationalWorker_def analyticalWorker_def worker_loop_def Let_def flush_def
        set_worker_def Stop_returned_def all_exited_def offer_def pipelineBufferSize_def)
  moreover have "operationalWorker (stopChan_closed w) i t (op_pipe w) = None" if "Stop_returned w" for w i t
    using that by (simp add: operationalWorker_def Stop_returned_def exited_no_turn)
  ultimately show ?thesis using run_writer_reach writer_reach.start by blast
qed

text \<open>
  What a full channel costs depends on the raw data. \<open>SaveEventAsync\<close> passes none, so with
  the operational channel full it returns nil, the event enters no operational channel and the
  spillover callback is not called; \<open>SaveEventAsyncWithRaw\<close> with raw data calls it exactly once.
\<close>

theorem full_channel_spillover:
  assumes "\<not> stopping w" "length (p_channel (op_pipe w)) = 1000"
  shows "(\<exists>w'. SaveEventAsync us op an w = (None, w')
      \<and> p_channel (op_pipe w') = p_channel (op_pipe w) \<and> p_table (op_pipe w') = p_table (op_pipe w)
      \<and> spilled w' = spilled w)
    \<and> (\<exists>w'. SaveEventAsyncWithRaw us op an (Some b) w = (None, w')
      \<and> p_channel (op_pipe w') = p_channel (op_pipe w)
      \<and> spilled w' = spilled w @ (if spilloverFunc w then [(b, ''operational pipeline full'')] else []))"
  using assms
  by (auto simp: SaveEventAsync_def SaveEventAsyncWithRaw_def enqueue_both_def Let_def offer_def
      pipelineBufferSize_def handleSpillover_def)

text \<open>A writer whose operational channel holds 1000 copies of an event, for the examples.\<close>

definition full_writer :: "EventOperational \<Rightarrow> DualEventWriter" where
  "full_writer op =
     (let w = NewDualEventWriterWithConfig 1 1 True [] []
      in w\<lparr>op_pipe := (op_pipe w)\<lparr>p_channel := replicate 1000 \<lparr>oe_entity = op, oe_rawData = None\<rparr>\<rparr>\<rparr>)"

theorem full_channel_spillover_witness:
  "\<forall>us op an. \<exists>w'. SaveEventAsync us op an (full_writer op) = (None, w') \<and> spilled w' = []"
proof (intro allI)
  fix us op an
  have f: "\<not> stopping (full_writer op)" "length (p_channel (op_pipe (full_writer op))) = 1000"
    "spilled (full_writer op) = []"
    by (simp_all add: full_writer_def NewDualEventWriterWithConfig_def Let_def)
  with full_channel_spillover [OF f(1,2), of us op an "[]"] show
    "\<exists>w'. SaveEventAsync us op an (full_writer op) = (None, w') \<and> spilled w' = []" by auto
qed

text \<open>
  A synchronous save that fails half way can be repeated: when the operational insert
  succeeded and the analytical one did not, the error is returned, and the same call without a
  fault stores the analytical event and leaves the operational table as the first call made it.
\<close>

theorem SaveEvent_retry:
  assumes "op_keyed (ToEventOperationalModel op)" "an_keyed (ToEventAnalyticalModel an)"
  shows "\<exists>ot. SaveEvent None (Some err) now fresh op an op_tbl an_tbl = (Some err, ot, an_tbl)
    \<and> (\<exists>at. SaveEvent None None now' fresh' op an ot an_tbl = (None, ot, at)
        \<and> get_operational (op_ID op) ot \<noteq> None
        \<and> get_analytical (an_CreatedAt an, an_ID an) at \<noteq> None)"
proof -
  let ?o = "ToEventOperationalModel op" and ?a = "ToEventAnalyticalModel an"
  let ?ot = "insert_operational ?o op_tbl"
  have "insert_operational ?o ?ot = ?ot" by (simp add: insert_operational_def)
  moreover have "get_operational (opm_ID ?o) (fold insert_operational [?o] op_tbl) \<noteq> None"
    by (rule op_store.get_fold_in) simp
  moreover have "get_analytical (anm_CreatedAt ?a, anm_ID ?a) (fold insert_analytical [?a] an_tbl) \<noteq> None"
    by (rule an_store.get_fold_in) simp
  ultimately show ?thesis
    using assms by (simp add: SaveEvent_def Let_def ToEventOperationalModel_def ToEventAnalyticalModel_def)
qed

theorem SaveEvent_retry_witness:
  "\<exists>ot. SaveEvent None (Some ErrInternal) 1 (\<lambda>i. 1)
      \<lparr>op_ID = 7, op_EventType = ''t'', op_PlantSourceId = 1, op_Source = ''s'', op_Data = ''{}'',
        op_Metadata = [], op_CreatedAt = 5\<rparr>
      \<lparr>an_CreatedAt = 5, an_ID = 7, an_EventType = ''t'', an_PlantSourceId = 1, an_Source = ''s'',
        an_Data = ''{}'', an_Metadata = []\<rparr> [] [] = (Some ErrInternal, ot, [])
    \<and> get_operational 7 ot \<noteq> None"
proof -
  let ?o = "\<lparr>op_ID = 7, op_EventType = ''t'', op_PlantSourceId = 1, op_Source = ''s'', op_Data = ''{}'',
      op_Metadata = [], op_CreatedAt = 5\<rparr>"
  let ?a = "\<lparr>an_CreatedAt = 5, an_ID = 7, an_EventType = ''t'', an_PlantSourceId = 1, an_Source = ''s'',
      an_Data = ''{}'', an_Metadata = []\<rparr>"
  have "op_keyed (ToEventOperationalModel ?o)" "an_keyed (ToEventAnalyticalModel ?a)"
    by (simp_all add: op_keyed_def an_keyed_def ToEventOperationalModel_def ToEventAnalyticalModel_def
        zero_time_def Second_def)
  from SaveEvent_retry [OF this, of ErrInternal 1 "\<lambda>i. 1" "[]" "[]" 1 "\<lambda>i. 1"] show ?thesis by auto
qed

text \<open>
  The shutdown makes progress: once the stop signal is given, a worker that has not exited
  always has a turn of its stop branch to take, and every such turn reduces the number of queued
  events plus the stages the workers have left, so the workers cannot drain for ever.
\<close>

theorem shutdown_progress:
  assumes "i < length (p_workers p)" "w_mode (p_workers p ! i) \<noteq> Exited"
  shows "(\<exists>t p'. stop_turn t \<and> worker_loop conv copy True i t p = Some p')
    \<and> (\<forall>t p'. stop_turn t \<longrightarrow> worker_loop conv copy True i t p = Some p' \<longrightarrow> drain_left p' < drain_left p)"
  using stop_turn_enabled [OF assms] stop_turn_decreases by blast

theorem shutdown_progress_witness:
  "\<exists>t p'. stop_turn t \<and> worker_loop op_model copyOperationalBatch True 0 t (new_pipe 1 []) = Some p'"
proof -
  have "0 < length (p_workers (new_pipe 1 [] :: (operationalEvent, EventOperationalModel) pipe))"
    "w_mode (p_workers (new_pipe 1 [] :: (operationalEvent, EventOperationalModel) pipe) ! 0) \<noteq> Exited"
    by (simp_all add: new_pipe_def)
  from shutdown_progress [OF this] show ?thesis by blast
qed

end
