(* ===== verification/Go_Sha256.thy ===== *)
theory Go_Sha256
  imports Prelude
begin

text \<open>
  \<open>crypto/sha256\<close>: \<open>Sum256\<close>, on 32-bit words with wrap-around, as FIPS 180-4 has it: padding,
  the message schedule, 64 rounds per block, and the digest as 32 bytes.
\<close>

unbundle bit_operations_syntax

definition rotr :: "nat \<Rightarrow> 32 word \<Rightarrow> 32 word" where
  "rotr n w = drop_bit n w OR push_bit (32 - n) w"

definition small_sigma0 :: "32 word \<Rightarrow> 32 word" where
  "small_sigma0 x = rotr 7 x XOR rotr 18 x XOR drop_bit 3 x"

definition small_sigma1 :: "32 word \<Rightarrow> 32 word" where
  "small_sigma1 x = rotr 17 x XOR rotr 19 x XOR drop_bit 10 x"

definition big_sigma0 :: "32 word \<Rightarrow> 32 word" where
  "big_sigma0 x = rotr 2 x XOR rotr 13 x XOR rotr 22 x"

definition big_sigma1 :: "32 word \<Rightarrow> 32 word" where
  "big_sigma1 x = rotr 6 x XOR rotr 11 x XOR rotr 25 x"

text \<open>
  The constants are the first 32 bits of the fractions of the cube roots (round constants) and
  square roots (initial state) of the first primes: \<open>root_below k b r n\<close> is the greatest number that
  adds to \<open>r\<close> bits below \<open>b\<close> with a \<open>k\<close>-th power at most \<open>n\<close>.
\<close>

fun root_below :: "nat \<Rightarrow> nat \<Rightarrow> int \<Rightarrow> int \<Rightarrow> int" where
  "root_below k 0 r n = r"
| "root_below k (Suc b) r n =
     (if (r + 2 ^ b) ^ k \<le> n then root_below k b (r + 2 ^ b) n else root_below k b r n)"

definition root_fraction :: "nat \<Rightarrow> int \<Rightarrow> 32 word" where
  "root_fraction k p = word_of_int (root_below k 40 0 (p * 2 ^ (32 * k)))"

definition first_primes :: "int list" where
  "first_primes =
     filter (\<lambda>n. list_all (\<lambda>d. n mod d \<noteq> 0) (filter (\<lambda>d. d < n) [2, 3, 5, 7, 11, 13, 17])) [2..311]"

definition sha_K :: "32 word list" where
  "sha_K = map (root_fraction 3) first_primes"

definition sha_init :: "32 word list" where
  "sha_init = map (root_fraction 2) (take 8 first_primes)"

fun byte_words :: "bytes \<Rightarrow> 32 word list" where
  "byte_words (a # b # c # d # s) =
     (((of_char a * 256 + of_char b) * 256 + of_char c) * 256 + of_char d) # byte_words s"
| "byte_words _ = []"

definition word_bytes :: "32 word \<Rightarrow> bytes" where
  "word_bytes w = map (\<lambda>n. char_of (unat (drop_bit n w) mod 256)) [24, 16, 8, 0]"

definition length_bytes :: "nat \<Rightarrow> bytes" where
  "length_bytes n = map (\<lambda>k. char_of (n * 8 div 256 ^ k mod 256)) [7, 6, 5, 4, 3, 2, 1, 0]"

definition sha_pad :: "bytes \<Rightarrow> bytes" where
  "sha_pad s = s @ [char_of (128::nat)] @ replicate ((119 - length s mod 64) mod 64) (char_of (0::nat))
     @ length_bytes (length s)"

text \<open>The schedule, newest word first.\<close>

fun sha_schedule :: "nat \<Rightarrow> 32 word list \<Rightarrow> 32 word list" where
  "sha_schedule 0 ws = ws"
| "sha_schedule (Suc n) ws =
     sha_schedule n ((small_sigma1 (ws ! 1) + ws ! 6 + small_sigma0 (ws ! 14) + ws ! 15) # ws)"

fun sha_round :: "32 word \<times> 32 word \<Rightarrow> 32 word list \<Rightarrow> 32 word list" where
  "sha_round (k, w) [a, b, c, d, e, f, g, h] =
     (let t1 = h + big_sigma1 e + ((e AND f) XOR (NOT e AND g)) + k + w;
          t2 = big_sigma0 a + ((a AND b) XOR (a AND c) XOR (b AND c))
      in [t1 + t2, a, b, c, d + t1, e, f, g])"
| "sha_round _ st = st"

definition sha_block :: "32 word list \<Rightarrow> 32 word list \<Rightarrow> 32 word list" where
  "sha_block ws st = map2 (+) st (fold sha_round (zip sha_K (rev (sha_schedule 48 (rev ws)))) st)"

fun sha_blocks :: "nat \<Rightarrow> 32 word list \<Rightarrow> 32 word list \<Rightarrow> 32 word list" where
  "sha_blocks 0 ws st = st"
| "sha_blocks (Suc n) ws st = sha_blocks n (drop 16 ws) (sha_block (take 16 ws) st)"

definition Sum256 :: "bytes \<Rightarrow> bytes" where
  "Sum256 s =
     (let ws = byte_words (sha_pad s)
      in concat (map word_bytes (sha_blocks (length ws div 16) ws sha_init)))"

end
