(* ===== verification/Event_Ingestion.thy ===== *)
theory Event_Ingestion
  imports Alert_Evaluation Dual_Event_Writer Go_Sha256
begin

text \<open>
  \<open>internal/domain/services/event_ingestion_service.go\<close>, the entity it validates
  (\<open>internal/domain/entities/event_data.go\<close>) and the Kafka message handler in front of it
  (\<open>internal/api/intake_handler.go\<close>).

  The service sees the plant repository, the writer and the status repository through the ports
  of \<open>ports/output/interfaces.go\<close>: a record of functions on the state \<^typ>\<open>'s\<close> behind them.
  The Telegram notifier and the Prometheus counters, which it shares with other parts, are in
  its state. Third-party functions are the fields of \<open>libs\<close>; \<open>clock\<close> is what one call reads of
  the time.
\<close>

section \<open>Event data\<close>

text \<open>\<open>encoding/json\<close> matches a key with a field's name up to Unicode case folding.\<close>

definition fold_name :: "string \<Rightarrow> string" where
  "fold_name key =
     concat (map (\<lambda>r. case r of
                        [c] \<Rightarrow> [if byte_in 97 122 c then char_of ((of_char c :: nat) - 32) else c]
                      | _ \<Rightarrow> if r = encode_rune 0x17F then ''S''
                             else if r = encode_rune 0x212A then ''K'' else r)
             (chunks key))"

definition float_member :: "json \<Rightarrow> float64 option option" where
  "float_member v =
     (case v of
        JNull \<Rightarrow> Some None
      | JNumber n \<Rightarrow> map_option Some (number_val n)
      | _ \<Rightarrow> None)"

text \<open>
  One member of the object; \<^const>\<open>None\<close> is a value of the wrong type, which makes the whole
  \<open>Unmarshal\<close> an error.
\<close>

definition set_member :: "EventData \<Rightarrow> string \<times> json \<Rightarrow> EventData option" where
  "set_member d kv =
     (let k = fold_name (fst kv); v = float_member (snd kv)
      in if k = fold_name ''power_generated_mw'' then map_option (\<lambda>x. d\<lparr>PowerGeneratedMW := x\<rparr>) v
         else if k = fold_name ''power_consumed_mw'' then map_option (\<lambda>x. d\<lparr>PowerConsumedMW := x\<rparr>) v
         else if k = fold_name ''efficiency_percent'' then map_option (\<lambda>x. d\<lparr>EfficiencyPercent := x\<rparr>) v
         else if k = fold_name ''temperature_celsius'' then map_option (\<lambda>x. d\<lparr>TemperatureCelsius := x\<rparr>) v
         else Some d)"

fun set_members :: "EventData \<Rightarrow> (string \<times> json) list \<Rightarrow> EventData option" where
  "set_members d [] = Some d"
| "set_members d (kv # ms) = Option.bind (set_member d kv) (\<lambda>d. set_members d ms)"

definition no_EventData :: EventData where
  "no_EventData = \<lparr>PowerGeneratedMW = None, PowerConsumedMW = None, EfficiencyPercent = None,
     TemperatureCelsius = None\<rparr>"

text \<open>\<open>json.Unmarshal(rawData, &eventData)\<close>; \<^const>\<open>None\<close> is an error.\<close>

definition Unmarshal_EventData :: "bytes \<Rightarrow> EventData option" where
  "Unmarshal_EventData raw =
     (case json_parse raw of
        Some (JObject ms) \<Rightarrow> set_members no_EventData ms
      | Some JNull \<Rightarrow> Some no_EventData
      | _ \<Rightarrow> None)"

text \<open>The struct tags: \<open>omitempty,gte=0\<close>, \<open>omitempty,gte=0\<close>, \<open>omitempty,gte=0,lte=100\<close>, none.\<close>

definition tags_ok :: "EventData \<Rightarrow> bool" where
  "tags_ok d \<longleftrightarrow>
     (case PowerGeneratedMW d of None \<Rightarrow> True | Some v \<Rightarrow> f64_le f64_zero v)
     \<and> (case PowerConsumedMW d of None \<Rightarrow> True | Some v \<Rightarrow> f64_le f64_zero v)
     \<and> (case EfficiencyPercent d of None \<Rightarrow> True | Some v \<Rightarrow> f64_le f64_zero v \<and> f64_le v f64_100)"

section \<open>State\<close>

datatype metric =
    EventsValidationErrors string
  | EventsIngestedTotal string string string
  | PlantStatusUpdates string string
  | EventProcessingDuration string
  | KafkaDLQSendsTotal string string
  | KafkaRetryAttemptsTotal string

text \<open>
  \<open>validate\<close> is \<open>validator.New().Struct\<close> on the tags of \<open>EventData\<close>, \<open>NewSHA1\<close> the version 5
  UUID of a name space and a name, \<open>gj\<close> is \<open>gjson.GetBytes\<close>; \<open>json_txt\<close> gives the texts of the
  errors of \<open>encoding/json\<close>.
\<close>

record libs =
  uuid_Parse :: "string \<Rightarrow> goerr + uuid"
  uuid_String :: "uuid \<Rightarrow> string"
  NewSHA1 :: "uuid \<Rightarrow> bytes \<Rightarrow> uuid"
  validate :: "EventData \<Rightarrow> goerr option"
  gj :: "bytes \<Rightarrow> string \<Rightarrow> goval option"
  json_txt :: "bytes \<Rightarrow> string"

record 's ports =
  plant_Exists :: "uuid \<Rightarrow> 's \<Rightarrow> (goerr + bool) \<times> 's"
  writer_SaveEvent :: "EventOperational \<Rightarrow> EventAnalytical \<Rightarrow> 's \<Rightarrow> goerr option \<times> 's"
  writer_SaveEventAsync :: "EventOperational \<Rightarrow> EventAnalytical \<Rightarrow> 's \<Rightarrow> goerr option \<times> 's"
  status_Upsert :: "(PlantCurrentStatus \<Rightarrow> 's \<Rightarrow> goerr option \<times> 's) option"

record EventIngestionService =
  alertEvaluator :: "AlertEvaluationService option"
  useAsyncWrite :: bool

record 's ingest =
  world :: 's
  notifier :: Notifier
  metrics :: "metric list"

record clock =
  ck_created :: time   \<comment> \<open>\<open>now\<close> in \<open>buildEventEntities\<close>\<close>
  ck_event_at :: time  \<comment> \<open>the two readings in \<open>updatePlantStatus\<close>\<close>
  ck_updated :: time
  ck_stamp :: string   \<comment> \<open>the formatted time in a notification\<close>

definition NewEventIngestionService :: "AlertEvaluationService option \<Rightarrow> bool \<Rightarrow> EventIngestionService" where
  "NewEventIngestionService ev async = \<lparr>alertEvaluator = ev, useAsyncWrite = async\<rparr>"

definition Inc :: "metric \<Rightarrow> 's ingest \<Rightarrow> 's ingest" where
  "Inc m st = st\<lparr>metrics := metrics st @ [m]\<rparr>"

definition tell :: "goerr option \<times> Notifier \<Rightarrow> 's ingest \<Rightarrow> 's ingest" where
  "tell r st = st\<lparr>notifier := snd r\<rparr>"

text \<open>The type assertion \<open>data[k].(string)\<close>.\<close>

definition str_field :: "gomap \<Rightarrow> string \<Rightarrow> string option" where
  "str_field data k = (case map_of data k of Some (GString s) \<Rightarrow> Some s | _ \<Rightarrow> None)"

definition NameSpaceDNS :: uuid where
  "NameSpaceDNS = 0x6ba7b8109dad11d180b400c04fd430c8"

definition deterministicID :: "libs \<Rightarrow> bytes \<Rightarrow> uuid" where
  "deterministicID L payload = NewSHA1 L NameSpaceDNS (Sum256 payload)"

section \<open>The stages of an event\<close>

definition extractAndValidatePlantInfo ::
  "libs \<Rightarrow> clock \<Rightarrow> gomap \<Rightarrow> 's ingest \<Rightarrow> (goerr + uuid \<times> string \<times> string) \<times> 's ingest" where
  "extractAndValidatePlantInfo L ck data st =
     (let eventType = (case str_field data ''event_type'' of Some et \<Rightarrow> et | None \<Rightarrow> ''unknown'');
          source = (case str_field data ''plant_name'' of Some pn \<Rightarrow> pn | None \<Rightarrow> ''kafka-intake'')
      in case str_field data ''plant_source_id'' of
           Some idStr \<Rightarrow>
             (case uuid_Parse L idStr of
                Inl err \<Rightarrow>
                  (Inl (NewPermanentError ''invalid plant_source_id format'' (Some err)),
                   tell (SendUUIDError (ck_stamp ck) (notifier st) ''plant_source_id'' idStr
                           (''Error al parsear UUID: '' @ Error err @ ''. EventType: '' @ eventType
                            @ '', PlantName: '' @ source))
                     (Inc (EventsValidationErrors ''invalid_uuid'') st))
              | Inr plantSourceId \<Rightarrow> (Inr (plantSourceId, eventType, source), st))
         | None \<Rightarrow>
             (Inl (NewPermanentError ''missing plant_source_id field'' None),
              tell (SendValidationError (ck_stamp ck) (notifier st) ''plant_source_id'' ''missing field''
                      (''The plant_source_id field is not present in the message. EventType: ''
                       @ eventType @ '', PlantName: '' @ source))
                (Inc (EventsValidationErrors ''missing_plant_id'') st)))"

definition validatePlantExists ::
  "libs \<Rightarrow> 's ports \<Rightarrow> clock \<Rightarrow> uuid \<Rightarrow> 's ingest \<Rightarrow> goerr option \<times> 's ingest" where
  "validatePlantExists L P ck plantSourceId st =
     (let (r, w) = plant_Exists P plantSourceId (world st); st = st\<lparr>world := w\<rparr>
      in case r of
           Inl err \<Rightarrow>
             (Some (NewTransientError ''database error checking plant existence'' (Some err)),
              Inc (EventsValidationErrors ''db_error'') st)
         | Inr exists \<Rightarrow>
             (if \<not> exists
              then (Some (NewTransientError
                            (''plant_source_id='' @ uuid_String L plantSourceId @ '' does not exist'') None),
                    tell (SendValidationError (ck_stamp ck) (notifier st) ''plant_source_id''
                            (uuid_String L plantSourceId)
                            (''La planta con ID '' @ uuid_String L plantSourceId
                             @ '' no existe en la base de datos''))
                      (Inc (EventsValidationErrors ''plant_not_found'') st))
              else (None, st)))"

definition validateEventData ::
  "libs \<Rightarrow> clock \<Rightarrow> gomap \<Rightarrow> string \<Rightarrow> 's ingest \<Rightarrow> goerr option \<times> 's ingest" where
  "validateEventData L ck data eventType st =
     (case Marshal (GMap data) of
        None \<Rightarrow> (None, st)
      | Some rawData \<Rightarrow>
          (case Unmarshal_EventData rawData of
             None \<Rightarrow> (None, st)
           | Some eventData \<Rightarrow>
               (case validate L eventData of
                  None \<Rightarrow> (None, st)
                | Some err \<Rightarrow>
                    (Some (NewPermanentError ''event data validation failed'' (Some err)),
                     tell (SendValidationError (ck_stamp ck) (notifier st) ''event_data''
                             ''validation failed''
                             (''Validation error for event type '' @ eventType @ '': '' @ Error err))
                       (Inc (EventsValidationErrors ''validation_failed'') st)))))"

definition event_id :: "libs \<Rightarrow> bytes \<Rightarrow> gomap \<Rightarrow> uuid" where
  "event_id L payload data =
     (case str_field data ''id'' of
        Some idStr \<Rightarrow>
          (case uuid_Parse L idStr of Inr parsed \<Rightarrow> parsed | Inl err \<Rightarrow> deterministicID L payload)
      | None \<Rightarrow> deterministicID L payload)"

definition buildEventEntities ::
  "libs \<Rightarrow> clock \<Rightarrow> bytes \<Rightarrow> gomap \<Rightarrow> uuid \<Rightarrow> string \<Rightarrow> string \<Rightarrow> EventOperational \<times> EventAnalytical" where
  "buildEventEntities L ck payload data plantSourceId eventType source =
     (let now = ck_created ck; eventId = event_id L payload data
      in (\<lparr>op_ID = eventId, op_EventType = eventType, op_PlantSourceId = plantSourceId,
           op_Source = source, op_Data = payload, op_Metadata = [], op_CreatedAt = now\<rparr>,
          \<lparr>an_CreatedAt = now, an_ID = eventId, an_EventType = eventType,
           an_PlantSourceId = plantSourceId, an_Source = source, an_Data = payload, an_Metadata = []\<rparr>))"

definition persistEvents ::
  "libs \<Rightarrow> 's ports \<Rightarrow> EventIngestionService \<Rightarrow> EventOperational \<Rightarrow> EventAnalytical \<Rightarrow> 's ingest
   \<Rightarrow> goerr option \<times> 's ingest" where
  "persistEvents L P s eventOp eventAn st =
     (let (r, w) = (if useAsyncWrite s then writer_SaveEventAsync P eventOp eventAn (world st)
                    else writer_SaveEvent P eventOp eventAn (world st));
          st = st\<lparr>world := w\<rparr>
      in case r of
           None \<Rightarrow> (None, st)
         | Some err \<Rightarrow>
             (Some (NewTransientError (if useAsyncWrite s then ''async save failed'' else ''sync save failed'')
                      (Some err)),
              Inc (EventsIngestedTotal (op_EventType eventOp) (uuid_String L (op_PlantSourceId eventOp))
                       ''failed'') st))"

definition plant_status :: "clock \<Rightarrow> uuid \<Rightarrow> string \<Rightarrow> bytes \<Rightarrow> gomap \<Rightarrow> PlantCurrentStatus" where
  "plant_status ck plantSourceId eventType payload data =
     \<lparr>ps_PlantID = plantSourceId, ps_LastEventData = payload,
      ps_CurrentStatus =
        (case str_field data ''current_status'' of
           Some status \<Rightarrow> if status \<noteq> [] then status else ''ACTIVE''
         | None \<Rightarrow> ''ACTIVE''),
      ps_LastEventType = eventType, ps_LastEventAt = ck_event_at ck, ps_UpdatedAt = ck_updated ck\<rparr>"

definition updatePlantStatus ::
  "libs \<Rightarrow> 's ports \<Rightarrow> clock \<Rightarrow> uuid \<Rightarrow> string \<Rightarrow> bytes \<Rightarrow> gomap \<Rightarrow> 's ingest \<Rightarrow> 's ingest" where
  "updatePlantStatus L P ck plantSourceId eventType payload data st =
     (case status_Upsert P of
        None \<Rightarrow> st
      | Some upsert \<Rightarrow>
          (let status = plant_status ck plantSourceId eventType payload data;
               (r, w) = upsert status (world st); st = st\<lparr>world := w\<rparr>
           in case r of
                Some err \<Rightarrow> st
              | None \<Rightarrow> Inc (PlantStatusUpdates (uuid_String L plantSourceId) (ps_CurrentStatus status)) st))"

definition evaluate_alerts ::
  "libs \<Rightarrow> clock \<Rightarrow> EventIngestionService \<Rightarrow> string \<Rightarrow> gomap \<Rightarrow> 's ingest \<Rightarrow> 's ingest" where
  "evaluate_alerts L ck s eventType data st =
     (case alertEvaluator s of
        None \<Rightarrow> st
      | Some ev \<Rightarrow>
          (let plantName = (case str_field data ''plant_name'' of Some pn \<Rightarrow> pn | None \<Rightarrow> ''unknown'')
           in case EvaluateEvent (gj L) (ck_stamp ck) ev eventType plantName data (Some (notifier st)) of
                Some n \<Rightarrow> st\<lparr>notifier := n\<rparr>
              | None \<Rightarrow> st))"

text \<open>\<open>data\<close> is an option: \<^const>\<open>None\<close> is the nil map.\<close>

definition ProcessEvent ::
  "libs \<Rightarrow> 's ports \<Rightarrow> clock \<Rightarrow> EventIngestionService \<Rightarrow> bytes \<Rightarrow> gomap option \<Rightarrow> 's ingest
   \<Rightarrow> goerr option \<times> 's ingest" where
  "ProcessEvent L P ck s payload data st =
     (case data of
        None \<Rightarrow> (Some (NewPermanentError ''empty event data'' None),
                 Inc (EventsValidationErrors ''empty_data'') st)
      | Some [] \<Rightarrow> (Some (NewPermanentError ''empty event data'' None),
                 Inc (EventsValidationErrors ''empty_data'') st)
      | Some data \<Rightarrow>
          (case extractAndValidatePlantInfo L ck data st of
             (Inl err, st) \<Rightarrow> (Some err, st)
           | (Inr (plantSourceId, eventType, source), st) \<Rightarrow>
               (case validatePlantExists L P ck plantSourceId st of
                  (Some err, st) \<Rightarrow> (Some err, st)
                | (None, st) \<Rightarrow>
                    (case validateEventData L ck data eventType st of
                       (Some err, st) \<Rightarrow> (Some err, st)
                     | (None, st) \<Rightarrow>
                         (let (eventOp, eventAn) =
                                buildEventEntities L ck payload data plantSourceId eventType source
                          in case persistEvents L P s eventOp eventAn st of
                               (Some err, st) \<Rightarrow> (Some err, st)
                             | (None, st) \<Rightarrow>
                                 (let st = updatePlantStatus L P ck plantSourceId eventType payload data st;
                                      st = evaluate_alerts L ck s eventType data st
                                  in (None,
                                      Inc (EventProcessingDuration eventType)
                                        (Inc (EventsIngestedTotal eventType
                                                  (uuid_String L plantSourceId) ''success'') st))))))))"

section \<open>The message handler\<close>

definition HandleMessage ::
  "libs \<Rightarrow> 's ports \<Rightarrow> clock \<Rightarrow> EventIngestionService \<Rightarrow> bytes \<Rightarrow> 's ingest \<Rightarrow> goerr option \<times> 's ingest" where
  "HandleMessage L P ck s message st =
     (case Unmarshal_map (json_txt L) message of
        Inl err \<Rightarrow>
          (Some (NewPermanentError ''invalid JSON'' (Some err)),
           Inc (EventsValidationErrors ''invalid_json'') st)
      | Inr data \<Rightarrow> ProcessEvent L P ck s message data st)"

section \<open>The outcome of an event, stage by stage\<close>

text \<open>What each stage decides, apart from the state it updates.\<close>

definition plant_info :: "libs \<Rightarrow> gomap \<Rightarrow> goerr + uuid \<times> string \<times> string" where
  "plant_info L data = fst (extractAndValidatePlantInfo L undefined data
     \<lparr>world = (), notifier = NewNotifier [] [] False, metrics = []\<rparr>)"

definition data_error :: "libs \<Rightarrow> gomap \<Rightarrow> goerr option" where
  "data_error L data =
     (case Option.bind (Marshal (GMap data)) Unmarshal_EventData of
        None \<Rightarrow> None
      | Some d \<Rightarrow> map_option (\<lambda>e. PermanentError ''event data validation failed'' (Some e)) (validate L d))"

definition exists_error :: "libs \<Rightarrow> 's ports \<Rightarrow> uuid \<Rightarrow> 's \<Rightarrow> goerr option" where
  "exists_error L P pid w =
     (case fst (plant_Exists P pid w) of
        Inl err \<Rightarrow> (Some (TransientError ''database error checking plant existence'' (Some err)))
      | Inr found \<Rightarrow>
          (if found then None
           else Some (TransientError (''plant_source_id='' @ uuid_String L pid @ '' does not exist'') None)))"

definition save :: "'s ports \<Rightarrow> bool \<Rightarrow> EventOperational \<times> EventAnalytical \<Rightarrow> 's \<Rightarrow> goerr option \<times> 's" where
  "save P async ev = (if async then writer_SaveEventAsync P else writer_SaveEvent P) (fst ev) (snd ev)"

definition upserted :: "'s ports \<Rightarrow> PlantCurrentStatus \<Rightarrow> 's \<Rightarrow> 's" where
  "upserted P status w = (case status_Upsert P of None \<Rightarrow> w | Some f \<Rightarrow> snd (f status w))"

lemma world_simps [simp, frame]:
  "world (Inc m st) = world st" "world (tell r st) = world st"
  "notifier (Inc m st) = notifier st" "notifier (tell r st) = snd r"
  by (simp_all add: Inc_def tell_def)

lemma extract_fst [simp]: "fst (extractAndValidatePlantInfo L ck data st) = plant_info L data"
  by (simp add: plant_info_def extractAndValidatePlantInfo_def Let_def split: option.split sum.split)

lemma extract_world [simp, frame]:
  "world (snd (extractAndValidatePlantInfo L ck data st)) = world st"
  "plant_info L data = Inr r \<Longrightarrow> snd (extractAndValidatePlantInfo L ck data st) = st"
  by (auto simp: plant_info_def extractAndValidatePlantInfo_def Let_def split: option.splits sum.splits)

lemma exists_fst [simp]: "fst (validatePlantExists L P ck pid st) = exists_error L P pid (world st)"
  by (simp add: validatePlantExists_def exists_error_def Let_def NewTransientError_def
      split: prod.split sum.split)

lemma exists_world [simp, frame]:
  "world (snd (validatePlantExists L P ck pid st)) = snd (plant_Exists P pid (world st))"
  by (simp add: validatePlantExists_def Let_def split: prod.split sum.split)

lemma validate_fst [simp]: "fst (validateEventData L ck data et st) = data_error L data"
  by (auto simp: validateEventData_def data_error_def NewPermanentError_def split: option.split)

lemma validate_world [simp, frame]: "world (snd (validateEventData L ck data et st)) = world st"
  by (simp add: validateEventData_def split: option.split)

lemma persist_fst [simp]:
  "fst (persistEvents L P s op an st) =
    map_option (\<lambda>e. TransientError (if useAsyncWrite s then ''async save failed'' else ''sync save failed'') (Some e))
      (fst (save P (useAsyncWrite s) (op, an) (world st)))"
  by (simp add: persistEvents_def save_def Let_def NewTransientError_def split: prod.split option.split)

lemma persist_world [simp, frame]:
  "world (snd (persistEvents L P s op an st)) = snd (save P (useAsyncWrite s) (op, an) (world st))"
  by (simp add: persistEvents_def save_def Let_def split: prod.split option.split)

lemma update_world [simp, frame]:
  "world (updatePlantStatus L P ck pid et payload data st) =
    upserted P (plant_status ck pid et payload data) (world st)"
  by (simp add: updatePlantStatus_def upserted_def Let_def split: option.split prod.split)

lemma alerts_world [simp, frame]: "world (evaluate_alerts L ck s et data st) = world st"
  by (simp add: evaluate_alerts_def Let_def split: option.split)

text \<open>The event as one function of the stages: the result, and the world it leaves.\<close>

lemma ProcessEvent_empty [simp]:
  "ProcessEvent L P ck s payload None st =
    (Some (PermanentError ''empty event data'' None), Inc (EventsValidationErrors ''empty_data'') st)"
  "ProcessEvent L P ck s payload (Some []) st =
    (Some (PermanentError ''empty event data'' None), Inc (EventsValidationErrors ''empty_data'') st)"
  by (simp_all add: ProcessEvent_def NewPermanentError_def)

lemma ProcessEvent_stages:
  assumes "data \<noteq> []"
  shows "(fst (ProcessEvent L P ck s payload (Some data) st),
      world (snd (ProcessEvent L P ck s payload (Some data) st))) =
    (case plant_info L data of
       Inl e \<Rightarrow> (Some e, world st)
     | Inr (pid, et, src) \<Rightarrow>
        (let w1 = snd (plant_Exists P pid (world st)); ev = buildEventEntities L ck payload data pid et src;
             w2 = snd (save P (useAsyncWrite s) ev w1)
         in case exists_error L P pid (world st) of
              Some e \<Rightarrow> (Some e, w1)
            | None \<Rightarrow>
                (case data_error L data of
                   Some e \<Rightarrow> (Some e, w1)
                 | None \<Rightarrow>
                     (case fst (save P (useAsyncWrite s) ev w1) of
                        Some e \<Rightarrow>
                          (Some (TransientError (if useAsyncWrite s then ''async save failed'' else ''sync save failed'')
                             (Some e)), w2)
                      | None \<Rightarrow> (None, upserted P (plant_status ck pid et payload data) w2)))))"
proof -
  obtain d ds where d: "data = d # ds" using assms by (cases data) auto
  show ?thesis
    unfolding ProcessEvent_def d list.case option.case Let_def
    by (auto simp: prod.case_eq_if split: option.split sum.split)
qed

lemmas ProcessEvent_result = ProcessEvent_stages [THEN arg_cong [of _ _ fst], unfolded fst_conv]
lemmas ProcessEvent_world = ProcessEvent_stages [THEN arg_cong [of _ _ snd], unfolded snd_conv]

lemma plant_info_error:
  "plant_info L data = Inl e \<Longrightarrow> \<exists>r c. e = PermanentError r c"
  by (auto simp: plant_info_def extractAndValidatePlantInfo_def Let_def NewPermanentError_def
      split: option.splits sum.splits)

lemma data_error_shape:
  "data_error L data = Some e \<Longrightarrow> \<exists>c. e = PermanentError ''event data validation failed'' c"
  by (auto simp: data_error_def split: option.splits)

lemma exists_error_shape: "exists_error L P pid w = Some e \<Longrightarrow> \<exists>r c. e = TransientError r c"
  by (auto simp: exists_error_def split: sum.splits if_splits)

text \<open>Stores that find every plant and accept every event.\<close>

definition healthy :: "'s ports \<Rightarrow> bool" where
  "healthy P \<longleftrightarrow> (\<forall>pid w. fst (plant_Exists P pid w) = Inr True)
     \<and> (\<forall>op an w. fst (writer_SaveEvent P op an w) = None \<and> fst (writer_SaveEventAsync P op an w) = None)"

lemma healthy_result:
  assumes "healthy P" "data \<noteq> []"
  shows "fst (ProcessEvent L P ck s payload (Some data) st) =
    (case plant_info L data of Inl e \<Rightarrow> Some e | Inr _ \<Rightarrow> data_error L data)"
  using assms
  by (auto simp: ProcessEvent_result healthy_def exists_error_def save_def Let_def split: sum.splits option.splits)

section \<open>The notifier through an event\<close>

text \<open>
  What the ingestion does to the notifier is enqueue texts: it keeps whatever an enqueue keeps.
\<close>

lemma persist_notifier [simp]: "notifier (snd (persistEvents L P s op an st)) = notifier st"
  by (simp add: persistEvents_def Let_def split: prod.split option.split)

lemma update_notifier [simp]: "notifier (updatePlantStatus L P ck pid et payload data st) = notifier st"
  by (simp add: updatePlantStatus_def Let_def split: option.split prod.split)

context notifier_contract
begin

lemma extract_keeps: "I (notifier st) \<Longrightarrow> I (notifier (snd (extractAndValidatePlantInfo L ck data st)))"
  by (auto simp: extractAndValidatePlantInfo_def Let_def send_keeps split: option.splits sum.splits)

lemma exists_keeps: "I (notifier st) \<Longrightarrow> I (notifier (snd (validatePlantExists L P ck pid st)))"
  by (auto simp: validatePlantExists_def Let_def send_keeps split: prod.split sum.splits)

lemma validate_keeps: "I (notifier st) \<Longrightarrow> I (notifier (snd (validateEventData L ck data et st)))"
  by (auto simp: validateEventData_def send_keeps split: option.splits)

lemma alerts_keep:
  assumes "I (notifier st)"
  shows "I (notifier (evaluate_alerts L ck s et data st))"
proof (cases "alertEvaluator s")
  case (Some ev)
  let ?pn = "case str_field data ''plant_name'' of Some pn \<Rightarrow> pn | None \<Rightarrow> ''unknown''"
  from evaluate_rules_inv [of I "ck_stamp ck", OF send_keeps(1) assms send_keeps(1)]
  obtain n where "evaluate_rules (gj L) (ck_stamp ck) (rules ev) et ?pn data (Some (notifier st)) = Some n" "I n"
    by blast
  then show ?thesis by (simp add: evaluate_alerts_def Some EvaluateEvent_def)
qed (simp add: evaluate_alerts_def assms)

lemma HandleMessage_keeps:
  assumes "I (notifier st)"
  shows "I (notifier (snd (HandleMessage L P ck s message st)))"
proof -
  have "I (notifier (snd (ProcessEvent L P ck s message (Some data) st)))" if ne: "data \<noteq> []" for data
  proof -
    obtain d ds where d: "data = d # ds" using ne by (cases data) auto
    show ?thesis
      unfolding ProcessEvent_def d list.case option.case Let_def
      by (auto simp: prod.case_eq_if assms split: option.split sum.split
          intro!: extract_keeps exists_keeps validate_keeps alerts_keep)
  qed
  moreover have "I (notifier (snd (ProcessEvent L P ck s message (Some []) st)))"
    using assms by simp
  ultimately have "I (notifier (snd (ProcessEvent L P ck s message data st)))" for data
    using assms by (cases data) (simp, metis)
  then show ?thesis
    using assms by (cases "Unmarshal_map (json_txt L) message") (auto simp: HandleMessage_def)
qed

end

lemmas HandleMessage_notifier = safe_notifier.HandleMessage_keeps

text \<open>Libraries and stores for the examples.\<close>

definition p5_Parse :: "string \<Rightarrow> goerr + uuid" where
  "p5_Parse s = (if s = ''p'' then Inr 5 else Inl (TextError ''invalid UUID length''))"

definition plain_libs :: libs where
  "plain_libs = \<lparr>uuid_Parse = p5_Parse, uuid_String = plain_uuid, NewSHA1 = (\<lambda>ns name. 1),
     validate = (\<lambda>d. if tags_ok d then None else Some (TextError ''validation failed'')),
     gj = (\<lambda>b path. None), json_txt = (\<lambda>b. ''invalid JSON'')\<rparr>"

definition plain_clock :: clock where
  "plain_clock = \<lparr>ck_created = 1, ck_event_at = 2, ck_updated = 3, ck_stamp = ''now''\<rparr>"

definition plain_state :: "unit ingest" where
  "plain_state = \<lparr>world = (), notifier = NewNotifier ''t'' ''c'' True, metrics = []\<rparr>"

definition unit_ports :: "bool \<Rightarrow> unit ports" where
  "unit_ports found = \<lparr>plant_Exists = (\<lambda>pid w. (Inr found, w)), writer_SaveEvent = (\<lambda>op an w. (None, w)),
     writer_SaveEventAsync = (\<lambda>op an w. (None, w)), status_Upsert = None\<rparr>"

lemma minus5_scaled: "f64_of_scaled True 5 10 0 = Some 0xC014000000000000"
  by (simp add: f64_of_scaled_def f64_of_frac_def round_bits_def round_half_even_def f64_inf_mag_def Let_def)

lemma minus5_parts:
  "f64_mag 0xC014000000000000 = 0x4014000000000000" "f64_neg 0xC014000000000000"
  by (simp_all add: f64_mag_def f64_neg_def)

lemma minus5_mant:
  "f64_mant 0xC014000000000000 = 5 * 2 ^ 50" "f64_exp 0xC014000000000000 = - 50"
  by (simp_all add: f64_mant_def f64_exp_def minus5_parts)

lemma nat_digits_5: "nat_digits 5 = ''5''" by code_simp

lemma shortest_from_17:
  "shortest_from 17 p b n d k =
    (case digits_at b n d k p of Some c \<Rightarrow> (c, k - int p) | None \<Rightarrow> shortest_from 16 (Suc p) b n d k)"
  using shortest_from.simps(2) [of 16] by simp

lemma minus5_digits: "f64_digits 0xC014000000000000 = (''5'', 1)"
  unfolding f64_digits_def shortest_digits_def minus5_parts minus5_mant dec_point_def
  by (simp add: minus5_parts Let_def nat_digits_5 shortest_from_17 digits_at_def round_half_even_def
      minus5_scaled strip_zeros_def)

lemma minus5_Marshal: "Marshal (GFloat 0xC014000000000000) = Some ''-5''"
  by (simp add: minus5_parts f64_inf_mag_def minus5_digits json_digits_def format_f_def)

lemma minus5_number: "number_val ''-5'' = Some 0xC014000000000000"
  unfolding number_val_def
  by (simp add: minus5_scaled drop_sign_def is_digit_def byte_in_def Let_def exponent_val_def digits_val_def)

definition minus5_data :: gomap where
  "minus5_data = [(''power_generated_mw'', GFloat 0xC014000000000000), (''plant_source_id'', GString ''p'')]"

definition minus5_raw :: bytes where
  "minus5_raw = ''{'' @ [CHR 0x22] @ ''plant_source_id'' @ [CHR 0x22] @ '':'' @ [CHR 0x22] @ ''p'' @ [CHR 0x22]
     @ '','' @ [CHR 0x22] @ ''power_generated_mw'' @ [CHR 0x22] @ '':-5}''"

lemma quoted_names:
  "json_quote ''power_generated_mw'' = [CHR 0x22] @ ''power_generated_mw'' @ [CHR 0x22]"
  "json_quote ''plant_source_id'' = [CHR 0x22] @ ''plant_source_id'' @ [CHR 0x22]"
  "json_quote ''p'' = [CHR 0x22] @ ''p'' @ [CHR 0x22]"
  by (rule json_quote_plain, simp add: plain_char_def byte_in_def)+

lemma minus5_raw: "Marshal (GMap minus5_data) = Some minus5_raw"
proof -
  have o: "\<not> ''power_generated_mw'' \<le> (''plant_source_id'' :: string)" by code_simp
  show ?thesis
    by (simp add: minus5_data_def minus5_raw_def minus5_Marshal quoted_names sort_key_def o
        del: Marshal.simps(3))
qed

lemma fold_name_ascii:
  assumes "list_all (byte_in 0 127) s"
  shows "fold_name s = map (\<lambda>c. if byte_in 97 122 c then char_of ((of_char c :: nat) - 32) else c) s"
proof -
  have "chunks_from 0 [] s = map (\<lambda>c. [c]) s" using assms by (induction s) auto
  then have "concat (map f (chunks s)) = concat (map f (map (\<lambda>c. [c]) s))" for f :: "string \<Rightarrow> string"
    by (simp only: chunks_def)
  then show ?thesis unfolding fold_name_def by (simp add: o_def)
qed

lemma folded_names:
  "fold_name ''plant_source_id'' = ''PLANT_SOURCE_ID''"
  "fold_name ''power_generated_mw'' = ''POWER_GENERATED_MW''"
  "fold_name ''power_consumed_mw'' = ''POWER_CONSUMED_MW''"
  "fold_name ''efficiency_percent'' = ''EFFICIENCY_PERCENT''"
  "fold_name ''temperature_celsius'' = ''TEMPERATURE_CELSIUS''"
  by (subst fold_name_ascii, simp add: byte_in_def, code_simp)+

lemma minus5_EventData:
  "Unmarshal_EventData minus5_raw = Some (no_EventData\<lparr>PowerGeneratedMW := Some 0xC014000000000000\<rparr>)"
proof -
  have "json_parse minus5_raw =
      Some (JObject [(''plant_source_id'', JString ''p''), (''power_generated_mw'', JNumber ''-5'')])"
    unfolding minus5_raw_def by code_simp
  then show ?thesis
    by (simp add: Unmarshal_EventData_def set_member_def float_member_def minus5_number Let_def folded_names)
qed

lemma minus5_bad: "\<not> tags_ok (no_EventData\<lparr>PowerGeneratedMW := Some 0xC014000000000000\<rparr>)"
proof -
  have "f64_mag 0 = 0" "\<not> f64_neg 0" by (simp_all add: f64_mag_def f64_neg_def)
  then show ?thesis by (simp add: tags_ok_def f64_le_def f64_key_def minus5_parts f64_zero_def)
qed

definition p5_data :: gomap where
  "p5_data = [(''plant_source_id'', GString ''p'')]"

lemma p5_ok: "data_error plain_libs p5_data = None"
proof -
  have m: "Marshal (GMap p5_data) =
      Some (''{'' @ [CHR 0x22] @ ''plant_source_id'' @ [CHR 0x22] @ '':'' @ [CHR 0x22] @ ''p'' @ [CHR 0x22] @ ''}'')"
    by (simp add: p5_data_def quoted_names)
  have "json_parse (''{'' @ [CHR 0x22] @ ''plant_source_id'' @ [CHR 0x22] @ '':'' @ [CHR 0x22] @ ''p'' @ [CHR 0x22] @ ''}'')
      = Some (JObject [(''plant_source_id'', JString ''p'')])"
    by code_simp
  then show ?thesis
    unfolding data_error_def m
    by (simp add: folded_names Unmarshal_EventData_def set_member_def Let_def plain_libs_def tags_ok_def no_EventData_def)
qed

section \<open>Properties\<close>

text \<open>
  C2. Errors are classified by what a retry can change. A permanent error belongs to the
  message: whatever stores that know the plant and accept the event, in whatever state, reject
  it with the very same error. A transient error belongs to the stores: healthy stores accept the
  message, unless its data fail the validation. Every error is one of the two.
\<close>

theorem ProcessEvent_classifies:
  assumes "fst (ProcessEvent L P ck s payload data st) = Some e" "healthy P'"
  shows "(\<exists>r c. e = PermanentError r c) \<and> fst (ProcessEvent L P' ck' s' payload data st') = Some e
    \<or> (\<exists>r c. e = TransientError r c)
      \<and> (fst (ProcessEvent L P' ck' s' payload data st') = None
         \<or> (\<exists>c. fst (ProcessEvent L P' ck' s' payload data st') =
                Some (PermanentError ''event data validation failed'' c)))"
proof (cases "data = None \<or> data = Some []")
  case True
  then show ?thesis using assms(1) by auto
next
  case False
  then obtain d where d: "data = Some d" "d \<noteq> []" by auto
  note H = healthy_result [OF assms(2) d(2), of L ck' s' payload st']
  show ?thesis
  proof (cases "plant_info L d")
    case (Inl e')
    then show ?thesis
      using assms(1) H plant_info_error [OF Inl] by (simp add: d ProcessEvent_result)
  next
    case (Inr p)
    then obtain pid et src where p: "p = (pid, et, src)" by (cases p) auto
    have H: "fst (ProcessEvent L P' ck' s' payload data st') = data_error L d"
      using H Inr d by simp
    show ?thesis
    proof (cases "exists_error L P pid (world st)")
      case None
      then show ?thesis
        using assms(1) d Inr p data_error_shape [of L d] unfolding H
        by (cases "data_error L d") (auto simp: ProcessEvent_result Let_def split: option.splits)
    next
      case (Some e')
      then have "e = e'" using assms(1) d Inr p by (simp add: ProcessEvent_result Let_def)
      then show ?thesis
        using exists_error_shape [OF Some] data_error_shape [of L d] unfolding H
        by (cases "data_error L d") auto
    qed
  qed
qed

theorem ProcessEvent_classifies_witness:
  "fst (ProcessEvent plain_libs (unit_ports True) plain_clock
      (NewEventIngestionService None False) [] (Some [(''event_type'', GString ''t'')]) plain_state)
    = Some (PermanentError ''missing plant_source_id field'' None)"
proof -
  have e: "fst (ProcessEvent plain_libs (unit_ports False) plain_clock
      (NewEventIngestionService None False) [] (Some [(''event_type'', GString ''t'')]) plain_state)
    = Some (PermanentError ''missing plant_source_id field'' None)"
    by (simp add: ProcessEvent_result plant_info_def extractAndValidatePlantInfo_def str_field_def
        NewPermanentError_def)
  have h: "healthy (unit_ports True)" by (simp add: healthy_def unit_ports_def)
  show ?thesis using ProcessEvent_classifies [OF e h] by auto
qed

text \<open>
  C5. What an accepted event does, and all it does to the stores: the plant was found, the
  writer was given the two entities built from the message once (same id, instant, type, plant,
  source and the raw payload), and then the status repository, where there is one, the plant's
  new status once; the result of the status update has no influence on the outcome.
\<close>

theorem ProcessEvent_success:
  assumes "fst (ProcessEvent L P ck s payload (Some data) st) = None" "data \<noteq> []"
  shows "\<exists>pid et src w1 w2 op an.
    plant_info L data = Inr (pid, et, src)
    \<and> plant_Exists P pid (world st) = (Inr True, w1) \<and> data_error L data = None
    \<and> op = \<lparr>op_ID = event_id L payload data, op_EventType = et, op_PlantSourceId = pid, op_Source = src,
            op_Data = payload, op_Metadata = [], op_CreatedAt = ck_created ck\<rparr>
    \<and> an = \<lparr>an_CreatedAt = ck_created ck, an_ID = event_id L payload data, an_EventType = et,
            an_PlantSourceId = pid, an_Source = src, an_Data = payload, an_Metadata = []\<rparr>
    \<and> (if useAsyncWrite s then writer_SaveEventAsync P else writer_SaveEvent P) op an w1 = (None, w2)
    \<and> world (snd (ProcessEvent L P ck s payload (Some data) st)) =
        upserted P (plant_status ck pid et payload data) w2"
proof -
  obtain pid et src where info: "plant_info L data = Inr (pid, et, src)"
    using assms by (auto simp: ProcessEvent_result split: sum.splits)
  let ?ev = "buildEventEntities L ck payload data pid et src"
  let ?w1 = "snd (plant_Exists P pid (world st))"
  let ?r = "save P (useAsyncWrite s) ?ev ?w1"
  have ok: "exists_error L P pid (world st) = None" "data_error L data = None" "fst ?r = None"
    using assms info by (auto simp: ProcessEvent_result Let_def split: option.splits)
  have "world (snd (ProcessEvent L P ck s payload (Some data) st)) =
      upserted P (plant_status ck pid et payload data) (snd ?r)"
    using assms(2) info ok by (simp add: ProcessEvent_world Let_def)
  moreover have "plant_Exists P pid (world st) = (Inr True, ?w1)"
    using ok(1) by (cases "plant_Exists P pid (world st)") (auto simp: exists_error_def split: sum.splits if_splits)
  moreover have "save P (useAsyncWrite s) ?ev ?w1 = (None, snd ?r)"
    using ok(3) by (cases ?r) auto
  ultimately show ?thesis
    using info ok(2)
    by (intro exI [of _ pid] exI [of _ et] exI [of _ src] exI [of _ ?w1] exI [of _ "snd ?r"]
        exI [of _ "fst ?ev"] exI [of _ "snd ?ev"])
      (simp add: buildEventEntities_def Let_def save_def)
qed

theorem ProcessEvent_success_witness:
  "\<exists>w1. plant_Exists (unit_ports True) 5 (world plain_state) = (Inr True, w1)"
proof -
  have i: "plant_info plain_libs p5_data = Inr (5, ''unknown'', ''kafka-intake'')"
    by (simp add: plant_info_def extractAndValidatePlantInfo_def p5_data_def str_field_def plain_libs_def
        p5_Parse_def)
  have "p5_data \<noteq> []" by (simp add: p5_data_def)
  moreover have "fst (ProcessEvent plain_libs (unit_ports True) plain_clock
      (NewEventIngestionService None False) ''{}'' (Some p5_data) plain_state) = None"
    using \<open>p5_data \<noteq> []\<close> by (subst healthy_result) (simp_all add: healthy_def unit_ports_def i p5_ok)
  ultimately show ?thesis
    using ProcessEvent_success [of plain_libs "unit_ports True" plain_clock
        "NewEventIngestionService None False" "''{}''" p5_data plain_state] i by auto
qed

text \<open>
  A rejected event writes nothing: when the error is not the writer's, the only call the
  stores have seen is at most the lookup of the plant.
\<close>

theorem rejected_event_writes_nothing:
  assumes "fst (ProcessEvent L P ck s payload data st) = Some e"
    "\<forall>c. e \<noteq> TransientError ''async save failed'' c \<and> e \<noteq> TransientError ''sync save failed'' c"
  shows "world (snd (ProcessEvent L P ck s payload data st)) = world st
    \<or> (\<exists>pid. world (snd (ProcessEvent L P ck s payload data st)) = snd (plant_Exists P pid (world st)))"
proof (cases "data = None \<or> data = Some []")
  case True
  then show ?thesis by auto
next
  case False
  then obtain d where d: "data = Some d" "d \<noteq> []" by auto
  show ?thesis
    using assms ProcessEvent_stages [OF d(2), of L P ck s payload st]
    by (auto simp: d(1) Let_def split: sum.splits option.splits if_splits)
qed

theorem rejected_event_writes_nothing_witness:
  "world (snd (ProcessEvent plain_libs
      \<lparr>plant_Exists = (\<lambda>pid w. (Inr False, Suc w)), writer_SaveEvent = (\<lambda>op an w. (None, w + 10)),
       writer_SaveEventAsync = (\<lambda>op an w. (None, w + 10)), status_Upsert = None\<rparr> plain_clock
      (NewEventIngestionService None False) ''{}'' (Some p5_data)
      \<lparr>world = 0, notifier = NewNotifier ''t'' ''c'' True, metrics = []\<rparr>)) \<in> {0, Suc 0}"
proof -
  let ?P = "\<lparr>plant_Exists = (\<lambda>pid w. (Inr False, Suc w)), writer_SaveEvent = (\<lambda>op an w. (None, w + 10)),
       writer_SaveEventAsync = (\<lambda>op an w. (None, w + 10)), status_Upsert = None\<rparr>"
  let ?st = "\<lparr>world = 0 :: nat, notifier = NewNotifier ''t'' ''c'' True, metrics = []\<rparr>"
  have i: "plant_info plain_libs p5_data = Inr (5, ''unknown'', ''kafka-intake'')"
    by (simp add: plant_info_def extractAndValidatePlantInfo_def p5_data_def str_field_def plain_libs_def
        p5_Parse_def)
  have "p5_data \<noteq> []" by (simp add: p5_data_def)
  then have "fst (ProcessEvent plain_libs ?P plain_clock (NewEventIngestionService None False) ''{}''
      (Some p5_data) ?st) = Some (TransientError (''plant_source_id='' @ uuid_String plain_libs 5 @ '' does not exist'') None)"
    by (simp add: ProcessEvent_result i exists_error_def)
  from rejected_event_writes_nothing [OF this] show ?thesis by auto
qed

text \<open>
  C20. Out-of-range measurements are refused for good: if the event, marshalled again, reads as an
  \<open>EventData\<close> whose power is negative or whose efficiency is outside 0 to 100, then on healthy
  stores the event is a permanent error, provided the validator enforces the struct tags and the
  plant's id is in order.
\<close>

theorem invalid_measurement_refused:
  assumes "Marshal (GMap data) = Some raw" "Unmarshal_EventData raw = Some d" "\<not> tags_ok d"
    "\<And>d. validate L d = None \<longleftrightarrow> tags_ok d" "plant_info L data = Inr info" "healthy P"
  shows "\<exists>err. fst (ProcessEvent L P ck s payload (Some data) st) =
    Some (PermanentError ''event data validation failed'' (Some err))"
proof -
  obtain err where err: "validate L d = Some err" using assms(3,4) by (cases "validate L d") auto
  have "data \<noteq> []" using assms(5)
    by (auto simp: plant_info_def extractAndValidatePlantInfo_def str_field_def Let_def)
  with assms err show ?thesis by (simp add: healthy_result data_error_def del: Marshal.simps)
qed

theorem invalid_measurement_refused_witness:
  "\<exists>err. fst (ProcessEvent plain_libs (unit_ports True) plain_clock (NewEventIngestionService None False) []
      (Some minus5_data) plain_state) = Some (PermanentError ''event data validation failed'' (Some err))"
proof -
  have v: "validate plain_libs d = None \<longleftrightarrow> tags_ok d" for d by (simp add: plain_libs_def)
  have i: "plant_info plain_libs minus5_data = Inr (5, ''unknown'', ''kafka-intake'')"
    by (simp add: plant_info_def extractAndValidatePlantInfo_def minus5_data_def str_field_def plain_libs_def
        p5_Parse_def)
  have h: "healthy (unit_ports True)" by (simp add: healthy_def unit_ports_def)
  show ?thesis
    by (rule invalid_measurement_refused [OF minus5_raw minus5_EventData minus5_bad v i h])
qed

text \<open>
  The status update is best effort: whatever the status repository is, missing, failing or
  working, the outcome of the event is the same.
\<close>

theorem status_update_best_effort:
  "fst (ProcessEvent L (P\<lparr>status_Upsert := u\<rparr>) ck s payload data st) =
   fst (ProcessEvent L P ck s payload data st)"
proof (cases "data = None \<or> data = Some []")
  case False
  then obtain d where d: "data = Some d" "d \<noteq> []" by auto
  have e: "exists_error L (P\<lparr>status_Upsert := u\<rparr>) = exists_error L P"
    "save (P\<lparr>status_Upsert := u\<rparr>) = save P"
    by (auto simp: exists_error_def save_def fun_eq_iff)
  show ?thesis
    by (auto simp: d ProcessEvent_result e Let_def split: sum.split option.split)
qed auto

text \<open>
  The handler classifies what it cannot read: a message that is not JSON, is JSON but not an
  object, or is \<open>null\<close> or an empty object is a permanent error, and no store is touched.
\<close>

theorem unreadable_message_is_permanent:
  assumes "\<forall>d. Unmarshal_map (json_txt L) message = Inr (Some d) \<longrightarrow> d = []"
  shows "\<exists>r c. fst (HandleMessage L P ck s message st) = Some (PermanentError r c)
    \<and> world (snd (HandleMessage L P ck s message st)) = world st"
proof (cases "Unmarshal_map (json_txt L) message")
  case (Inr d)
  then show ?thesis using assms by (cases d) (auto simp: HandleMessage_def)
qed (simp add: HandleMessage_def NewPermanentError_def)

theorem unreadable_message_is_permanent_witness:
  "\<exists>r c. fst (HandleMessage plain_libs (unit_ports True) plain_clock (NewEventIngestionService None False)
      ''not json'' plain_state) = Some (PermanentError r c)"
proof -
  have "\<not> json_Valid ''not json''" by code_simp
  then have "Unmarshal_map (json_txt plain_libs) ''not json'' = Inl (TextError (json_txt plain_libs ''not json''))"
    by (rule Unmarshal_map_invalid)
  then have "\<forall>d. Unmarshal_map (json_txt plain_libs) ''not json'' = Inr (Some d) \<longrightarrow> d = []" by simp
  from unreadable_message_is_permanent [OF this] show ?thesis by blast
qed

text \<open>
  Processing an event keeps the notifier in order: its queue within capacity, no send on a
  closed channel, whatever the event and the stores do.
\<close>

theorem ProcessEvent_keeps_notifier:
  assumes "notifier_inv (notifier st)"
  shows "notifier_inv (notifier (snd (HandleMessage L P ck s message st)))"
  using assms by (rule HandleMessage_notifier)

theorem ProcessEvent_keeps_notifier_witness:
  "notifier_inv (notifier (snd (HandleMessage plain_libs (unit_ports False) plain_clock
      (NewEventIngestionService None False) ''null'' plain_state)))"
  by (rule ProcessEvent_keeps_notifier) (simp add: plain_state_def notifier_inv_init)

text \<open>
  C21. An accepted message is well typed: it decoded to an object with distinct keys, which can be
  marshalled again (its numbers are finite, so the first error branch of
  \<open>validateEventData\<close> is dead for messages of the topic), and either the result does not
  read as an \<open>EventData\<close> or the validator has passed it.
\<close>

theorem accepted_message_well_typed:
  assumes "fst (HandleMessage L P ck s message st) = None"
  shows "\<exists>data rawData. Unmarshal_map (json_txt L) message = Inr (Some data) \<and> data \<noteq> []
    \<and> distinct (map fst data) \<and> Marshal (GMap data) = Some rawData
    \<and> (case Unmarshal_EventData rawData of None \<Rightarrow> True | Some d \<Rightarrow> validate L d = None)"
proof -
  obtain data where d: "Unmarshal_map (json_txt L) message = Inr (Some data)" "data \<noteq> []"
    "fst (ProcessEvent L P ck s message (Some data) st) = None"
  proof (cases "Unmarshal_map (json_txt L) message")
    case (Inr m)
    then have "fst (ProcessEvent L P ck s message m st) = None" using assms by (simp add: HandleMessage_def)
    then show ?thesis using that Inr by (cases m; cases "m = Some []") auto
  qed (use assms in \<open>simp add: HandleMessage_def\<close>)
  obtain raw where raw: "Marshal (GMap data) = Some raw" using Unmarshal_map_Marshal [OF d(1)] by blast
  have "data_error L data = None"
    using d(2,3) by (auto simp: ProcessEvent_result Let_def split: sum.splits option.splits)
  then have "case Unmarshal_EventData raw of None \<Rightarrow> True | Some d \<Rightarrow> validate L d = None"
    by (simp add: data_error_def raw del: Marshal.simps split: option.splits)
  then show ?thesis using d(1,2) raw Unmarshal_map_distinct [OF d(1)] by blast
qed

theorem accepted_message_well_typed_witness:
  "\<exists>rawData. Marshal (GMap p5_data) = Some rawData
    \<and> (case Unmarshal_EventData rawData of None \<Rightarrow> True | Some d \<Rightarrow> validate plain_libs d = None)"
proof -
  let ?raw = "''{'' @ [CHR 0x22] @ ''plant_source_id'' @ [CHR 0x22] @ '':'' @ [CHR 0x22] @ ''p'' @ [CHR 0x22] @ ''}''"
  have "json_parse ?raw = Some (JObject [(''plant_source_id'', JString ''p'')])" by code_simp
  then have u: "Unmarshal_map (json_txt plain_libs) ?raw = Inr (Some p5_data)"
    by (simp add: Unmarshal_map_def p5_data_def)
  have i: "plant_info plain_libs p5_data = Inr (5, ''unknown'', ''kafka-intake'')"
    by (simp add: plant_info_def extractAndValidatePlantInfo_def p5_data_def str_field_def plain_libs_def
        p5_Parse_def)
  have "p5_data \<noteq> []" by (simp add: p5_data_def)
  then have p: "fst (ProcessEvent plain_libs (unit_ports True) ck s payload (Some p5_data) st) = None" for ck s payload st
    by (subst healthy_result) (simp_all add: healthy_def unit_ports_def i p5_ok)
  have "fst (HandleMessage plain_libs (unit_ports True) plain_clock (NewEventIngestionService None False) ?raw plain_state) = None"
    unfolding HandleMessage_def u sum.case by (rule p)
  from accepted_message_well_typed [OF this] show ?thesis unfolding u by auto
qed

end
