(* ===== verification/Kafka_Service.thy ===== *)
theory Kafka_Service
  imports Event_Ingestion "HOL-Library.Sublist"
begin

text \<open>
  The Kafka consumer: \<open>internal/api/kafka_service.go\<close>, the adapter below it
  (\<open>internal/infrastructure/adapters/kafka/adapter.go\<close>) and the correlation id of a message
  (\<open>internal/infrastructure/tracing/tracing.go\<close>).

  The state of the service holds what its handlers work on (\<open>app\<close>) and the calls it has made
  on the broker, on the handlers and on the timer, with their answers, in order (\<open>calls\<close>). The
  broker's answers, the clock and what other goroutines do meanwhile are a \<open>poll_turn\<close>: one for each
  iteration of the consumer's loop. A run of \<open>ConsumeEvents\<close> is its run on a list of turns.
\<close>

section \<open>Messages, calls and state\<close>

text \<open>A nil value (a tombstone) is \<^const>\<open>None\<close>.\<close>

record KafkaMessage =
  km_Value :: "bytes option"
  km_Topic :: string
  km_Partition :: "32 word"
  km_Offset :: "64 word"

definition value_bytes :: "bytes option \<Rightarrow> bytes" where
  "value_bytes v = (case v of Some b \<Rightarrow> b | None \<Rightarrow> [])"

datatype call =
    CSubscribe "string list" "goerr option"
  | CRead "goerr + KafkaMessage"
  | CHandle "bytes option" "goerr option"
  | CWait duration bool
  | CSend string string bytes "goerr option"
  | CCommit string "32 word" "64 word" "goerr option"

type_synonym 's handler = "clock \<Rightarrow> bytes \<Rightarrow> 's ingest \<Rightarrow> goerr option \<times> 's ingest"

text \<open>
  \<open>stopOnce\<close>, \<open>consumerCtx\<close> and \<open>stopChan\<close> are the flags done, cancelled and closed. Go
  iterates a map in any order; here it is the order of registration.
\<close>

record 's KafkaService =
  topicHandlers :: "(string \<times> 's handler) list"
  stopOnce :: bool
  ctxDone :: bool
  stopClosed :: bool
  consumerHealthy :: bool
  app :: "'s ingest"
  calls :: "call list"

definition dlqTopic :: string where
  "dlqTopic = ''intake_dlq''"

definition maxRetries :: nat where
  "maxRetries = 3"

definition NewKafkaService :: "'s ingest \<Rightarrow> 's KafkaService" where
  "NewKafkaService st =
     \<lparr>topicHandlers = [], stopOnce = False, ctxDone = False, stopClosed = False,
      consumerHealthy = True, app = st, calls = []\<rparr>"

definition RegisterHandler :: "string \<Rightarrow> 's handler \<Rightarrow> 's KafkaService \<Rightarrow> 's KafkaService" where
  "RegisterHandler topic h ks = ks\<lparr>topicHandlers := AList.update topic h (topicHandlers ks)\<rparr>"

definition IsConsumerHealthy :: "'s KafkaService \<Rightarrow> bool" where
  "IsConsumerHealthy ks = consumerHealthy ks"

text \<open>\<open>StopConsuming\<close>: its two effects, in their order, the first time it is called.\<close>

definition StopConsuming_cancel :: "'s KafkaService \<Rightarrow> 's KafkaService" where
  "StopConsuming_cancel ks = ks\<lparr>ctxDone := True\<rparr>"

definition StopConsuming_close :: "'s KafkaService \<Rightarrow> 's KafkaService" where
  "StopConsuming_close ks = ks\<lparr>stopClosed := True\<rparr>"

definition StopConsuming :: "'s KafkaService \<Rightarrow> 's KafkaService" where
  "StopConsuming ks =
     (if stopOnce ks then ks
      else StopConsuming_close (StopConsuming_cancel (ks\<lparr>stopOnce := True\<rparr>)))"

definition log_call :: "call \<Rightarrow> 's KafkaService \<Rightarrow> 's KafkaService" where
  "log_call c ks = ks\<lparr>calls := calls ks @ [c]\<rparr>"

section \<open>Turns\<close>

text \<open>
  What other goroutines do while the loop waits: one of the two steps of \<open>StopConsuming\<close>, or
  work on the shared state. Gap 0 is before the \<open>select\<close> of the loop, gap \<open>n\<close> is before the
  timer of retry \<open>n\<close> fires.
\<close>

datatype 's other = Cancel | Close | Work "'s ingest \<Rightarrow> 's ingest"

fun other_step :: "'s KafkaService \<Rightarrow> 's other \<Rightarrow> 's KafkaService" where
  "other_step ks Cancel = StopConsuming_cancel (ks\<lparr>stopOnce := True\<rparr>)"
| "other_step ks Close = StopConsuming_close ks"
| "other_step ks (Work f) = ks\<lparr>app := f (app ks)\<rparr>"

record 's poll_turn =
  t_gap :: "nat \<Rightarrow> 's other list"
  t_poll :: "goerr + KafkaMessage"
  t_id :: string              \<comment> \<open>the fresh correlation id\<close>
  t_clock :: "nat \<Rightarrow> clock"   \<comment> \<open>what each call of the handler reads of the time\<close>
  t_now :: time
  t_produce :: "goerr option" \<comment> \<open>the answer of \<open>Produce\<close>, and the delivery report\<close>
  t_delivery :: "goerr option"
  t_commit :: "goerr option"

section \<open>Adapter\<close>

definition SendMessage ::
  "'s poll_turn \<Rightarrow> string \<Rightarrow> string \<Rightarrow> bytes \<Rightarrow> 's KafkaService \<Rightarrow> goerr option \<times> 's KafkaService" where
  "SendMessage t topic key message ks =
     (let r = (case t_produce t of Some err \<Rightarrow> Some err | None \<Rightarrow> t_delivery t)
      in (r, log_call (CSend topic key message r) ks))"

definition ReadMessage :: "'s poll_turn \<Rightarrow> 's KafkaService \<Rightarrow> (goerr + KafkaMessage) \<times> 's KafkaService" where
  "ReadMessage t ks = (t_poll t, log_call (CRead (t_poll t)) ks)"

text \<open>The offset committed is the next one to read.\<close>

definition CommitMessage :: "'s poll_turn \<Rightarrow> KafkaMessage \<Rightarrow> 's KafkaService \<Rightarrow> goerr option \<times> 's KafkaService" where
  "CommitMessage t msg ks =
     (t_commit t, log_call (CCommit (km_Topic msg) (km_Partition msg) (km_Offset msg + 1) (t_commit t)) ks)"

section \<open>Correlation id\<close>

text \<open>What the program stores in a context: the correlation id, if one is set.\<close>

type_synonym context_values = "string option"

definition WithCorrelationID :: "context_values \<Rightarrow> string \<Rightarrow> context_values" where
  "WithCorrelationID ctx i = Some i"

definition CorrelationIDFromCtx :: "context_values \<Rightarrow> string" where
  "CorrelationIDFromCtx ctx = (case ctx of Some i \<Rightarrow> i | None \<Rightarrow> [])"

section \<open>The dead letter queue\<close>

definition Format_RFC3339 :: "time \<Rightarrow> string" where
  "Format_RFC3339 t =
     (let c = civil_of_time t
      in appendInt (year c) 4 @ ''-'' @ appendInt (month c) 2 @ ''-'' @ appendInt (day c) 2 @ ''T''
         @ appendInt (hour c) 2 @ '':'' @ appendInt (minute c) 2 @ '':'' @ appendInt (second c) 2 @ ''Z'')"

text \<open>
  \<open>json.Marshal\<close> of the map: the keys in their order, the message as it is, compacted. A nil
  \<open>RawMessage\<close> is \<open>null\<close>; one that is not JSON is an error.
\<close>

definition RawMessage_json :: "(bytes \<Rightarrow> string) \<Rightarrow> bytes option \<Rightarrow> goerr + bytes" where
  "RawMessage_json txt message =
     (case message of None \<Rightarrow> Inr ''null'' | Some raw \<Rightarrow> Marshal_raw txt raw)"

definition json_members :: "(string \<times> bytes) list \<Rightarrow> bytes" where
  "json_members ms = ''{'' @ Join (map (\<lambda>(k, b). json_quote k @ '':'' @ b) ms) '','' @ ''}''"

definition dlq_payload ::
  "(bytes \<Rightarrow> string) \<Rightarrow> string option \<Rightarrow> bytes option \<Rightarrow> string \<Rightarrow> time \<Rightarrow> goerr + bytes" where
  "dlq_payload txt cid message reason now =
     (case RawMessage_json txt message of
        Inl err \<Rightarrow> Inl err
      | Inr raw \<Rightarrow>
          Inr (json_members
                 ((case cid of Some c \<Rightarrow> [(''correlation_id'', json_quote c)] | None \<Rightarrow> [])
                  @ [(''error_reason'', json_quote reason), (''original_message'', raw),
                     (''timestamp'', json_quote (Format_RFC3339 now))])))"

definition SendToDLQ ::
  "(bytes \<Rightarrow> string) \<Rightarrow> 's poll_turn \<Rightarrow> bytes option \<Rightarrow> string \<Rightarrow> 's KafkaService \<Rightarrow> 's KafkaService" where
  "SendToDLQ txt t message reason ks =
     (case dlq_payload txt None message reason (t_now t) of
        Inl err \<Rightarrow> ks
      | Inr payload \<Rightarrow> snd (SendMessage t dlqTopic [] payload ks))"

definition sendToDLQWithCtx ::
  "(bytes \<Rightarrow> string) \<Rightarrow> 's poll_turn \<Rightarrow> context_values \<Rightarrow> string \<Rightarrow> bytes option \<Rightarrow> string \<Rightarrow> string
   \<Rightarrow> 's KafkaService \<Rightarrow> 's KafkaService" where
  "sendToDLQWithCtx txt t ctx topic message reason metricReason ks =
     (case dlq_payload txt (Some (CorrelationIDFromCtx ctx)) message reason (t_now t) of
        Inl err \<Rightarrow> ks
      | Inr payload \<Rightarrow>
          (case SendMessage t dlqTopic [] payload ks of
             (Some err, ks) \<Rightarrow> ks
           | (None, ks) \<Rightarrow> ks\<lparr>app := Inc (KafkaDLQSendsTotal topic metricReason) (app ks)\<rparr>))"

definition SendEvent ::
  "goerr \<Rightarrow> 's poll_turn \<Rightarrow> string \<Rightarrow> string \<Rightarrow> goval \<Rightarrow> 's KafkaService \<Rightarrow> goerr option \<times> 's KafkaService" where
  "SendEvent unsupported t topic key event ks =
     (case Marshal event of
        None \<Rightarrow> (Some unsupported, ks)
      | Some payload \<Rightarrow> SendMessage t topic key payload ks)"

section \<open>Retries\<close>

definition call_handler ::
  "'s poll_turn \<Rightarrow> 's handler \<Rightarrow> nat \<Rightarrow> bytes option \<Rightarrow> 's KafkaService \<Rightarrow> goerr option \<times> 's KafkaService" where
  "call_handler t h n message ks =
     (let (err, st) = h (t_clock t n) (value_bytes message) (app ks)
      in (err, log_call (CHandle message err) (ks\<lparr>app := st\<rparr>)))"

text \<open>The \<open>select\<close> on the timer and \<open>ctx.Done\<close>: true when the timer fires first.\<close>

definition retry_backoff :: "nat \<Rightarrow> duration" where
  "retry_backoff attempt = int (attempt * attempt) * Second"

definition wait_retry :: "'s poll_turn \<Rightarrow> nat \<Rightarrow> 's KafkaService \<Rightarrow> bool \<times> 's KafkaService" where
  "wait_retry t attempt ks =
     (let ks = foldl other_step ks (t_gap t attempt)
      in (\<not> ctxDone ks, log_call (CWait (retry_backoff attempt) (\<not> ctxDone ks)) ks))"

text \<open>The loop with \<open>k\<close> attempts left; \<open>err\<close> is the last error.\<close>

fun retry_loop ::
  "(bytes \<Rightarrow> string) \<Rightarrow> 's poll_turn \<Rightarrow> context_values \<Rightarrow> 's handler \<Rightarrow> bytes option \<Rightarrow> string \<Rightarrow> goerr \<Rightarrow> nat
   \<Rightarrow> 's KafkaService \<Rightarrow> bool \<times> 's KafkaService" where
  "retry_loop txt t ctx h message topic err 0 ks =
     (True, sendToDLQWithCtx txt t ctx topic message (''max retries exhausted: '' @ Error err) ''max_retries'' ks)"
| "retry_loop txt t ctx h message topic err (Suc k) ks =
     (let attempt = maxRetries - k;
          ks = ks\<lparr>app := Inc (KafkaRetryAttemptsTotal topic) (app ks)\<rparr>
      in case wait_retry t attempt ks of
           (False, ks) \<Rightarrow> (False, ks)
         | (True, ks) \<Rightarrow>
             (case call_handler t h attempt message ks of
                (None, ks) \<Rightarrow> (True, ks)
              | (Some err, ks) \<Rightarrow>
                  (if IsPermanent err
                   then (True, sendToDLQWithCtx txt t ctx topic message (Error err) ''permanent'' ks)
                   else retry_loop txt t ctx h message topic err k ks)))"

definition handleWithRetry ::
  "(bytes \<Rightarrow> string) \<Rightarrow> 's poll_turn \<Rightarrow> context_values \<Rightarrow> 's handler \<Rightarrow> bytes option \<Rightarrow> string
   \<Rightarrow> 's KafkaService \<Rightarrow> bool \<times> 's KafkaService" where
  "handleWithRetry txt t ctx h message topic ks =
     (case call_handler t h 0 message ks of
        (None, ks) \<Rightarrow> (True, ks)
      | (Some err, ks) \<Rightarrow>
          (if IsPermanent err
           then (True, sendToDLQWithCtx txt t ctx topic message (Error err) ''permanent'' ks)
           else retry_loop txt t ctx h message topic err maxRetries ks))"

definition commitOffset :: "'s poll_turn \<Rightarrow> KafkaMessage \<Rightarrow> 's KafkaService \<Rightarrow> 's KafkaService" where
  "commitOffset t msg ks = snd (CommitMessage t msg ks)"

section \<open>The consumer's loop\<close>

fun connection_error :: "goerr \<Rightarrow> bool" where
  "connection_error (KafkaError code txt) \<longleftrightarrow> code \<in> {ErrTransport, ErrAllBrokersDown, ErrNetworkException}"
| "connection_error _ \<longleftrightarrow> False"

fun timed_out :: "goerr \<Rightarrow> bool" where
  "timed_out (KafkaError code txt) \<longleftrightarrow> code = ErrTimedOut"
| "timed_out _ \<longleftrightarrow> False"

text \<open>One iteration with \<open>n\<close> connection errors so far: the new count, or a return.\<close>

definition consume_turn ::
  "(bytes \<Rightarrow> string) \<Rightarrow> 's poll_turn \<Rightarrow> nat \<Rightarrow> 's KafkaService \<Rightarrow> nat option \<times> 's KafkaService" where
  "consume_turn txt t connectionErrCount ks =
     (let ks = foldl other_step ks (t_gap t 0)
      in if stopClosed ks then (None, ks\<lparr>consumerHealthy := False\<rparr>)
         else case ReadMessage t ks of
           (Inl err, ks) \<Rightarrow>
             (if timed_out err then (Some connectionErrCount, ks)
              else if connection_error err
                then (let connectionErrCount = connectionErrCount + 1
                      in if connectionErrCount > 10 then (None, ks\<lparr>consumerHealthy := False\<rparr>)
                         else (Some connectionErrCount, ks))
              else (Some connectionErrCount, ks))
         | (Inr kafkaMsg, ks) \<Rightarrow>
             (case map_of (topicHandlers ks) (km_Topic kafkaMsg) of
                None \<Rightarrow> (Some 0, commitOffset t kafkaMsg ks)
              | Some handler \<Rightarrow>
                  (let msgCtx = WithCorrelationID None (t_id t)
                   in case handleWithRetry txt t msgCtx handler (km_Value kafkaMsg) (km_Topic kafkaMsg) ks of
                        (True, ks) \<Rightarrow> (Some 0, commitOffset t kafkaMsg ks)
                      | (False, ks) \<Rightarrow> (Some 0, ks))))"

fun consume_loop ::
  "(bytes \<Rightarrow> string) \<Rightarrow> 's poll_turn list \<Rightarrow> nat \<Rightarrow> 's KafkaService \<Rightarrow> nat option \<times> 's KafkaService" where
  "consume_loop txt [] n ks = (Some n, ks)"
| "consume_loop txt (t # ts) n ks =
     (case consume_turn txt t n ks of
        (None, ks) \<Rightarrow> (None, ks)
      | (Some n, ks) \<Rightarrow> consume_loop txt ts n ks)"

text \<open>\<^const>\<open>None\<close>: the method has returned.\<close>

definition ConsumeEvents ::
  "(bytes \<Rightarrow> string) \<Rightarrow> goerr option \<Rightarrow> 's poll_turn list \<Rightarrow> 's KafkaService \<Rightarrow> nat option \<times> 's KafkaService" where
  "ConsumeEvents txt subscribe ts ks =
     (let topics = map fst (topicHandlers ks)
      in if topics = [] then (None, ks)
         else let ks = log_call (CSubscribe topics subscribe) ks
              in case subscribe of
                   Some err \<Rightarrow> (None, ks)
                 | None \<Rightarrow> consume_loop txt ts 0 ks)"

section \<open>The calls of one message\<close>

definition transient_result :: "goerr option \<Rightarrow> bool" where
  "transient_result r \<longleftrightarrow> (case r of None \<Rightarrow> False | Some e \<Rightarrow> \<not> IsPermanent e)"

text \<open>Retry \<open>n\<close> and those after it: a wait of \<open>n\<^sup>2\<close> seconds and a call of the handler each.\<close>

fun retry_calls :: "bytes option \<Rightarrow> nat \<Rightarrow> goerr option list \<Rightarrow> call list" where
  "retry_calls m n [] = []"
| "retry_calls m n (r # rs) =
     CWait (retry_backoff n) True # CHandle m r # retry_calls m (Suc n) rs"

definition dlq_calls ::
  "(bytes \<Rightarrow> string) \<Rightarrow> 's poll_turn \<Rightarrow> context_values \<Rightarrow> bytes option \<Rightarrow> string \<Rightarrow> call list" where
  "dlq_calls txt t ctx m reason =
     (case dlq_payload txt (Some (CorrelationIDFromCtx ctx)) m reason (t_now t) of
        Inl e \<Rightarrow> []
      | Inr p \<Rightarrow> [CSend dlqTopic [] p (case t_produce t of Some e \<Rightarrow> Some e | None \<Rightarrow> t_delivery t)])"

text \<open>What the results of the handler lead to: the last calls, and whether to commit.\<close>

definition conclusion ::
  "(bytes \<Rightarrow> string) \<Rightarrow> 's poll_turn \<Rightarrow> context_values \<Rightarrow> bytes option \<Rightarrow> goerr option list \<Rightarrow> bool \<times> call list" where
  "conclusion txt t ctx m rs =
     (case last rs of
        None \<Rightarrow> (True, [])
      | Some e \<Rightarrow>
          if IsPermanent e then (True, dlq_calls txt t ctx m (Error e))
          else if length rs = Suc maxRetries
            then (True, dlq_calls txt t ctx m (''max retries exhausted: '' @ Error e))
          else (False, [CWait (retry_backoff (length rs)) False]))"

lemma log_call_simps [simp]:
  "calls (log_call c ks) = calls ks @ [c]" "app (log_call c ks) = app ks"
  "ctxDone (log_call c ks) = ctxDone ks" "stopClosed (log_call c ks) = stopClosed ks"
  "consumerHealthy (log_call c ks) = consumerHealthy ks"
  "topicHandlers (log_call c ks) = topicHandlers ks"
  by (simp_all add: log_call_def)

lemma other_step_frame [simp, frame]:
  "calls (other_step ks x) = calls ks" "topicHandlers (other_step ks x) = topicHandlers ks"
  "consumerHealthy (other_step ks x) = consumerHealthy ks"
  by (cases x; simp add: StopConsuming_cancel_def StopConsuming_close_def)+

lemma other_steps_frame [simp, frame]:
  "calls (foldl other_step ks xs) = calls ks"
  "topicHandlers (foldl other_step ks xs) = topicHandlers ks"
  "consumerHealthy (foldl other_step ks xs) = consumerHealthy ks"
  by (induction xs arbitrary: ks) auto

lemma call_handler_simps [simp]:
  "fst (call_handler t h n m ks) = fst (h (t_clock t n) (value_bytes m) (app ks))"
  "calls (snd (call_handler t h n m ks)) =
     calls ks @ [CHandle m (fst (h (t_clock t n) (value_bytes m) (app ks)))]"
  "app (snd (call_handler t h n m ks)) = snd (h (t_clock t n) (value_bytes m) (app ks))"
  by (simp_all add: call_handler_def prod.case_eq_if)

lemma wait_retry_calls [simp]:
  "calls (snd (wait_retry t n ks)) =
     calls ks @ [CWait (retry_backoff n) (fst (wait_retry t n ks))]"
  "fst (wait_retry t n ks) = (\<not> ctxDone (snd (wait_retry t n ks)))"
  by (simp_all add: wait_retry_def Let_def)

lemma sendToDLQWithCtx_calls [simp]:
  "calls (sendToDLQWithCtx txt t ctx topic m reason mr ks) = calls ks @ dlq_calls txt t ctx m reason"
  by (simp add: sendToDLQWithCtx_def dlq_calls_def SendMessage_def Let_def
      split: sum.split option.split prod.split)

lemma retry_loop_calls:
  assumes "k \<le> maxRetries" "length pre = Suc maxRetries - k" "last pre = Some err" "\<not> IsPermanent err"
  shows "\<exists>rs. length (pre @ rs) \<le> Suc maxRetries
    \<and> list_all transient_result (butlast (last pre # rs))
    \<and> fst (retry_loop txt t ctx h m topic err k ks) = fst (conclusion txt t ctx m (pre @ rs))
    \<and> calls (snd (retry_loop txt t ctx h m topic err k ks)) =
        calls ks @ retry_calls m (length pre) rs @ snd (conclusion txt t ctx m (pre @ rs))
    \<and> (fst (retry_loop txt t ctx h m topic err k ks)
       \<or> ctxDone (snd (retry_loop txt t ctx h m topic err k ks)))"
  using assms
proof (induction k arbitrary: pre err ks)
  case 0
  then show ?case by (intro exI [of _ "[]"]) (simp add: conclusion_def)
next
  case (Suc k)
  let ?n = "maxRetries - k"
  let ?ks0 = "ks\<lparr>app := Inc (KafkaRetryAttemptsTotal topic) (app ks)\<rparr>"
  let ?w = "wait_retry t ?n ?ks0"
  let ?c = "call_handler t h ?n m (snd ?w)"
  have n: "length pre = ?n" "?n < Suc maxRetries" using Suc.prems by auto
  have tr: "transient_result (last pre)" using Suc.prems by (simp add: transient_result_def)
  show ?case
  proof (cases "ctxDone (snd ?w)")
    case True
    then have "retry_loop txt t ctx h m topic err (Suc k) ks = (False, snd ?w)"
      by (simp add: Let_def prod.case_eq_if)
    then show ?thesis using Suc.prems n True
      by (intro exI [of _ "[]"]) (simp add: conclusion_def del: retry_loop.simps)
  next
    case False
    note step = False
    show ?thesis
    proof (cases "fst ?c")
      case None
      then have "retry_loop txt t ctx h m topic err (Suc k) ks = (True, snd ?c)"
        using step by (simp add: Let_def prod.case_eq_if)
      then show ?thesis using step None Suc.prems n tr
        by (intro exI [of _ "[None]"]) (simp add: conclusion_def del: retry_loop.simps)
    next
      case (Some e)
      show ?thesis
      proof (cases "IsPermanent e")
        case True
        then have "retry_loop txt t ctx h m topic err (Suc k) ks =
            (True, sendToDLQWithCtx txt t ctx topic m (Error e) ''permanent'' (snd ?c))"
          using step Some by (simp add: Let_def prod.case_eq_if)
        then show ?thesis using step Some True Suc.prems n tr
          by (intro exI [of _ "[Some e]"]) (simp add: conclusion_def del: retry_loop.simps)
      next
        case False
        then have r: "retry_loop txt t ctx h m topic err (Suc k) ks =
            retry_loop txt t ctx h m topic e k (snd ?c)"
          using step Some by (simp add: Let_def prod.case_eq_if)
        have k: "k \<le> maxRetries" "length (pre @ [Some e]) = Suc maxRetries - k"
            "last (pre @ [Some e]) = Some e" "\<not> IsPermanent e"
          using Suc.prems n(1) False by auto
        obtain rs where rs: "length ((pre @ [Some e]) @ rs) \<le> Suc maxRetries"
            "list_all transient_result (butlast (last (pre @ [Some e]) # rs))"
            "fst (retry_loop txt t ctx h m topic e k (snd ?c)) =
               fst (conclusion txt t ctx m ((pre @ [Some e]) @ rs))"
            "calls (snd (retry_loop txt t ctx h m topic e k (snd ?c))) =
               calls (snd ?c) @ retry_calls m (length (pre @ [Some e])) rs
               @ snd (conclusion txt t ctx m ((pre @ [Some e]) @ rs))"
            "fst (retry_loop txt t ctx h m topic e k (snd ?c))
              \<or> ctxDone (snd (retry_loop txt t ctx h m topic e k (snd ?c)))"
          using Suc.IH [OF k, of "snd ?c"] by blast
        show ?thesis unfolding r using rs step Some tr n
          by (intro exI [of _ "Some e # rs"]) simp
      qed
    qed
  qed
qed

lemma handleWithRetry_calls:
  "\<exists>r rs. length rs \<le> maxRetries \<and> list_all transient_result (butlast (r # rs))
    \<and> fst (handleWithRetry txt t ctx h m topic ks) = fst (conclusion txt t ctx m (r # rs))
    \<and> calls (snd (handleWithRetry txt t ctx h m topic ks)) =
        calls ks @ CHandle m r # retry_calls m 1 rs @ snd (conclusion txt t ctx m (r # rs))
    \<and> (fst (handleWithRetry txt t ctx h m topic ks)
       \<or> ctxDone (snd (handleWithRetry txt t ctx h m topic ks)))"
proof -
  let ?c = "call_handler t h 0 m ks"
  have c: "calls (snd ?c) = calls ks @ [CHandle m (fst ?c)]" by simp
  show ?thesis
  proof (cases "fst ?c")
    case None
    then have "handleWithRetry txt t ctx h m topic ks = (True, snd ?c)"
      by (simp add: handleWithRetry_def prod.case_eq_if)
    then show ?thesis using None c
      by (intro exI [of _ None] exI [of _ "[]"]) (simp add: conclusion_def)
  next
    case (Some e)
    show ?thesis
    proof (cases "IsPermanent e")
      case True
      then have "handleWithRetry txt t ctx h m topic ks =
          (True, sendToDLQWithCtx txt t ctx topic m (Error e) ''permanent'' (snd ?c))"
        using Some by (simp add: handleWithRetry_def prod.case_eq_if)
      then show ?thesis using Some True c
        by (intro exI [of _ "Some e"] exI [of _ "[]"]) (simp add: conclusion_def)
    next
      case False
      then have r: "handleWithRetry txt t ctx h m topic ks =
          retry_loop txt t ctx h m topic e maxRetries (snd ?c)"
        using Some by (simp add: handleWithRetry_def prod.case_eq_if)
      obtain rs where rs: "length ([Some e] @ rs) \<le> Suc maxRetries"
          "list_all transient_result (butlast (last [Some e] # rs))"
          "fst (retry_loop txt t ctx h m topic e maxRetries (snd ?c)) = fst (conclusion txt t ctx m ([Some e] @ rs))"
          "calls (snd (retry_loop txt t ctx h m topic e maxRetries (snd ?c))) =
             calls (snd ?c) @ retry_calls m (length [Some e]) rs @ snd (conclusion txt t ctx m ([Some e] @ rs))"
          "fst (retry_loop txt t ctx h m topic e maxRetries (snd ?c))
            \<or> ctxDone (snd (retry_loop txt t ctx h m topic e maxRetries (snd ?c)))"
        using retry_loop_calls [of maxRetries "[Some e]" e "txt" t ctx h m topic "snd ?c"] False by auto
      show ?thesis unfolding r
        using rs Some by (intro exI [of _ "Some e"] exI [of _ rs]) simp
    qed
  qed
qed

section \<open>The calls of a turn\<close>

definition commit_call :: "'s poll_turn \<Rightarrow> KafkaMessage \<Rightarrow> call" where
  "commit_call t m = CCommit (km_Topic m) (km_Partition m) (km_Offset m + 1) (t_commit t)"

inductive turn_calls ::
  "(bytes \<Rightarrow> string) \<Rightarrow> (string \<times> 's handler) list \<Rightarrow> 's poll_turn \<Rightarrow> call list \<Rightarrow> bool"
  for jt :: "bytes \<Rightarrow> string" and hs :: "(string \<times> 's handler) list" and t :: "'s poll_turn"
where
  stopped: "turn_calls jt hs t []"
| poll_error: "t_poll t = Inl e \<Longrightarrow> turn_calls jt hs t [CRead (Inl e)]"
| unhandled: "t_poll t = Inr m \<Longrightarrow> map_of hs (km_Topic m) = None
    \<Longrightarrow> turn_calls jt hs t [CRead (Inr m), commit_call t m]"
| handled: "t_poll t = Inr m \<Longrightarrow> map_of hs (km_Topic m) = Some h
    \<Longrightarrow> length rs \<le> maxRetries \<Longrightarrow> list_all transient_result (butlast (r # rs))
    \<Longrightarrow> conclusion jt t (Some (t_id t)) (km_Value m) (r # rs) = (ok, tail)
    \<Longrightarrow> turn_calls jt hs t (CRead (Inr m) # CHandle (km_Value m) r # retry_calls (km_Value m) 1 rs
          @ tail @ (if ok then [commit_call t m] else []))"

inductive_cases turn_callsE: "turn_calls jt hs t b"

lemma commitOffset_simps [simp]:
  "calls (commitOffset t m ks) = calls ks @ [commit_call t m]"
  "app (commitOffset t m ks) = app ks" "topicHandlers (commitOffset t m ks) = topicHandlers ks"
  "consumerHealthy (commitOffset t m ks) = consumerHealthy ks"
  by (simp_all add: commitOffset_def CommitMessage_def commit_call_def)

lemma consume_turn_calls:
  "\<exists>b. turn_calls txt (topicHandlers ks) t b \<and> calls (snd (consume_turn txt t n ks)) = calls ks @ b"
proof -
  let ?ks = "foldl other_step ks (t_gap t 0)"
  let ?rd = "log_call (CRead (t_poll t)) ?ks"
  show ?thesis
  proof (cases "stopClosed ?ks")
    case True
    then show ?thesis by (intro exI [of _ "[]"]) (simp add: consume_turn_def turn_calls.stopped)
  next
    case False
    show ?thesis
    proof (cases "t_poll t")
      case (Inl e)
      then show ?thesis using False
        by (intro exI [of _ "[CRead (Inl e)]"])
          (simp add: consume_turn_def ReadMessage_def Let_def turn_calls.poll_error)
    next
      case (Inr m)
      show ?thesis
      proof (cases "map_of (topicHandlers ks) (km_Topic m)")
        case None
        then show ?thesis using False Inr
          by (intro exI [of _ "[CRead (Inr m), commit_call t m]"])
            (simp add: consume_turn_def ReadMessage_def Let_def turn_calls.unhandled)
      next
        case (Some h)
        let ?H = "handleWithRetry txt t (Some (t_id t)) h (km_Value m) (km_Topic m) ?rd"
        obtain r rs where *: "length rs \<le> maxRetries" "list_all transient_result (butlast (r # rs))"
            "fst ?H = fst (conclusion txt t (Some (t_id t)) (km_Value m) (r # rs))"
            "calls (snd ?H) = calls ?rd @ CHandle (km_Value m) r # retry_calls (km_Value m) 1 rs
              @ snd (conclusion txt t (Some (t_id t)) (km_Value m) (r # rs))"
          using handleWithRetry_calls [of "txt" t "Some (t_id t)" h "km_Value m" "km_Topic m" ?rd] by blast
        have c: "calls (snd (consume_turn txt t n ks)) =
            calls (snd ?H) @ (if fst ?H then [commit_call t m] else [])"
          using False Inr Some
          by (simp add: consume_turn_def ReadMessage_def WithCorrelationID_def prod.case_eq_if)
        show ?thesis
          using turn_calls.handled [OF Inr Some *(1,2) prod.collapse [symmetric]] c * Inr
          by auto
      qed
    qed
  qed
qed

lemma sendToDLQWithCtx_frame [simp, frame]:
  "topicHandlers (sendToDLQWithCtx txt t ctx topic m reason mr ks) = topicHandlers ks"
  "consumerHealthy (sendToDLQWithCtx txt t ctx topic m reason mr ks) = consumerHealthy ks"
  by (simp_all add: sendToDLQWithCtx_def SendMessage_def Let_def split: sum.split option.split prod.split)

lemma call_handler_frame [simp, frame]:
  "topicHandlers (snd (call_handler t h n m ks)) = topicHandlers ks"
  "consumerHealthy (snd (call_handler t h n m ks)) = consumerHealthy ks"
  by (simp_all add: call_handler_def prod.case_eq_if)

lemma wait_retry_frame [simp, frame]:
  "topicHandlers (snd (wait_retry t n ks)) = topicHandlers ks"
  "consumerHealthy (snd (wait_retry t n ks)) = consumerHealthy ks"
  by (simp_all add: wait_retry_def Let_def)

lemma retry_loop_frame [simp, frame]:
  "topicHandlers (snd (retry_loop txt t ctx h m topic err k ks)) = topicHandlers ks \<and>
   consumerHealthy (snd (retry_loop txt t ctx h m topic err k ks)) = consumerHealthy ks"
  by (induction k arbitrary: err ks) (auto simp: Let_def prod.case_eq_if split: option.split bool.split)

lemma handleWithRetry_frame [simp, frame]:
  "topicHandlers (snd (handleWithRetry txt t ctx h m topic ks)) = topicHandlers ks"
  "consumerHealthy (snd (handleWithRetry txt t ctx h m topic ks)) = consumerHealthy ks"
  by (simp_all add: handleWithRetry_def prod.case_eq_if split: option.split)

lemma consume_turn_frame [simp, frame]:
  "topicHandlers (snd (consume_turn txt t n ks)) = topicHandlers ks"
  by (simp add: consume_turn_def ReadMessage_def Let_def prod.case_eq_if split: sum.split option.split bool.split)

text \<open>The consumer is marked unhealthy in the turn that ends the loop, and only there.\<close>

lemma consume_turn_health:
  "consumerHealthy (snd (consume_turn txt t n ks)) \<longleftrightarrow>
    consumerHealthy ks \<and> fst (consume_turn txt t n ks) \<noteq> None"
  by (simp add: consume_turn_def ReadMessage_def Let_def prod.case_eq_if split: sum.split option.split bool.split)

lemma consume_loop_health:
  "consumerHealthy (snd (consume_loop txt ts n ks)) \<longleftrightarrow>
    consumerHealthy ks \<and> fst (consume_loop txt ts n ks) \<noteq> None"
proof (induction ts arbitrary: n ks)
  case (Cons t ts)
  show ?case
    using consume_turn_health [of "txt" t n ks] Cons.IH
    by (auto simp: prod.case_eq_if split: option.split)
qed simp

lemma consume_loop_calls:
  "\<exists>bs. calls (snd (consume_loop txt ts n ks)) = calls ks @ concat bs
    \<and> (\<forall>b\<in>set bs. \<exists>t\<in>set ts. turn_calls txt (topicHandlers ks) t b)"
proof (induction ts arbitrary: n ks)
  case Nil
  show ?case by (intro exI [of _ "[]"]) simp
next
  case (Cons t ts)
  let ?c = "consume_turn txt t n ks"
  obtain b where b: "turn_calls txt (topicHandlers ks) t b" "calls (snd ?c) = calls ks @ b"
    using consume_turn_calls by blast
  show ?case
  proof (cases "fst ?c")
    case None
    then show ?thesis using b by (intro exI [of _ "[b]"]) (auto simp: prod.case_eq_if)
  next
    case (Some n')
    obtain bs where bs: "calls (snd (consume_loop txt ts n' (snd ?c))) = calls (snd ?c) @ concat bs"
        "\<forall>b\<in>set bs. \<exists>t\<in>set ts. turn_calls txt (topicHandlers ks) t b"
      using Cons.IH [of n' "snd ?c"] by auto
    then show ?thesis using b Some by (intro exI [of _ "b # bs"]) (auto simp: prod.case_eq_if)
  qed
qed

lemma ConsumeEvents_calls:
  "\<exists>xs bs. calls (snd (ConsumeEvents txt sub ts ks)) = calls ks @ xs @ concat bs
    \<and> (xs = [] \<or> (\<exists>topics. xs = [CSubscribe topics sub]))
    \<and> (\<forall>b\<in>set bs. \<exists>t\<in>set ts. turn_calls txt (topicHandlers ks) t b)"
proof -
  let ?sub = "CSubscribe (map fst (topicHandlers ks)) sub"
  obtain bs where bs: "calls (snd (consume_loop txt ts 0 (log_call ?sub ks))) = calls ks @ [?sub] @ concat bs"
      "\<forall>b\<in>set bs. \<exists>t\<in>set ts. turn_calls txt (topicHandlers ks) t b"
    using consume_loop_calls [of "txt" ts 0 "log_call ?sub ks"] by auto
  show ?thesis
  proof (cases "topicHandlers ks = [] \<or> sub \<noteq> None")
    case True
    then show ?thesis
      by (intro exI [of _ "if topicHandlers ks = [] then [] else [?sub]"] exI [of _ "[]"])
        (auto simp: ConsumeEvents_def Let_def)
  next
    case False
    then show ?thesis using bs
      by (intro exI [of _ "[?sub]"] exI [of _ bs]) (simp add: ConsumeEvents_def Let_def)
  qed
qed

section \<open>Commits\<close>

text \<open>The results of the handler in a list of calls, and when they settle a message.\<close>

fun handle_results :: "call list \<Rightarrow> goerr option list" where
  "handle_results [] = []"
| "handle_results (CHandle m r # cs) = r # handle_results cs"
| "handle_results (c # cs) = handle_results cs"

definition settled :: "goerr option list \<Rightarrow> bool" where
  "settled rs \<longleftrightarrow> rs \<noteq> [] \<and>
     (case last rs of None \<Rightarrow> True | Some e \<Rightarrow> IsPermanent e \<or> length rs = Suc maxRetries)"

fun about_message :: "call \<Rightarrow> bool" where
  "about_message (CHandle m r) \<longleftrightarrow> True"
| "about_message (CWait d ok) \<longleftrightarrow> True"
| "about_message (CSend topic key p r) \<longleftrightarrow> True"
| "about_message c \<longleftrightarrow> False"

lemma handle_results_append [simp]: "handle_results (xs @ ys) = handle_results xs @ handle_results ys"
  by (induction xs rule: handle_results.induct) auto

lemma retry_calls_props [simp]:
  "handle_results (retry_calls m n rs) = rs" "list_all about_message (retry_calls m n rs)"
  by (induction rs arbitrary: n) auto

lemma conclusion_props [simp]:
  "handle_results (snd (conclusion txt t ctx m rs)) = []"
  "list_all about_message (snd (conclusion txt t ctx m rs))"
  "rs \<noteq> [] \<Longrightarrow> fst (conclusion txt t ctx m rs) \<longleftrightarrow> settled rs"
  by (auto simp: conclusion_def dlq_calls_def settled_def split: option.split sum.split)

lemma concat_split:
  "concat bs = xs @ c # ys \<Longrightarrow>
    \<exists>bs1 b1 b2 bs2. bs = bs1 @ (b1 @ c # b2) # bs2 \<and> xs = concat bs1 @ b1 \<and> ys = b2 @ concat bs2"
proof (induction bs arbitrary: xs)
  case (Cons b bs)
  from Cons.prems consider us where "xs = b @ us" "concat bs = us @ c # ys"
    | us where "b = xs @ c # us" "ys = us @ concat bs"
    by (auto simp: append_eq_append_conv2 append_eq_Cons_conv Cons_eq_append_conv)
  then show ?case
  proof cases
    case 1
    then obtain bs1 b1 b2 bs2 where "bs = bs1 @ (b1 @ c # b2) # bs2" "us = concat bs1 @ b1"
        "ys = b2 @ concat bs2"
      using Cons.IH by blast
    with 1 show ?thesis by (intro exI [of _ "b # bs1"]) auto
  next
    case 2
    then show ?thesis
      by (intro exI [of _ "[]"] exI [of _ xs] exI [of _ us] exI [of _ bs]) simp
  qed
qed simp

lemma commit_last:
  assumes "list_all about_message b" "x # b @ (if ok then [c] else []) = b1 @ CCommit topic p off r # b2"
    "\<forall>topic p off r. x \<noteq> CCommit topic p off r"
  shows "ok \<and> c = CCommit topic p off r \<and> b1 = x # b \<and> b2 = []"
proof -
  have n: "CCommit topic p off r \<notin> set (x # b)" using assms(1,3) by (auto simp: list_all_iff)
  show ?thesis
  proof (cases ok)
    case True
    then have "(x # b) @ [c] = b1 @ CCommit topic p off r # b2" using assms(2) by simp
    then show ?thesis using n True
      by (cases b2 rule: rev_cases) (auto simp: Cons_eq_append_conv append_eq_append_conv2)
  next
    case False
    then have "x # b = b1 @ CCommit topic p off r # b2" using assms(2) by simp
    then show ?thesis using n by (metis in_set_conv_decomp)
  qed
qed

lemma turn_calls_commit:
  assumes "turn_calls txt hs t b" "b = b1 @ CCommit topic p off r # b2"
  shows "\<exists>m mid. t_poll t = Inr m \<and> b1 = CRead (Inr m) # mid
    \<and> topic = km_Topic m \<and> p = km_Partition m \<and> off = km_Offset m + 1
    \<and> list_all about_message mid
    \<and> (if map_of hs topic = None then mid = [] else settled (handle_results mid))"
  using assms(1)
proof (cases rule: turn_calls.cases)
  case (unhandled m)
  have "True \<and> commit_call t m = CCommit topic p off r \<and> b1 = CRead (Inr m) # [] \<and> b2 = []"
    by (rule commit_last) (use assms(2) unhandled(1) in auto)
  then show ?thesis using unhandled(2,3) by (auto simp: commit_call_def)
next
  case (handled m h rs r' ok tail)
  have ok: "ok \<longleftrightarrow> settled (r' # rs)" "tail = snd (conclusion txt t (Some (t_id t)) (km_Value m) (r' # rs))"
    using handled(6) conclusion_props(3) [of "r' # rs" "txt" t "Some (t_id t)" "km_Value m"] by auto
  have a: "list_all about_message (CHandle (km_Value m) r' # retry_calls (km_Value m) 1 rs @ tail)"
    by (simp add: ok(2))
  have "ok \<and> commit_call t m = CCommit topic p off r
      \<and> b1 = CRead (Inr m) # CHandle (km_Value m) r' # retry_calls (km_Value m) 1 rs @ tail \<and> b2 = []"
    by (rule commit_last [OF a]) (use assms(2) handled(1) in auto)
  then show ?thesis using handled(2,3) a ok by (auto simp: commit_call_def)
next
  case stopped
  then show ?thesis using assms(2) by simp
next
  case (poll_error e)
  then have "CCommit topic p off r \<in> set [CRead (Inl e)]" using assms(2) by (metis in_set_conv_decomp)
  then show ?thesis by simp
qed

section \<open>When consumption ends\<close>

definition poll_failed :: "'s poll_turn \<Rightarrow> bool" where
  "poll_failed t \<longleftrightarrow> (case t_poll t of Inl e \<Rightarrow> True | Inr m \<Rightarrow> False)"

definition lost_connection :: "'s poll_turn \<Rightarrow> bool" where
  "lost_connection t \<longleftrightarrow> (case t_poll t of Inl e \<Rightarrow> connection_error e | Inr m \<Rightarrow> False)"

definition lost_connections :: "'s poll_turn list \<Rightarrow> nat" where
  "lost_connections ts = length (filter lost_connection ts)"

lemma stopClosed_others: "stopClosed (foldl other_step ks xs) \<longleftrightarrow> stopClosed ks \<or> Close \<in> set xs"
proof (induction xs arbitrary: ks)
  case (Cons x xs)
  then show ?case
    by (cases x) (auto simp: StopConsuming_cancel_def StopConsuming_close_def)
qed simp

lemma stopClosed_frame [simp, frame]:
  "stopClosed (sendToDLQWithCtx txt t ctx topic m reason mr ks) = stopClosed ks"
  "stopClosed (snd (call_handler t h n m ks)) = stopClosed ks"
  "stopClosed (commitOffset t msg ks) = stopClosed ks"
  "stopClosed (snd (wait_retry t n ks)) \<longleftrightarrow> stopClosed ks \<or> Close \<in> set (t_gap t n)"
  by (simp_all add: sendToDLQWithCtx_def SendMessage_def Let_def call_handler_def commitOffset_def
      CommitMessage_def wait_retry_def stopClosed_others prod.case_eq_if split: sum.split option.split)

lemma retry_loop_open:
  "\<forall>n. Close \<notin> set (t_gap t n) \<Longrightarrow>
    stopClosed (snd (retry_loop txt t ctx h m topic err k ks)) = stopClosed ks"
  by (induction k arbitrary: err ks) (auto simp: Let_def prod.case_eq_if split: option.split bool.split)

lemma handleWithRetry_open:
  "\<forall>n. Close \<notin> set (t_gap t n) \<Longrightarrow>
    stopClosed (snd (handleWithRetry txt t ctx h m topic ks)) = stopClosed ks"
  by (simp add: handleWithRetry_def prod.case_eq_if retry_loop_open split: option.split)

lemma consume_turn_open:
  assumes "\<forall>n. Close \<notin> set (t_gap t n)" "\<not> stopClosed ks"
  shows "fst (consume_turn txt t n ks) =
      (if poll_failed t
       then (if lost_connection t then (if n + 1 > 10 then None else Some (n + 1)) else Some n)
       else Some 0)"
    and "\<not> stopClosed (snd (consume_turn txt t n ks))"
proof -
  let ?ks = "foldl other_step ks (t_gap t 0)"
  have o: "\<not> stopClosed ?ks" using assms by (simp add: stopClosed_others)
  have d: "timed_out e \<Longrightarrow> \<not> connection_error e" for e
    by (cases e rule: connection_error.cases) auto
  show "fst (consume_turn txt t n ks) =
      (if poll_failed t
       then (if lost_connection t then (if n + 1 > 10 then None else Some (n + 1)) else Some n)
       else Some 0)"
    using o d by (auto simp: consume_turn_def ReadMessage_def Let_def prod.case_eq_if
        poll_failed_def lost_connection_def split: sum.split option.split bool.split)
  show "\<not> stopClosed (snd (consume_turn txt t n ks))"
    using o by (auto simp: consume_turn_def ReadMessage_def Let_def prod.case_eq_if
        handleWithRetry_open [OF assms(1)] split: sum.split option.split bool.split)
qed

lemma consume_loop_ends:
  assumes "\<forall>t\<in>set ts. \<forall>n. Close \<notin> set (t_gap t n)" "\<not> stopClosed ks" "n \<le> 10"
  shows "fst (consume_loop txt ts n ks) = None \<longleftrightarrow>
    (\<exists>bs. prefix bs ts \<and> list_all poll_failed bs \<and> n + lost_connections bs > 10)
    \<or> (\<exists>bs. sublist bs ts \<and> list_all poll_failed bs \<and> lost_connections bs > 10)"
  using assms
proof (induction ts arbitrary: n ks)
  case Nil
  then show ?case by (auto simp: lost_connections_def)
next
  case (Cons t ts)
  let ?c = "consume_turn txt t n ks"
  have t: "\<forall>n. Close \<notin> set (t_gap t n)" using Cons.prems(1) by simp
  note open_turn = consume_turn_open [OF t Cons.prems(2)]
  have c: "fst ?c = (if poll_failed t
       then (if lost_connection t then (if n + 1 > 10 then None else Some (n + 1)) else Some n)
       else Some 0)" by (rule open_turn(1))
  have IH: "fst (consume_loop txt ts n' (snd ?c)) = None \<longleftrightarrow>
      (\<exists>bs. prefix bs ts \<and> list_all poll_failed bs \<and> n' + lost_connections bs > 10)
      \<or> (\<exists>bs. sublist bs ts \<and> list_all poll_failed bs \<and> lost_connections bs > 10)" if "n' \<le> 10" for n'
    using Cons.IH [OF _ open_turn(2) that] Cons.prems(1) by simp
  have l: "fst (consume_loop txt (t # ts) n ks) =
      (case fst ?c of None \<Rightarrow> None | Some n' \<Rightarrow> fst (consume_loop txt ts n' (snd ?c)))"
    by (simp add: prod.case_eq_if split: option.split)
  have cons: "lost_connections (t # bs) = (if lost_connection t then 1 else 0) + lost_connections bs" for bs
    by (simp add: lost_connections_def)
  have lost: "lost_connection t \<Longrightarrow> poll_failed t"
    by (simp add: poll_failed_def lost_connection_def split: sum.splits)
  let ?p = "\<lambda>ts n. \<exists>bs. prefix bs ts \<and> list_all poll_failed bs \<and> n + lost_connections bs > 10"
  let ?s = "\<lambda>ts. \<exists>bs. sublist bs ts \<and> list_all poll_failed bs \<and> lost_connections bs > 10"
  have p: "?p (t # ts) n' \<longleftrightarrow>
      n' > 10 \<or> poll_failed t \<and> ?p ts (n' + (if lost_connection t then 1 else 0))" (is "?l \<longleftrightarrow> ?r") for n'
  proof
    assume ?l
    then obtain bs where bs: "prefix bs (t # ts)" "list_all poll_failed bs" "n' + lost_connections bs > 10"
      by blast
    then show ?r using cons by (cases bs) (auto simp: lost_connections_def add.assoc)
  next
    assume ?r
    then show ?l
    proof
      assume "poll_failed t \<and> ?p ts (n' + (if lost_connection t then 1 else 0))"
      then obtain bs where "prefix bs ts" "list_all poll_failed bs" "poll_failed t"
          "n' + (if lost_connection t then 1 else 0) + lost_connections bs > 10" by blast
      then show ?l using cons by (intro exI [of _ "t # bs"]) simp
    qed (intro exI [of _ "[]"], simp)
  qed
  have mono: "?p ts a \<Longrightarrow> a \<le> b \<Longrightarrow> ?p ts b" for a b and ts :: "'a poll_turn list" by fastforce
  have s: "?s (t # ts) \<longleftrightarrow> ?p (t # ts) 0 \<or> ?s ts" by (auto simp: sublist_Cons_right)
  have q: "?p ts 0 \<Longrightarrow> ?s ts" by auto
  show ?case
  proof (cases "poll_failed t")
    case False
    then show ?thesis unfolding s l c using IH [of 0] lost p [of n] p [of 0] q Cons.prems(3) by auto
  next
    case True
    let ?d = "if lost_connection t then 1 else 0 :: nat"
    have pn: "?p (t # ts) n \<longleftrightarrow> ?p ts (n + ?d)" "?p (t # ts) 0 \<longleftrightarrow> ?p ts ?d"
      using p [of n] p [of 0] True Cons.prems(3) by auto
    show ?thesis
    proof (cases "n + ?d > 10")
      case big: True
      then have "fst ?c = None" using c True Cons.prems(3) by (auto split: if_splits)
      moreover have "?p ts (n + ?d)" using big by (intro exI [of _ "[]"]) simp
      ultimately show ?thesis unfolding l using pn(1) by simp
    next
      case small: False
      then have "fst ?c = Some (n + ?d)" using c True by auto
      then have "fst (consume_loop txt (t # ts) n ks) = None \<longleftrightarrow> ?p ts (n + ?d) \<or> ?s ts"
        unfolding l using IH [of "n + ?d"] small by simp
      then show ?thesis unfolding s pn using mono [of ts ?d "n + ?d"] by fastforce
    qed
  qed
qed

section \<open>What the consumer keeps, whatever its handlers are\<close>

text \<open>
  A relation between what the consumer has called and the state it shares with its handlers,
  before and after: the consumer is in the relation as soon as its four elementary steps are,
  which are a call of a handler, any other call, a counter, and what the other goroutines do.
  Invariants of the state and accounts of the calls are both relations of this kind.
\<close>

fun handler_call :: "call \<Rightarrow> bool" where
  "handler_call (CHandle m r) \<longleftrightarrow> True"
| "handler_call _ \<longleftrightarrow> False"

locale consumer_relation =
  fixes handlers :: "(string \<times> 's handler) list"
    and R :: "call list \<times> 's ingest \<Rightarrow> call list \<times> 's ingest \<Rightarrow> bool"
  assumes R_refl: "R x x"
    and R_trans: "R x y \<Longrightarrow> R y z \<Longrightarrow> R x z"
    and R_handler: "(topic, h) \<in> set handlers
      \<Longrightarrow> R (cs, st) (cs @ [CHandle v (fst (h ck (value_bytes v) st))], snd (h ck (value_bytes v) st))"
    and R_call: "\<not> handler_call c \<Longrightarrow> R (cs, st) (cs @ [c], st)"
    and R_counter: "R (cs, st) (cs, Inc mt st)"
begin

definition related :: "'s KafkaService \<Rightarrow> 's KafkaService \<Rightarrow> bool" where
  "related ks ks' \<longleftrightarrow> R (calls ks, app ks) (calls ks', app ks')"

definition calm :: "'s poll_turn \<Rightarrow> bool" where
  "calm t \<longleftrightarrow> (\<forall>n f cs st. Work f \<in> set (t_gap t n) \<longrightarrow> R (cs, st) (cs, f st))"

lemma related_trans: "related ks ks1 \<Longrightarrow> related ks1 ks2 \<Longrightarrow> related ks ks2"
  unfolding related_def by (rule R_trans)

lemma related_same [simp]: "calls ks' = calls ks \<Longrightarrow> app ks' = app ks \<Longrightarrow> related ks ks'"
  by (simp add: related_def R_refl)

lemma log_related: "\<not> handler_call c \<Longrightarrow> related ks (log_call c ks)"
  by (simp add: related_def R_call)

lemma inc_related: "related ks (ks\<lparr>app := Inc mt (app ks)\<rparr>)"
  by (simp add: related_def R_counter)

lemma others_related:
  assumes "calm t"
  shows "related ks (foldl other_step ks (t_gap t n))"
proof -
  have "set xs \<subseteq> set (t_gap t n) \<Longrightarrow> related ks (foldl other_step ks xs)" for xs
  proof (induction xs arbitrary: ks)
    case (Cons x xs)
    have "related ks (other_step ks x)"
      using Cons.prems assms
      by (cases x) (auto simp: related_def calm_def R_refl StopConsuming_cancel_def StopConsuming_close_def)
    then show ?case using Cons related_trans by simp
  qed simp
  then show ?thesis by blast
qed

lemma dlq_related: "related ks (sendToDLQWithCtx txt t ctx topic m reason mr ks)"
proof -
  have s: "related ks (log_call (CSend x y z r) ks)" for x y z r by (rule log_related) simp
  show ?thesis
    using s related_trans [OF s inc_related]
    by (auto simp: sendToDLQWithCtx_def SendMessage_def Let_def split: sum.split option.split prod.split)
qed

lemma call_related: "(topic', h) \<in> set handlers \<Longrightarrow> related ks (snd (call_handler t h n m ks))"
  by (simp add: related_def R_handler)

lemma wait_related: "calm t \<Longrightarrow> related ks (snd (wait_retry t n ks))"
  using related_trans [OF others_related log_related] by (simp add: wait_retry_def Let_def)

lemma retry_related:
  "(topic', h) \<in> set handlers \<Longrightarrow> calm t \<Longrightarrow> related ks (snd (retry_loop txt t ctx h m topic err k ks))"
proof (induction k arbitrary: err ks)
  case 0
  then show ?case by (simp add: dlq_related)
next
  case (Suc k)
  let ?n = "maxRetries - k"
  let ?w = "wait_retry t ?n (ks\<lparr>app := Inc (KafkaRetryAttemptsTotal topic) (app ks)\<rparr>)"
  let ?c = "call_handler t h ?n m (snd ?w)"
  have w: "related ks (snd ?w)"
    by (rule related_trans [OF inc_related wait_related [OF Suc.prems(2)]])
  then have c: "related ks (snd ?c)" using call_related [OF Suc.prems(1)] by (rule related_trans)
  show ?case
    using w c related_trans [OF c Suc.IH [OF Suc.prems]] related_trans [OF c dlq_related]
    by (auto simp: Let_def prod.case_eq_if simp del: call_handler_simps wait_retry_calls
        split: option.split bool.split)
qed

lemma handle_related:
  assumes "(topic', h) \<in> set handlers" "calm t"
  shows "related ks (snd (handleWithRetry txt t ctx h m topic ks))"
proof -
  have c: "related ks (snd (call_handler t h 0 m ks))" by (rule call_related [OF assms(1)])
  show ?thesis
    using c related_trans [OF c retry_related [OF assms]] related_trans [OF c dlq_related]
    by (auto simp: handleWithRetry_def prod.case_eq_if simp del: call_handler_simps split: option.split)
qed

lemma turn_related:
  assumes "topicHandlers ks = handlers" "calm t"
  shows "related ks (snd (consume_turn txt t n ks))"
proof -
  let ?o = "foldl other_step ks (t_gap t 0)"
  have o: "related ks ?o" using assms(2) by (rule others_related)
  have r: "related ks (log_call (CRead p) ?o)" for p by (rule related_trans [OF o log_related]) simp
  have h: "related ks (snd (handleWithRetry txt t ctx h m topic (log_call (CRead p) ?o)))"
    if "map_of handlers topic' = Some h" for ctx h m topic topic' p
    using related_trans [OF r handle_related [OF map_of_SomeD [OF that] assms(2)]] .
  have c: "related ks ks' \<Longrightarrow> related ks (commitOffset t msg ks')" for msg ks'
    by (rule related_trans [of _ ks']) (simp_all add: commitOffset_def CommitMessage_def log_related)
  have u: "related ks ks' \<Longrightarrow> related ks (ks'\<lparr>consumerHealthy := b\<rparr>)" for ks' b
    by (rule related_trans [of _ ks']) simp_all
  show ?thesis
    using o r h assms(1)
    by (auto simp: consume_turn_def ReadMessage_def Let_def prod.case_eq_if intro!: c u
        split: sum.split option.split bool.split)
qed

lemma loop_related:
  assumes "topicHandlers ks = handlers" "list_all calm ts"
  shows "related ks (snd (consume_loop txt ts n ks))"
  using assms
proof (induction ts arbitrary: n ks)
  case (Cons t ts)
  have t: "related ks (snd (consume_turn txt t n ks))" using Cons.prems by (simp add: turn_related)
  have "related (snd (consume_turn txt t n ks)) (snd (consume_loop txt ts k (snd (consume_turn txt t n ks))))" for k
    using Cons by simp
  then show ?case using t related_trans [OF t] by (auto simp: prod.case_eq_if split: option.split)
qed simp

lemma consumer_related:
  assumes "topicHandlers ks = handlers" "list_all calm ts"
  shows "related ks (snd (ConsumeEvents txt sub ts ks))"
proof -
  have l: "related ks (log_call (CSubscribe x y) ks)" for x y by (rule log_related) simp
  have "related ks (snd (consume_loop txt ts n (log_call (CSubscribe x y) ks)))" for n x y
    using assms by (intro related_trans [OF l loop_related]) simp_all
  then show ?thesis using l by (auto simp: ConsumeEvents_def Let_def split: option.split)
qed

end

section \<open>Handlers that keep an invariant\<close>

text \<open>The work of the other goroutines in a turn keeps the invariant.\<close>

definition quiet :: "('s ingest \<Rightarrow> bool) \<Rightarrow> 's poll_turn \<Rightarrow> bool" where
  "quiet I t \<longleftrightarrow> (\<forall>n f st. Work f \<in> set (t_gap t n) \<longrightarrow> I st \<longrightarrow> I (f st))"

text \<open>
  What a service registers: handlers that keep an invariant of the state they share with the
  rest of the program. The consumer adds nothing but counters, so it keeps the invariant too.
\<close>

locale message_handlers =
  fixes handlers :: "(string \<times> 's handler) list" and I :: "'s ingest \<Rightarrow> bool"
  assumes handler_keeps: "(topic, h) \<in> set handlers \<Longrightarrow> I st \<Longrightarrow> I (snd (h ck m st))"
    and counter_keeps: "I st \<Longrightarrow> I (Inc mt st)"
begin

sublocale keeps: consumer_relation handlers "\<lambda>x y. I (snd x) \<longrightarrow> I (snd y)"
  by unfold_locales (auto simp: handler_keeps counter_keeps)

lemma quiet_calm: "quiet I t \<Longrightarrow> keeps.calm t"
  by (simp add: quiet_def keeps.calm_def)

lemma consumer_keeps:
  assumes "topicHandlers ks = handlers" "list_all (quiet I) ts" "I (app ks)"
  shows "I (app (snd (ConsumeEvents txt sub ts ks)))"
proof -
  have "list_all keeps.calm ts" using assms(2) by (rule list.pred_mono_strong) (rule quiet_calm)
  from keeps.consumer_related [OF assms(1) this] assms(3) show ?thesis
    by (simp add: keeps.related_def)
qed

end

interpretation intake: message_handlers
    "[(topic, \<lambda>ck. HandleMessage L P ck s)]" "\<lambda>st. notifier_inv (notifier st)"
  for topic :: string and L :: libs and P :: "'s ports" and s :: EventIngestionService
  by unfold_locales (auto intro: HandleMessage_notifier)

section \<open>Examples\<close>

definition plain_turn :: "(goerr + KafkaMessage) \<Rightarrow> 's poll_turn" where
  "plain_turn poll = \<lparr>t_gap = (\<lambda>n. []), t_poll = poll, t_id = ''c1'', t_clock = (\<lambda>n. plain_clock), t_now = 0,
     t_produce = None, t_delivery = None, t_commit = None\<rparr>"

definition plain_message :: "string \<Rightarrow> bytes \<Rightarrow> 64 word \<Rightarrow> KafkaMessage" where
  "plain_message topic v off = \<lparr>km_Value = Some v, km_Topic = topic, km_Partition = 0, km_Offset = off\<rparr>"

text \<open>A handler that finds the stores down for one message and up for the others.\<close>

definition moody :: "unit handler" where
  "moody ck m st = (if m = ''down'' then Some (TransientError ''db'' None) else None, st)"

definition moody_service :: "unit KafkaService" where
  "moody_service = RegisterHandler ''intake'' moody (NewKafkaService plain_state)"

lemma moody_service_simps [simp]:
  "topicHandlers moody_service = [(''intake'', moody)]" "calls moody_service = []"
  "\<not> stopClosed moody_service" "\<not> ctxDone moody_service" "consumerHealthy moody_service"
  by (simp_all add: moody_service_def RegisterHandler_def NewKafkaService_def)

section \<open>Properties\<close>

text \<open>
  C4. At least once: whenever an offset is committed, the last message read is the one
  committed (by the offset after it), and since it was read its handler has settled it: it
  succeeded, failed for good, or failed four times; a message of a topic without a handler is
  committed as it is.
\<close>

theorem commit_needs_outcome:
  assumes "calls (snd (ConsumeEvents txt sub ts ks)) = calls ks @ xs @ CCommit topic p off r # ys"
  shows "\<exists>zs m mid. xs = zs @ CRead (Inr m) # mid
    \<and> topic = km_Topic m \<and> p = km_Partition m \<and> off = km_Offset m + 1
    \<and> list_all about_message mid
    \<and> (if map_of (topicHandlers ks) topic = None then mid = [] else settled (handle_results mid))"
proof -
  obtain us bs where c: "calls (snd (ConsumeEvents txt sub ts ks)) = calls ks @ us @ concat bs"
      and us: "us = [] \<or> (\<exists>topics. us = [CSubscribe topics sub])"
      and bs: "\<forall>b\<in>set bs. \<exists>t\<in>set ts. turn_calls txt (topicHandlers ks) t b"
    using ConsumeEvents_calls [of "txt" sub ts ks] by blast
  have "us @ concat bs = xs @ CCommit topic p off r # ys" using assms c by simp
  then obtain vs where vs: "xs = us @ vs" "concat bs = vs @ CCommit topic p off r # ys"
    using us by (cases xs) (fastforce, auto)
  obtain bs1 b1 b2 bs2 where b: "bs = bs1 @ (b1 @ CCommit topic p off r # b2) # bs2" "vs = concat bs1 @ b1"
    using concat_split [OF vs(2)] by blast
  then obtain t where "turn_calls txt (topicHandlers ks) t (b1 @ CCommit topic p off r # b2)"
    using bs by auto
  from turn_calls_commit [OF this refl] obtain m mid where m:
      "b1 = CRead (Inr m) # mid" "topic = km_Topic m" "p = km_Partition m" "off = km_Offset m + 1"
      "list_all about_message mid"
      "if map_of (topicHandlers ks) topic = None then mid = [] else settled (handle_results mid)"
    by blast
  then have "xs = (us @ concat bs1) @ CRead (Inr m) # mid" using vs b by simp
  with m(2-) show ?thesis by blast
qed

theorem commit_needs_outcome_witness:
  "\<exists>zs m mid. [CSubscribe [''intake''] None, CRead (Inr (plain_message ''intake'' ''ok'' 7)),
      CHandle (Some ''ok'') None] = zs @ CRead (Inr m) # mid \<and> settled (handle_results mid)"
proof -
  have c: "calls (snd (ConsumeEvents (\<lambda>b. []) None [plain_turn (Inr (plain_message ''intake'' ''ok'' 7))] moody_service))
    = calls moody_service @ [CSubscribe [''intake''] None, CRead (Inr (plain_message ''intake'' ''ok'' 7)),
        CHandle (Some ''ok'') None] @ CCommit ''intake'' 0 8 None # []"
    by (simp add: ConsumeEvents_def consume_turn_def plain_turn_def plain_message_def ReadMessage_def
        handleWithRetry_def call_handler_def moody_def value_bytes_def commit_call_def)
  from commit_needs_outcome [OF c] obtain zs m mid where
      "[CSubscribe [''intake''] None, CRead (Inr (plain_message ''intake'' ''ok'' 7)),
        CHandle (Some ''ok'') None] = zs @ CRead (Inr m) # mid" "settled (handle_results mid)"
    by auto
  then show ?thesis by blast
qed

text \<open>
  C19. Retries are bounded: a message is handled at most four times, after waits of 1, 4 and 9
  seconds at most, the square of the attempt, where the comment on the loop announces an exponential
  back-off; every result but the last was transient; and only a cancelled context leaves the message
  without an outcome.
\<close>

theorem retries_are_bounded:
  "\<exists>r rs end. calls (snd (handleWithRetry txt t ctx h m topic ks)) =
        calls ks @ CHandle m r # retry_calls m 1 rs @ end
    \<and> length rs \<le> 3 \<and> list_all transient_result (butlast (r # rs))
    \<and> map retry_backoff [1, 2, 3] = [Second, 4 * Second, 9 * Second]
    \<and> handle_results end = []
    \<and> fst (handleWithRetry txt t ctx h m topic ks) = settled (r # rs)
    \<and> (fst (handleWithRetry txt t ctx h m topic ks)
       \<or> ctxDone (snd (handleWithRetry txt t ctx h m topic ks)) \<and> end = [CWait (retry_backoff (Suc (length rs))) False])"
proof -
  obtain r rs where *: "length rs \<le> maxRetries" "list_all transient_result (butlast (r # rs))"
      "fst (handleWithRetry txt t ctx h m topic ks) = fst (conclusion txt t ctx m (r # rs))"
      "calls (snd (handleWithRetry txt t ctx h m topic ks)) =
        calls ks @ CHandle m r # retry_calls m 1 rs @ snd (conclusion txt t ctx m (r # rs))"
      "fst (handleWithRetry txt t ctx h m topic ks) \<or> ctxDone (snd (handleWithRetry txt t ctx h m topic ks))"
    using handleWithRetry_calls [of "txt" t ctx h m topic ks] by blast
  have "\<not> fst (conclusion txt t ctx m (r # rs)) \<Longrightarrow>
      snd (conclusion txt t ctx m (r # rs)) = [CWait (retry_backoff (Suc (length rs))) False]"
    by (auto simp: conclusion_def split: option.splits if_splits)
  then show ?thesis using *
    by (intro exI [of _ r] exI [of _ rs] exI [of _ "snd (conclusion txt t ctx m (r # rs))"])
      (auto simp: maxRetries_def retry_backoff_def)
qed

text \<open>
  The health flag of the consumer is lowered exactly when the loop returns. A consumer that
  returns before the loop, because no topic is registered or the subscription failed, still
  counts as healthy.
\<close>

theorem consumer_health:
  "IsConsumerHealthy (snd (ConsumeEvents txt sub ts ks)) \<longleftrightarrow>
     IsConsumerHealthy ks
     \<and> (if topicHandlers ks = [] then True
          else case sub of Some err \<Rightarrow> True | None \<Rightarrow> fst (ConsumeEvents txt sub ts ks) \<noteq> None)"
  by (auto simp: ConsumeEvents_def IsConsumerHealthy_def Let_def consume_loop_health split: option.splits)

text \<open>
  C25. With a registered topic and a successful subscription, and while nobody stops it, the consumer
  gives up exactly when it meets more than ten connection errors without reading a message in between;
  time-outs and other errors neither count nor reset the count.
\<close>

theorem consumption_ends_iff:
  assumes "\<forall>t\<in>set ts. \<forall>n. Close \<notin> set (t_gap t n)" "\<not> stopClosed ks" "topicHandlers ks \<noteq> []"
  shows "fst (ConsumeEvents txt None ts ks) = None \<longleftrightarrow>
    (\<exists>bs. sublist bs ts \<and> list_all poll_failed bs \<and> lost_connections bs > 10)"
proof -
  have "fst (ConsumeEvents txt None ts ks) =
      fst (consume_loop txt ts 0 (log_call (CSubscribe (map fst (topicHandlers ks)) None) ks))"
    using assms(3) by (simp add: ConsumeEvents_def Let_def)
  then show ?thesis using consume_loop_ends [OF assms(1), of _ 0 "txt"] assms(2)
    by auto
qed

theorem consumption_ends_iff_witness:
  "fst (ConsumeEvents (\<lambda>b. []) None
      (replicate 11 (plain_turn (Inl (KafkaError ErrTransport ''down'')))) moody_service) = None"
proof -
  let ?ts = "replicate 11 (plain_turn (Inl (KafkaError ErrTransport ''down'')))"
  have "list_all poll_failed ?ts \<and> lost_connections ?ts > 10"
    by (simp add: list_all_iff poll_failed_def lost_connections_def lost_connection_def plain_turn_def)
  moreover have "\<forall>t\<in>set ?ts. \<forall>n. Close \<notin> set (t_gap t n)" by (simp add: plain_turn_def)
  ultimately show ?thesis
    using consumption_ends_iff [of ?ts moody_service "\<lambda>b. []"] by auto
qed

text \<open>
  C24. A message that fails for good is committed whatever becomes of its dead letter: the
  broker may refuse it, and it is not even sent when the message is not JSON.
\<close>

theorem permanent_failure_is_committed:
  assumes "\<not> stopClosed (foldl other_step ks (t_gap t 0))" "t_poll t = Inr m"
    "map_of (topicHandlers ks) (km_Topic m) = Some h"
    "fst (h (t_clock t 0) (value_bytes (km_Value m)) (app (foldl other_step ks (t_gap t 0)))) = Some err"
    "IsPermanent err"
  shows "\<exists>letter. calls (snd (consume_turn txt t n ks)) =
      calls ks @ CRead (Inr m) # CHandle (km_Value m) (Some err) # letter @ [commit_call t m]
    \<and> (t_produce t = Some refused \<longrightarrow> letter = [] \<or> (\<exists>p. letter = [CSend dlqTopic [] p (Some refused)]))
    \<and> (\<forall>raw. km_Value m = Some raw \<longrightarrow> (letter = [] \<longleftrightarrow> \<not> json_Valid raw))"
proof -
  have c: "calls (snd (consume_turn txt t n ks)) = calls ks @ CRead (Inr m) # CHandle (km_Value m) (Some err)
      # dlq_calls txt t (Some (t_id t)) (km_Value m) (Error err) @ [commit_call t m]"
    using assms
    by (simp add: consume_turn_def ReadMessage_def handleWithRetry_def prod.case_eq_if WithCorrelationID_def)
  have "json_Valid raw \<or> \<not> json_Valid raw" for raw by blast
  then show ?thesis unfolding c
    by (intro exI [of _ "dlq_calls txt t (Some (t_id t)) (km_Value m) (Error err)"])
      (auto simp: dlq_calls_def dlq_payload_def RawMessage_json_def Marshal_raw_def split: option.split)
qed

theorem permanent_failure_is_committed_witness:
  "calls (snd (consume_turn (\<lambda>b. ''invalid'') (plain_turn (Inr (plain_message ''intake'' ''oops'' 7))) 0
      (RegisterHandler ''intake'' (\<lambda>ck. HandleMessage plain_libs (unit_ports True) ck (NewEventIngestionService None False))
         (NewKafkaService plain_state))))
    = [CRead (Inr (plain_message ''intake'' ''oops'' 7)),
       CHandle (Some ''oops'') (Some (PermanentError ''invalid JSON'' (Some (TextError ''invalid JSON'')))),
       CCommit ''intake'' 0 8 None]"
proof -
  let ?ks = "RegisterHandler ''intake'' (\<lambda>ck. HandleMessage plain_libs (unit_ports True) ck
      (NewEventIngestionService None False)) (NewKafkaService plain_state)"
  let ?m = "plain_message ''intake'' ''oops'' 7"
  let ?e = "PermanentError ''invalid JSON'' (Some (TextError ''invalid JSON''))"
  have v: "\<not> json_Valid ''oops''" by code_simp
  have ks: "topicHandlers ?ks = [(''intake'', \<lambda>ck. HandleMessage plain_libs (unit_ports True) ck
      (NewEventIngestionService None False))]" "\<not> stopClosed ?ks" "calls ?ks = []"
    by (simp_all add: RegisterHandler_def NewKafkaService_def)
  have m: "km_Value ?m = Some ''oops''" "km_Topic ?m = ''intake''" by (simp_all add: plain_message_def)
  have h: "fst (HandleMessage plain_libs (unit_ports True) ck (NewEventIngestionService None False) ''oops'' st)
      = Some ?e" for ck st
    using v by (simp add: HandleMessage_def Unmarshal_map_invalid NewPermanentError_def plain_libs_def)
  have "\<exists>letter. calls (snd (consume_turn (\<lambda>b. ''invalid'') (plain_turn (Inr ?m)) 0 ?ks)) =
      calls ?ks @ CRead (Inr ?m) # CHandle (km_Value ?m) (Some ?e) # letter @ [commit_call (plain_turn (Inr ?m) :: unit poll_turn) ?m]
    \<and> (t_produce (plain_turn (Inr ?m) :: unit poll_turn) = Some (TextError []) \<longrightarrow> letter = [] \<or>
        (\<exists>p. letter = [CSend dlqTopic [] p (Some (TextError []))]))
    \<and> (\<forall>raw. km_Value ?m = Some raw \<longrightarrow> (letter = [] \<longleftrightarrow> \<not> json_Valid raw))"
    by (rule permanent_failure_is_committed) (simp_all add: ks m plain_turn_def value_bytes_def, rule h)
  then show ?thesis using v
    by (auto simp: ks m commit_call_def plain_turn_def) (simp_all add: plain_message_def)
qed

text \<open>
  \<open>StopConsuming\<close> cancels the context before it closes the channel. In between, the message
  whose retry was cancelled is left uncommitted, but the next one of the same partition may be
  handled and committed, and its commit covers both.
\<close>

theorem cancelled_message_skipped:
  "\<exists>(ks :: unit KafkaService) ts m1 m2.
     km_Topic m1 = km_Topic m2 \<and> km_Partition m1 = km_Partition m2 \<and> km_Offset m2 = km_Offset m1 + 1
     \<and> calls (snd (ConsumeEvents txt None ts ks)) =
         [CSubscribe [km_Topic m1] None,
          CRead (Inr m1), CHandle (km_Value m1) (Some (TransientError ''db'' None)), CWait Second False,
          CRead (Inr m2), CHandle (km_Value m2) None,
          CCommit (km_Topic m2) (km_Partition m2) (km_Offset m2 + 1) None]"
proof -
  let ?m1 = "plain_message ''intake'' ''down'' 5" and ?m2 = "plain_message ''intake'' ''ok'' 6"
  let ?t1 = "(plain_turn (Inr ?m1))\<lparr>t_gap := (\<lambda>n. if n = 1 then [Cancel] else [])\<rparr>"
  have r: "maxRetries = Suc (Suc (Suc 0))" by (simp add: maxRetries_def)
  show ?thesis
    by (rule exI [of _ moody_service], rule exI [of _ "[?t1, plain_turn (Inr ?m2)]"],
        rule exI [of _ ?m1], rule exI [of _ ?m2])
     (simp add: ConsumeEvents_def plain_turn_def plain_message_def, simp add: consume_turn_def ReadMessage_def
        handleWithRetry_def call_handler_def moody_def value_bytes_def commit_call_def r wait_retry_def
        StopConsuming_cancel_def retry_backoff_def)
qed

text \<open>
  Consuming the intake topic keeps the notifier in order, whatever the messages, the
  stores and the broker do, as long as the other goroutines keep it in order too.
\<close>

theorem consumer_keeps_notifier:
  assumes "topicHandlers ks = [(topic, \<lambda>ck. HandleMessage L P ck s)]" "notifier_inv (notifier (app ks))"
    "list_all (quiet (\<lambda>st. notifier_inv (notifier st))) ts"
  shows "notifier_inv (notifier (app (snd (ConsumeEvents txt sub ts ks))))"
  using intake.consumer_keeps [OF assms(1,3,2)] .

theorem consumer_keeps_notifier_witness:
  "notifier_inv (notifier (app (snd (ConsumeEvents (\<lambda>b. []) None [plain_turn (Inr (plain_message ''intake'' ''{}'' 0))]
      (RegisterHandler ''intake'' (\<lambda>ck. HandleMessage plain_libs (unit_ports True) ck (NewEventIngestionService None False))
         (NewKafkaService plain_state))))))"
  by (rule consumer_keeps_notifier)
    (simp_all add: RegisterHandler_def NewKafkaService_def plain_state_def notifier_inv_init quiet_def plain_turn_def)

end
