(* ===== verification/Ingestion_Stores.thy ===== *)
theory Ingestion_Stores
  imports Kafka_Service
begin

text \<open>
  The event path as \<open>NewContainer\<close> (\<open>internal/infrastructure/container/container.go\<close>) wires
  it: the ports of the ingestion service are the plant repository with its cache, the dual event
  writer and the status repository, and the service writes asynchronously. The state behind the
  ports holds these three, the tables, and the alert rules, which are reloaded meanwhile.
\<close>

section \<open>Wiring\<close>

record 'c stores =
  st_writer :: DualEventWriter
  st_plants :: "EnergyPlantsModel list"
  st_cache :: "'c option"
  st_status :: "PlantCurrentStatusModel list"
  st_alerts :: AlertEvaluationService

text \<open>The third-party cache, and the faults and values of the database in one call.\<close>

record 'c store_env =
  se_Get :: "'c \<Rightarrow> uuid \<Rightarrow> bool option \<times> 'c"
  se_Add :: "'c \<Rightarrow> uuid \<Rightarrow> bool \<Rightarrow> 'c"
  se_plant_fault :: "goerr option"
  se_op_fault :: "goerr option"
  se_an_fault :: "goerr option"
  se_status_fault :: "goerr option"
  se_now :: time
  se_fresh :: "nat \<Rightarrow> uuid"
  se_uuid_String :: "uuid \<Rightarrow> string"

definition exists_in :: "'c store_env \<Rightarrow> uuid \<Rightarrow> 'c stores \<Rightarrow> (goerr + bool) \<times> 'c stores" where
  "exists_in E uid st =
     (let (r, cache) = Exists_plant (se_Get E) (se_Add E) (se_plant_fault E) (st_plants st) (st_cache st) uid
      in (r, st\<lparr>st_cache := cache\<rparr>))"

definition save_in ::
  "'c store_env \<Rightarrow> EventOperational \<Rightarrow> EventAnalytical \<Rightarrow> 'c stores \<Rightarrow> goerr option \<times> 'c stores" where
  "save_in E op an st =
     (let w = st_writer st;
          (r, op_tbl, an_tbl) = SaveEvent (se_op_fault E) (se_an_fault E) (se_now E) (se_fresh E) op an
                                  (p_table (op_pipe w)) (p_table (an_pipe w))
      in (r, st\<lparr>st_writer := w\<lparr>op_pipe := (op_pipe w)\<lparr>p_table := op_tbl\<rparr>,
                               an_pipe := (an_pipe w)\<lparr>p_table := an_tbl\<rparr>\<rparr>\<rparr>))"

definition save_async_in ::
  "'c store_env \<Rightarrow> EventOperational \<Rightarrow> EventAnalytical \<Rightarrow> 'c stores \<Rightarrow> goerr option \<times> 'c stores" where
  "save_async_in E op an st =
     (let (r, w) = SaveEventAsync (se_uuid_String E) op an (st_writer st) in (r, st\<lparr>st_writer := w\<rparr>))"

definition upsert_in :: "'c store_env \<Rightarrow> PlantCurrentStatus \<Rightarrow> 'c stores \<Rightarrow> goerr option \<times> 'c stores" where
  "upsert_in E status st =
     (let (r, tbl) = Upsert_status (se_status_fault E) (se_now E) status (st_status st)
      in (r, st\<lparr>st_status := tbl\<rparr>))"

definition container_ports :: "'c store_env \<Rightarrow> 'c stores ports" where
  "container_ports E =
     \<lparr>plant_Exists = exists_in E, writer_SaveEvent = save_in E, writer_SaveEventAsync = save_async_in E,
      status_Upsert = Some (upsert_in E)\<rparr>"

definition container_service :: "AlertEvaluationService option \<Rightarrow> EventIngestionService" where
  "container_service ev = NewEventIngestionService ev True"

text \<open>
  The handler of the intake topic. It evaluates with the rules of the moment; what the stores
  answer may change with every call, so it is given by the call's clock.
\<close>

definition intake_handler :: "libs \<Rightarrow> (clock \<Rightarrow> 'c store_env) \<Rightarrow> 'c stores handler" where
  "intake_handler L E ck message st =
     HandleMessage L (container_ports (E ck)) ck (container_service (Some (st_alerts (world st)))) message st"

section \<open>What an accepted event leaves in the stores\<close>

lemma container_ports_simps [simp]:
  "plant_Exists (container_ports E) = exists_in E"
  "writer_SaveEvent (container_ports E) = save_in E"
  "writer_SaveEventAsync (container_ports E) = save_async_in E"
  "status_Upsert (container_ports E) = Some (upsert_in E)"
  "useAsyncWrite (container_service ev)"
  by (simp_all add: container_ports_def container_service_def NewEventIngestionService_def)

lemma store_frame [simp, frame]:
  "st_writer (snd (exists_in E uid st)) = st_writer st"
  "st_plants (snd (exists_in E uid st)) = st_plants st"
  "st_status (snd (exists_in E uid st)) = st_status st"
  "st_writer (snd (upsert_in E status st)) = st_writer st"
  "st_plants (snd (save_async_in E op an st)) = st_plants st"
  by (simp_all add: exists_in_def upsert_in_def save_async_in_def Let_def prod.case_eq_if)

definition queued_events :: "EventOperational \<times> EventAnalytical \<Rightarrow> operationalEvent \<times> analyticalEvent" where
  "queued_events ev =
     (\<lparr>oe_entity = fst ev, oe_rawData = None\<rparr>, \<lparr>ae_entity = snd ev, ae_rawData = None\<rparr>)"

text \<open>An event accepted by the wired service is in the writer's channels, or dropped at full ones.\<close>

lemma accepted_is_enqueued:
  assumes "fst (ProcessEvent L (container_ports E) ck (container_service ev) payload (Some data) st) = None"
    "data \<noteq> []"
  shows "\<exists>pid et src. plant_info L data = Inr (pid, et, src)
    \<and> \<not> stopping (st_writer (world st))
    \<and> st_writer (world (snd (ProcessEvent L (container_ports E) ck (container_service ev) payload (Some data) st))) =
        case_prod enqueue_both (queued_events (buildEventEntities L ck payload data pid et src)) (st_writer (world st))"
proof -
  let ?r = "ProcessEvent L (container_ports E) ck (container_service ev) payload (Some data) st"
  obtain pid et src where info: "plant_info L data = Inr (pid, et, src)"
    using assms by (auto simp: ProcessEvent_result split: sum.splits)
  let ?ev = "buildEventEntities L ck payload data pid et src"
  let ?w1 = "snd (exists_in E pid (world st))"
  have save: "save (container_ports E) True ?ev = save_async_in E (fst ?ev) (snd ?ev)"
    by (simp add: save_def)
  have none: "fst (save_async_in E (fst ?ev) (snd ?ev) ?w1) = None"
    using assms info save by (auto simp: ProcessEvent_result Let_def split: option.splits)
  have pass: "exists_error L (container_ports E) pid (world st) = None" "data_error L data = None"
    using assms info by (auto simp: ProcessEvent_result Let_def split: option.splits)
  have ns: "\<not> stopping (st_writer (world st))"
    using none by (auto simp: save_async_in_def SaveEventAsync_def SaveEventAsyncWithRaw_def prod.case_eq_if)
  have "world (snd ?r) = upserted (container_ports E) (plant_status ck pid et payload data)
      (snd (save_async_in E (fst ?ev) (snd ?ev) ?w1))"
    using assms(2) info pass none by (simp add: ProcessEvent_world Let_def save)
  then have "st_writer (world (snd ?r)) = st_writer (snd (save_async_in E (fst ?ev) (snd ?ev) ?w1))"
    by (simp add: upserted_def)
  also have "\<dots> = case_prod enqueue_both (queued_events ?ev) (st_writer (world st))"
    using ns by (simp add: save_async_in_def SaveEventAsync_def SaveEventAsyncWithRaw_def queued_events_def)
  finally show ?thesis using info ns by blast
qed

lemma handled_data:
  assumes "fst (HandleMessage L P ck s raw st) = None"
  shows "\<exists>data. Unmarshal_map (json_txt L) raw = Inr (Some data) \<and> data \<noteq> []"
proof (cases "Unmarshal_map (json_txt L) raw")
  case (Inr d)
  then have "fst (ProcessEvent L P ck s raw d st) = None" using assms by (simp add: HandleMessage_def)
  then show ?thesis using Inr by (cases d) auto
qed (use assms in \<open>simp add: HandleMessage_def\<close>)

section \<open>A writer with one worker a pipeline\<close>

text \<open>Every event in the channels, and nothing yet in a batch.\<close>

definition idle_writer ::
  "EventOperationalModel list \<Rightarrow> EventAnalyticalModel list \<Rightarrow> DualEventWriter" where
  "idle_writer ot at = NewDualEventWriterWithConfig 1 1 True ot at"

lemma deterministic_events:
  "op_ID (fst (buildEventEntities L ck payload data pid et src)) = event_id L payload data"
  "op_CreatedAt (fst (buildEventEntities L ck payload data pid et src)) = ck_created ck"
  "an_ID (snd (buildEventEntities L ck payload data pid et src)) = event_id L payload data"
  "an_CreatedAt (snd (buildEventEntities L ck payload data pid et src)) = ck_created ck"
  by (simp_all add: buildEventEntities_def Let_def)

text \<open>A copy of a batch in which every step succeeds.\<close>

definition copy_succeeds :: "copy_env \<Rightarrow> bool" where
  "copy_succeeds env \<longleftrightarrow>
     ce_acquire env = None \<and> ce_begin env = None \<and> ce_temp env = None \<and> ce_copy env = None
     \<and> ce_insert env = None \<and> ce_commit env = None"

definition write_two :: "copy_env \<Rightarrow> action list" where
  "write_two env = [OpTurn 0 (Recv env), OpTurn 0 (Recv env), OpTurn 0 (Tick env),
     AnTurn 0 (Recv env), AnTurn 0 (Recv env), AnTurn 0 (Tick env)]"

lemmas run_defs = NewDualEventWriterWithConfig_def new_pipe_def operationalWorker_def
  analyticalWorker_def worker_loop_def flush_def set_worker_def receive_def offer_def
  enqueue_both_def pipelineBufferSize_def batchSize_def

lemma write_two_tables:
  assumes "copy_succeeds env"
  shows "\<exists>w. run_writer (write_two env) (enqueue_both o2 a2 (enqueue_both o1 a1 (idle_writer ot at))) = Some w
    \<and> p_table (op_pipe w) = fold insert_operational [op_model o1, op_model o2] ot
    \<and> p_table (an_pipe w) = fold insert_analytical [an_model a1, an_model a2] at"
  using assms
  by (simp add: write_two_def idle_writer_def run_defs Let_def copy_succeeds_def copyOperationalBatch_def
      copyAnalyticalBatch_def)

definition write_one :: "copy_env \<Rightarrow> copy_env \<Rightarrow> action list" where
  "write_one env env' =
     [OpTurn 0 (Recv env), OpTurn 0 (Tick env), AnTurn 0 (Recv env'), AnTurn 0 (Tick env')]"

lemma write_one_fails:
  assumes "ce_acquire env = None" "ce_begin env = None" "ce_temp env = Some err"
    "ce_acquire env' = None" "ce_begin env' = None" "ce_temp env' = Some err'"
  shows "\<exists>w. run_writer (write_one env env') (enqueue_both o1 a1 (idle_writer ot at)) = Some w
    \<and> p_table (op_pipe w) = ot \<and> p_failed (op_pipe w) = [op_model o1] \<and> p_channel (op_pipe w) = []
    \<and> batched (op_pipe w) = {#}
    \<and> p_table (an_pipe w) = at \<and> p_failed (an_pipe w) = [an_model a1] \<and> p_channel (an_pipe w) = []
    \<and> batched (an_pipe w) = {#}"
  using assms
  by (simp add: write_one_def idle_writer_def run_defs Let_def copyOperationalBatch_def copyAnalyticalBatch_def batched_def)

text \<open>A turn of the consumer in which the handler succeeds at once.\<close>

lemma handled_turn:
  assumes "t_poll t = Inr m" "t_gap t 0 = []" "\<not> stopClosed ks"
    "map_of (topicHandlers ks) (km_Topic m) = Some h" "raw = value_bytes (km_Value m)"
    "fst (h (t_clock t 0) raw (app ks)) = None"
  shows "fst (consume_turn txt t n ks) = Some 0"
    "app (snd (consume_turn txt t n ks)) = snd (h (t_clock t 0) raw (app ks))"
    "last (calls (snd (consume_turn txt t n ks))) =
      CCommit (km_Topic m) (km_Partition m) (km_Offset m + 1) (t_commit t)"
    "stopClosed (snd (consume_turn txt t n ks)) = stopClosed ks"
  using assms
  by (simp_all add: consume_turn_def ReadMessage_def handleWithRetry_def call_handler_def commitOffset_def
      CommitMessage_def prod.case_eq_if Let_def)

section \<open>A handler that keeps failing\<close>

lemma retry_loop_stuck:
  assumes "\<And>ck st. I st \<Longrightarrow> fst (h ck (value_bytes m) st) = Some err \<and> I (snd (h ck (value_bytes m) st))"
    "\<And>st mt. I st \<Longrightarrow> I (Inc mt st)" "\<not> IsPermanent err"
    "\<forall>n. list_all (\<lambda>x. case x of Work f \<Rightarrow> (\<forall>st. I st \<longrightarrow> I (f st)) | _ \<Rightarrow> False) (t_gap t n)"
    "I (app ks)" "\<not> ctxDone ks" "k \<le> maxRetries"
  shows "fst (retry_loop txt t ctx h m topic err k ks) = True
    \<and> calls (snd (retry_loop txt t ctx h m topic err k ks)) =
        calls ks @ retry_calls m (Suc maxRetries - k) (replicate k (Some err))
        @ dlq_calls txt t ctx m (''max retries exhausted: '' @ Error err)"
  using assms(5-7)
proof (induction k arbitrary: ks)
  case (Suc k)
  let ?n = "maxRetries - k"
  let ?ks = "ks\<lparr>app := Inc (KafkaRetryAttemptsTotal topic) (app ks)\<rparr>"
  let ?w = "foldl other_step ?ks (t_gap t ?n)"
  have others: "I (app (foldl other_step ks' xs)) \<and> \<not> ctxDone (foldl other_step ks' xs)"
    if "list_all (\<lambda>x. case x of Work f \<Rightarrow> (\<forall>st. I st \<longrightarrow> I (f st)) | _ \<Rightarrow> False) xs"
      "I (app ks')" "\<not> ctxDone ks'" for xs and ks' :: "'a KafkaService"
    using that by (induction xs arbitrary: ks') (auto split: other.splits)
  have w: "I (app ?w)" "\<not> ctxDone ?w"
    using others [of "t_gap t ?n" ?ks] assms(2,4) Suc.prems by auto
  have wait: "wait_retry t ?n ?ks = (True, log_call (CWait (retry_backoff ?n) True) ?w)"
    using w by (simp add: wait_retry_def)
  let ?c = "call_handler t h ?n m (log_call (CWait (retry_backoff ?n) True) ?w)"
  have c: "fst ?c = Some err" "I (app (snd ?c))" "\<not> ctxDone (snd ?c)"
    "calls (snd ?c) = calls ks @ [CWait (retry_backoff ?n) True, CHandle m (Some err)]"
    using assms(1) [OF w(1)] w by (simp_all add: call_handler_def prod.case_eq_if)
  have r: "retry_loop txt t ctx h m topic err (Suc k) ks = retry_loop txt t ctx h m topic err k (snd ?c)"
    using c(1) assms(3) by (simp add: Let_def wait prod.case_eq_if del: call_handler_simps wait_retry_calls)
  have n: "Suc maxRetries - Suc k = ?n" "Suc maxRetries - k = Suc ?n" using Suc.prems(3) by auto
  show ?case
    unfolding r using Suc.IH [OF c(2,3)] Suc.prems(3) c(4) by (simp add: n del: retry_loop.simps)
qed simp

lemma handleWithRetry_stuck:
  assumes "\<And>ck st. I st \<Longrightarrow> fst (h ck (value_bytes m) st) = Some err \<and> I (snd (h ck (value_bytes m) st))"
    "\<And>st mt. I st \<Longrightarrow> I (Inc mt st)" "\<not> IsPermanent err"
    "\<forall>n. list_all (\<lambda>x. case x of Work f \<Rightarrow> (\<forall>st. I st \<longrightarrow> I (f st)) | _ \<Rightarrow> False) (t_gap t n)"
    "fst (h (t_clock t 0) (value_bytes m) (app ks)) = Some err" "I (snd (h (t_clock t 0) (value_bytes m) (app ks)))"
    "\<not> ctxDone ks"
  shows "fst (handleWithRetry txt t ctx h m topic ks)
    \<and> calls (snd (handleWithRetry txt t ctx h m topic ks)) =
        calls ks @ CHandle m (Some err) # retry_calls m 1 (replicate maxRetries (Some err))
        @ dlq_calls txt t ctx m (''max retries exhausted: '' @ Error err)"
proof -
  let ?c = "call_handler t h 0 m ks"
  have c: "fst ?c = Some err" "I (app (snd ?c))" "\<not> ctxDone (snd ?c)"
    "calls (snd ?c) = calls ks @ [CHandle m (Some err)]"
    using assms(5-7) by (simp_all add: call_handler_def prod.case_eq_if)
  have "handleWithRetry txt t ctx h m topic ks = retry_loop txt t ctx h m topic err maxRetries (snd ?c)"
    using c(1) assms(3) by (simp add: handleWithRetry_def prod.case_eq_if del: call_handler_simps)
  then show ?thesis
    using retry_loop_stuck [of I h m err t "snd ?c" maxRetries "txt" ctx topic] assms(1-4) c by simp
qed

section \<open>A plant that is unknown\<close>

definition unknown_plant :: "libs \<Rightarrow> uuid \<Rightarrow> goerr" where
  "unknown_plant L pid = TransientError (''plant_source_id='' @ uuid_String L pid @ '' does not exist'') None"

definition known_absent :: "('c \<Rightarrow> uuid \<Rightarrow> bool option \<times> 'c) \<Rightarrow> uuid \<Rightarrow> 'c stores ingest \<Rightarrow> bool" where
  "known_absent Get pid st \<longleftrightarrow> (\<exists>c. st_cache (world st) = Some c \<and> fst (Get c pid) = Some False)"

definition add_plant :: "EnergyPlantsModel \<Rightarrow> 'c stores ingest \<Rightarrow> 'c stores ingest" where
  "add_plant p st = st\<lparr>world := (world st)\<lparr>st_plants := st_plants (world st) @ [p]\<rparr>\<rparr>"

text \<open>A handler call that finds the plant absent, from the table or from the cache.\<close>

lemma absent_plant_rejected:
  assumes "Unmarshal_map (json_txt L) raw = Inr (Some data)" "data \<noteq> []"
    "plant_info L data = Inr (pid, et, src)"
    "fst (exists_in E pid (world st)) = Inr False"
  shows "fst (HandleMessage L (container_ports E) ck s raw st) = Some (unknown_plant L pid)
    \<and> world (snd (HandleMessage L (container_ports E) ck s raw st)) = snd (exists_in E pid (world st))"
proof -
  have h: "HandleMessage L (container_ports E) ck s raw st = ProcessEvent L (container_ports E) ck s raw (Some data) st"
    using assms(1) by (simp add: HandleMessage_def)
  have e: "exists_error L (container_ports E) pid (world st) = Some (unknown_plant L pid)"
    using assms(4) by (simp add: exists_error_def unknown_plant_def)
  show ?thesis
    unfolding h using assms(2,3) e by (simp add: ProcessEvent_result ProcessEvent_world Let_def)
qed

lemma cached_absent:
  assumes "\<And>c k. fst (se_Get E (snd (se_Get E c k)) k) = fst (se_Get E c k)" "known_absent (se_Get E) pid st"
  shows "fst (exists_in E pid (world st)) = Inr False
    \<and> (\<exists>c. st_cache (snd (exists_in E pid (world st))) = Some c \<and> fst (se_Get E c pid) = Some False)"
proof -
  obtain c where c: "st_cache (world st) = Some c" "fst (se_Get E c pid) = Some False"
    using assms(2) by (auto simp: known_absent_def)
  then have "exists_in E pid (world st) = (Inr False, (world st)\<lparr>st_cache := Some (snd (se_Get E c pid))\<rparr>)"
    by (simp add: exists_in_def Exists_plant_def prod.case_eq_if)
  then show ?thesis using assms(1) [of c pid] c by simp
qed

lemma first_lookup_absent:
  assumes "\<And>c k b. fst (se_Get E (se_Add E c k b) k) = Some b" "se_plant_fault E = None"
    "st_cache w = Some c" "fst (se_Get E c pid) = None" "plant_count (st_plants w) pid = 0"
  shows "fst (exists_in E pid w) = Inr False
    \<and> (\<exists>c. st_cache (snd (exists_in E pid w)) = Some c \<and> fst (se_Get E c pid) = Some False)"
proof -
  have "exists_in E pid w = (Inr False, w\<lparr>st_cache := Some (se_Add E (snd (se_Get E c pid)) pid False)\<rparr>)"
    using assms(2-5) by (simp add: exists_in_def Exists_plant_def prod.case_eq_if Let_def)
  then show ?thesis using assms(1) by simp
qed

section \<open>Stores for the examples\<close>

lemma wired_accepts:
  assumes "plant_info L data = Inr (pid, et, src)" "data \<noteq> []" "fst (exists_in E pid (world st)) = Inr True"
    "data_error L data = None" "\<not> stopping (st_writer (world st))"
  shows "fst (ProcessEvent L (container_ports E) ck (container_service ev) payload (Some data) st) = None"
  using assms
  by (simp add: ProcessEvent_result exists_error_def save_def Let_def prod.case_eq_if save_async_in_def
      SaveEventAsync_def SaveEventAsyncWithRaw_def)

definition plain_env :: "(uuid \<times> bool) list store_env" where
  "plain_env = \<lparr>se_Get = list_Get, se_Add = list_Add, se_plant_fault = None, se_op_fault = None,
     se_an_fault = None, se_status_fault = None, se_now = 1, se_fresh = (\<lambda>n. 9), se_uuid_String = plain_uuid\<rparr>"

definition plain_stores :: "(uuid \<times> bool) list stores ingest" where
  "plain_stores = \<lparr>world = \<lparr>st_writer = idle_writer [] [], st_plants = [zero_EnergyPlantsModel\<lparr>epm_ID := 5\<rparr>],
     st_cache = None, st_status = [], st_alerts = \<lparr>rules = [], stopCh_closed = False\<rparr>\<rparr>, notifier = NewNotifier ''t'' ''c'' True, metrics = []\<rparr>"

lemma p5_info: "plant_info plain_libs p5_data = Inr (5, ''unknown'', ''kafka-intake'')"
  by (simp add: plant_info_def extractAndValidatePlantInfo_def p5_data_def str_field_def plain_libs_def p5_Parse_def)

definition has_p5 :: "(uuid \<times> bool) list stores ingest \<Rightarrow> bool" where
  "has_p5 st \<longleftrightarrow> st_cache (world st) = None
     \<and> st_plants (world st) = [zero_EnergyPlantsModel\<lparr>epm_ID := 5\<rparr>] \<and> \<not> stopping (st_writer (world st))"

lemma exists_p5:
  "has_p5 st \<Longrightarrow> exists_in plain_env 5 (world st) = (Inr True, world st)"
  by (simp add: has_p5_def exists_in_def Exists_plant_def plain_env_def plant_count_def Let_def
      zero_EnergyPlantsModel_def)

lemma p5_stored:
  assumes "has_p5 st"
  shows "\<exists>st'. ProcessEvent plain_libs (container_ports plain_env) ck (container_service ev) payload
    (Some p5_data) st = (None, st') \<and> has_p5 st'"
proof -
  let ?r = "ProcessEvent plain_libs (container_ports plain_env) ck (container_service ev) payload (Some p5_data) st"
  let ?ev = "buildEventEntities plain_libs ck payload p5_data 5 ''unknown'' ''kafka-intake''"
  have d: "p5_data \<noteq> []" by (simp add: p5_data_def)
  have r: "fst ?r = None"
    using assms exists_p5 [OF assms] by (intro wired_accepts [OF p5_info d]) (simp_all add: p5_ok has_p5_def)
  have e: "exists_error plain_libs (container_ports plain_env) 5 (world st) = None"
    using exists_p5 [OF assms] by (simp add: exists_error_def)
  have "save (container_ports plain_env) True ?ev (world st) = (None, snd (save_async_in plain_env (fst ?ev) (snd ?ev) (world st)))"
    using assms by (simp add: save_def save_async_in_def SaveEventAsync_def SaveEventAsyncWithRaw_def has_p5_def)
  then have "world (snd ?r) = upserted (container_ports plain_env) (plant_status ck 5 ''unknown'' payload p5_data)
      (snd (save_async_in plain_env (fst ?ev) (snd ?ev) (world st)))"
    using exists_p5 [OF assms] e by (simp add: ProcessEvent_world d p5_info p5_ok Let_def)
  moreover have "st_cache (snd (upsert_in E q s)) = st_cache s" "st_cache (snd (save_async_in E x y s)) = st_cache s"
    "st_plants (snd (upsert_in E q s)) = st_plants s" "st_writer (snd (upsert_in E q s)) = st_writer s"
    for E q x y and s :: "(uuid \<times> bool) list stores"
    by (simp_all add: upsert_in_def save_async_in_def prod.case_eq_if)
  moreover have "stopping (st_writer (snd (save_async_in plain_env x y (world st)))) = stopping (st_writer (world st))" for x y
    by (simp add: save_async_in_def SaveEventAsync_def SaveEventAsyncWithRaw_def)
  ultimately have "has_p5 (snd ?r)" using assms by (simp add: has_p5_def upserted_def)
  then show ?thesis using r by (metis prod.collapse)
qed

definition p5_raw :: bytes where
  "p5_raw = ''{'' @ [CHR 0x22] @ ''plant_source_id'' @ [CHR 0x22] @ '':'' @ [CHR 0x22] @ ''p'' @ [CHR 0x22] @ ''}''"

lemma p5_parsed: "Unmarshal_map txt p5_raw = Inr (Some p5_data)"
proof -
  have "json_parse p5_raw = Some (JObject [(''plant_source_id'', JString ''p'')])"
    unfolding p5_raw_def by code_simp
  then show ?thesis by (simp add: Unmarshal_map_def p5_data_def)
qed

definition p5_message :: KafkaMessage where
  "p5_message = plain_message ''intake'' p5_raw 7"

definition p5_service :: "(uuid \<times> bool) list stores ingest \<Rightarrow> (uuid \<times> bool) list stores KafkaService" where
  "p5_service st = RegisterHandler ''intake'' (intake_handler plain_libs (\<lambda>ck. plain_env)) (NewKafkaService st)"

lemma p5_service_simps [simp]:
  "topicHandlers (p5_service st) = [(''intake'', intake_handler plain_libs (\<lambda>ck. plain_env))]"
  "app (p5_service st) = st" "\<not> stopClosed (p5_service st)" "\<not> ctxDone (p5_service st)" "calls (p5_service st) = []"
  "km_Topic p5_message = ''intake''" "km_Value p5_message = Some p5_raw" "value_bytes (Some p5_raw) = p5_raw"
  by (simp_all add: p5_service_def RegisterHandler_def NewKafkaService_def p5_message_def plain_message_def value_bytes_def)

section \<open>Properties\<close>

text \<open>
  C16. Delivering a message twice is harmless for the operational table and not for the
  analytical one: the id of the event is a function of the message, but its instant is that of the
  handling, and the key of the analytical table holds both. After two accepted deliveries and a
  successful write of each batch the event is one operational and two analytical rows.
\<close>

theorem redelivery_duplicates_analytics:
  assumes "ProcessEvent L (container_ports E) ck1 (container_service ev) payload (Some data) st = (None, st1)"
    "ProcessEvent L (container_ports E') ck2 (container_service ev') payload (Some data) st1 = (None, st2)"
    "st_writer (world st) = idle_writer ot at" "copy_succeeds env" "ck_created ck1 \<noteq> ck_created ck2"
    "event_id L payload data \<notin> opm_ID ` set ot" "event_id L payload data \<notin> anm_ID ` set at"
  shows "\<exists>w. run_writer (write_two env) (st_writer (world st2)) = Some w
    \<and> map opm_CreatedAt (filter (\<lambda>m. opm_ID m = event_id L payload data) (p_table (op_pipe w))) = [ck_created ck1]
    \<and> map anm_CreatedAt (filter (\<lambda>m. anm_ID m = event_id L payload data) (p_table (an_pipe w))) =
        [ck_created ck1, ck_created ck2]"
proof -
  have d: "data \<noteq> []" using assms(1) by (cases data) auto
  obtain pid et src where i: "plant_info L data = Inr (pid, et, src)"
    using accepted_is_enqueued [of L E ck1 ev payload data st] assms(1) d by auto
  let ?q = "\<lambda>ck. queued_events (buildEventEntities L ck payload data pid et src)"
  have w: "st_writer (world st2) = case_prod enqueue_both (?q ck2) (case_prod enqueue_both (?q ck1) (idle_writer ot at))"
    using accepted_is_enqueued [of L E ck1 ev payload data st] assms(1-3) d i
      accepted_is_enqueued [of L E' ck2 ev' payload data st1] by auto
  have old: "filter (\<lambda>m. opm_ID m = event_id L payload data) ot = []"
    "filter (\<lambda>m. anm_ID m = event_id L payload data) at = []"
    using assms(6,7) by (auto simp: filter_empty_conv image_iff)
  let ?op = "\<lambda>ck. op_model (fst (?q ck))" and ?an = "\<lambda>ck. an_model (snd (?q ck))"
  obtain w' where run: "run_writer (write_two env) (st_writer (world st2)) = Some w'"
    and tables: "p_table (op_pipe w') = fold insert_operational [?op ck1, ?op ck2] ot"
      "p_table (an_pipe w') = fold insert_analytical [?an ck1, ?an ck2] at"
    using write_two_tables [OF assms(4), of "fst (?q ck2)" "snd (?q ck2)" "fst (?q ck1)" "snd (?q ck1)" ot at]
    unfolding w by (auto simp: case_prod_beta)
  have keys: "opm_ID (?op ck) = event_id L payload data" "opm_CreatedAt (?op ck) = ck_created ck"
    "anm_ID (?an ck) = event_id L payload data" "anm_CreatedAt (?an ck) = ck_created ck" for ck
    by (simp_all add: queued_events_def op_model_def an_model_def deterministic_events)
  have "p_table (op_pipe w') = ot @ [?op ck1]"
    using assms(6) unfolding tables(1) by (simp add: insert_operational_def keys)
  moreover have "p_table (an_pipe w') = at @ [?an ck1, ?an ck2]"
    using assms(5,7) unfolding tables(2) by (auto simp: insert_analytical_def keys image_iff)
  ultimately show ?thesis using run old by (simp add: keys)
qed

theorem redelivery_duplicates_analytics_witness:
  "\<exists>st w. run_writer (write_two quiet_env) st = Some w \<and> length (p_table (an_pipe w)) \<ge> 2"
proof -
  let ?P = "\<lambda>ck. ProcessEvent plain_libs (container_ports plain_env) ck (container_service None) ''{}'' (Some p5_data)"
  let ?ck = "plain_clock\<lparr>ck_created := 7\<rparr>"
  have 0: "has_p5 plain_stores" by (simp add: has_p5_def plain_stores_def idle_writer_def NewDualEventWriterWithConfig_def)
  obtain st1 where 1: "?P plain_clock plain_stores = (None, st1)" "has_p5 st1"
    using p5_stored [OF 0, of plain_clock None "''{}''"] by blast
  obtain st2 where 2: "?P ?ck st1 = (None, st2)"
    using p5_stored [OF 1(2), of ?ck None "''{}''"] by blast
  obtain w where w: "run_writer (write_two quiet_env) (st_writer (world st2)) = Some w"
    "map anm_CreatedAt (filter (\<lambda>m. anm_ID m = event_id plain_libs ''{}'' p5_data) (p_table (an_pipe w))) = [1, 7]"
    using redelivery_duplicates_analytics [OF 1(1) 2, of "[]" "[]" quiet_env]
    by (auto simp: plain_stores_def plain_clock_def copy_succeeds_def quiet_env_def)
  have "2 = length (filter (\<lambda>m. anm_ID m = event_id plain_libs ''{}'' p5_data) (p_table (an_pipe w)))"
    using arg_cong [OF w(2), of length] by simp
  also have "\<dots> \<le> length (p_table (an_pipe w))" by (rule length_filter_le)
  finally show ?thesis using w(1) by blast
qed

text \<open>
  C17. A committed event can be lost without a crash. The handler answers when the event is in
  both channels, so the offset is committed at once; when the transactions of its two batches then
  fail, both are dropped. Afterwards the event is in neither table, in no channel and in no batch of
  either pipeline, and the broker will not deliver it again.
\<close>

theorem committed_event_can_be_lost:
  assumes "t_poll t = Inr m" "t_gap t 0 = []" "\<not> stopClosed ks"
    "map_of (topicHandlers ks) (km_Topic m) = Some (intake_handler L E)"
    "fst (intake_handler L E (t_clock t 0) (value_bytes (km_Value m)) (app ks)) = None"
    "st_writer (world (app ks)) = idle_writer ot at"
    "ce_acquire env = None" "ce_begin env = None" "ce_temp env = Some err"
    "ce_acquire env' = None" "ce_begin env' = None" "ce_temp env' = Some err'"
    "\<And>data. Unmarshal_map (json_txt L) (value_bytes (km_Value m)) = Inr (Some data) \<Longrightarrow>
       event_id L (value_bytes (km_Value m)) data \<notin> opm_ID ` set ot \<union> anm_ID ` set at"
  shows "\<exists>data w. Unmarshal_map (json_txt L) (value_bytes (km_Value m)) = Inr (Some data)
    \<and> last (calls (snd (consume_turn txt t n ks))) = CCommit (km_Topic m) (km_Partition m) (km_Offset m + 1) (t_commit t)
    \<and> run_writer (write_one env env') (st_writer (world (app (snd (consume_turn txt t n ks))))) = Some w
    \<and> map opm_ID (p_failed (op_pipe w)) = [event_id L (value_bytes (km_Value m)) data]
    \<and> map anm_ID (p_failed (an_pipe w)) = [event_id L (value_bytes (km_Value m)) data]
    \<and> event_id L (value_bytes (km_Value m)) data \<notin> opm_ID ` set (p_table (op_pipe w))
    \<and> event_id L (value_bytes (km_Value m)) data \<notin> anm_ID ` set (p_table (an_pipe w))
    \<and> p_channel (op_pipe w) = [] \<and> batched (op_pipe w) = {#}
    \<and> p_channel (an_pipe w) = [] \<and> batched (an_pipe w) = {#}"
proof -
  let ?raw = "value_bytes (km_Value m)" and ?r = "snd (consume_turn txt t n ks)"
  let ?ck = "t_clock t 0" and ?ev = "Some (st_alerts (world (app ks)))"
  obtain data where u: "Unmarshal_map (json_txt L) ?raw = Inr (Some data)" "data \<noteq> []"
    using handled_data assms(5) unfolding intake_handler_def by blast
  let ?P = "ProcessEvent L (container_ports (E ?ck)) ?ck (container_service ?ev) ?raw (Some data)"
  have h: "intake_handler L E ?ck ?raw (app ks) = ?P (app ks)"
    using u(1) by (simp add: HandleMessage_def intake_handler_def)
  have r: "app ?r = snd (?P (app ks))"
    "last (calls ?r) = CCommit (km_Topic m) (km_Partition m) (km_Offset m + 1) (t_commit t)"
    using handled_turn [OF assms(1-4) refl assms(5)] h by simp_all
  obtain pid et src where "st_writer (world (app ?r)) = case_prod enqueue_both
      (queued_events (buildEventEntities L ?ck ?raw data pid et src)) (idle_writer ot at)"
    using accepted_is_enqueued [of L "E ?ck" ?ck ?ev ?raw data "app ks"] assms(5,6) u(2) r(1) by (auto simp: h)
  then obtain w where w: "run_writer (write_one env env') (st_writer (world (app ?r))) = Some w"
    "p_table (op_pipe w) = ot" "p_channel (op_pipe w) = []" "batched (op_pipe w) = {#}"
    "p_table (an_pipe w) = at" "p_channel (an_pipe w) = []" "batched (an_pipe w) = {#}"
    "map opm_ID (p_failed (op_pipe w)) = [event_id L ?raw data]"
    "map anm_ID (p_failed (an_pipe w)) = [event_id L ?raw data]"
    using write_one_fails [OF assms(7-12)]
    by (fastforce simp: prod.case_eq_if queued_events_def op_model_def an_model_def deterministic_events)
  show ?thesis using u(1) r(2) w assms(13) [OF u(1)] by (intro exI [of _ data] exI [of _ w]) simp
qed

definition full_disk :: copy_env where
  "full_disk = quiet_env\<lparr>ce_temp := Some (TextError ''disk full'')\<rparr>"

theorem committed_event_can_be_lost_witness:
  "\<exists>w. run_writer (write_one full_disk full_disk)
      (st_writer (world (app (snd (consume_turn (\<lambda>b. []) (plain_turn (Inr p5_message)) 0 (p5_service plain_stores)))))) = Some w
    \<and> length (p_failed (op_pipe w)) = 1 \<and> length (p_failed (an_pipe w)) = 1
    \<and> event_id plain_libs p5_raw p5_data \<notin> opm_ID ` set (p_table (op_pipe w))"
proof -
  have "has_p5 plain_stores"
    by (simp add: has_p5_def plain_stores_def idle_writer_def NewDualEventWriterWithConfig_def)
  from p5_stored [OF this, of plain_clock "Some (st_alerts (world plain_stores))" p5_raw]
  have h: "fst (intake_handler plain_libs (\<lambda>ck. plain_env)
      (t_clock (plain_turn (Inr p5_message) :: (uuid \<times> bool) list stores poll_turn) 0)
      (value_bytes (km_Value p5_message)) (app (p5_service plain_stores))) = None"
    by (auto simp: intake_handler_def plain_turn_def HandleMessage_def p5_parsed)
  obtain data w where w: "Unmarshal_map (json_txt plain_libs) (value_bytes (km_Value p5_message)) = Inr (Some data)"
      "run_writer (write_one full_disk full_disk)
        (st_writer (world (app (snd (consume_turn (\<lambda>b. []) (plain_turn (Inr p5_message)) 0 (p5_service plain_stores)))))) = Some w"
      "map opm_ID (p_failed (op_pipe w)) = [event_id plain_libs (value_bytes (km_Value p5_message)) data]"
      "map anm_ID (p_failed (an_pipe w)) = [event_id plain_libs (value_bytes (km_Value p5_message)) data]"
      "event_id plain_libs (value_bytes (km_Value p5_message)) data \<notin> opm_ID ` set (p_table (op_pipe w))"
    using committed_event_can_be_lost [OF _ _ _ _ h, of "[]" "[]" full_disk "TextError ''disk full''"
        full_disk "TextError ''disk full''" "\<lambda>b. []" 0]
    by (fastforce simp: plain_turn_def plain_stores_def quiet_env_def full_disk_def)
  have "length (p_failed (op_pipe w)) = 1" "length (p_failed (an_pipe w)) = 1"
    using arg_cong [OF w(3), of length] arg_cong [OF w(4), of length] by simp_all
  then show ?thesis using w p5_parsed by (intro exI [of _ w]) simp
qed

text \<open>
  C18. An event that arrives before its plant is lost to retrying. The first lookup caches that
  the plant does not exist; although the plant is created before the first retry, every retry is
  answered from the cache, and after the last one the message is given up.
\<close>

theorem late_plant_exhausts_retries:
  assumes "\<And>ck. se_Get (E ck) = Get" "\<And>ck. se_Add (E ck) = Add"
    "\<And>c k b. fst (Get (Add c k b) k) = Some b" "\<And>c k. fst (Get (snd (Get c k)) k) = fst (Get c k)"
    "se_plant_fault (E (t_clock t 0)) = None" "st_cache (world (app ks)) = Some c" "fst (Get c pid) = None"
    "plant_count (st_plants (world (app ks))) pid = 0" "\<not> ctxDone ks"
    "Unmarshal_map (json_txt L) (value_bytes m) = Inr (Some data)" "data \<noteq> []"
    "plant_info L data = Inr (pid, et, src)"
    "\<forall>n. t_gap t n = (if n = 1 then [Work (add_plant p)] else [])"
    "epm_ID p = pid" "epm_DeletedAt p = None"
  shows "calls (snd (handleWithRetry json_err t ctx (intake_handler L E) m topic ks)) =
      calls ks @ CHandle m (Some (unknown_plant L pid))
        # retry_calls m 1 (replicate maxRetries (Some (unknown_plant L pid)))
        @ dlq_calls json_err t ctx m (''max retries exhausted: '' @ Error (unknown_plant L pid))
    \<and> fst (handleWithRetry json_err t ctx (intake_handler L E) m topic ks)
    \<and> 0 < plant_count (st_plants (world (add_plant p (app ks)))) pid"
proof -
  let ?h = "intake_handler L E" and ?e = "unknown_plant L pid"
  have keeps: "fst (?h ck (value_bytes m) st) = Some ?e \<and> known_absent Get pid (snd (?h ck (value_bytes m) st))"
    if "fst (exists_in (E ck) pid (world st)) = Inr False \<and> (\<exists>c. st_cache (snd (exists_in (E ck) pid (world st))) = Some c
      \<and> fst (se_Get (E ck) c pid) = Some False)" for ck and st :: "'a stores ingest"
    using that absent_plant_rejected [OF assms(10-12), of "E ck" st ck]
    by (simp add: known_absent_def assms(1) intake_handler_def)
  have stuck: "fst (?h ck (value_bytes m) st) = Some ?e \<and> known_absent Get pid (snd (?h ck (value_bytes m) st))"
    if "known_absent Get pid st" for ck st
    using that by (intro keeps cached_absent) (simp_all add: assms(1,4))
  have first: "fst (?h (t_clock t 0) (value_bytes m) (app ks)) = Some ?e
      \<and> known_absent Get pid (snd (?h (t_clock t 0) (value_bytes m) (app ks)))"
    by (intro keeps first_lookup_absent [where c = c]) (simp_all add: assms)
  have gaps: "\<forall>n. list_all (\<lambda>x. case x of Work f \<Rightarrow> (\<forall>st. known_absent Get pid st \<longrightarrow> known_absent Get pid (f st))
      | _ \<Rightarrow> False) (t_gap t n)"
    using assms(13) by (simp add: known_absent_def add_plant_def)
  have "0 < plant_count (st_plants (world (add_plant p (app ks)))) pid"
    using assms(14,15) by (simp add: add_plant_def plant_count_def)
  then show ?thesis
    using handleWithRetry_stuck [of "known_absent Get pid" ?h m ?e t, OF stuck _ _ gaps] first assms(9)
    by (simp add: known_absent_def unknown_plant_def)
qed

theorem late_plant_exhausts_retries_witness:
  "fst (handleWithRetry (\<lambda>b. []) ((plain_turn (Inr p5_message))\<lparr>t_gap := (\<lambda>n. if n = 1
        then [Work (add_plant (zero_EnergyPlantsModel\<lparr>epm_ID := 5\<rparr>))] else [])\<rparr>) None
      (intake_handler plain_libs (\<lambda>ck. plain_env)) (Some p5_raw) ''intake''
      (p5_service (plain_stores\<lparr>world := (world plain_stores)\<lparr>st_plants := [], st_cache := Some []\<rparr>\<rparr>)))"
proof -
  let ?t = "(plain_turn (Inr p5_message))\<lparr>t_gap := (\<lambda>n. if n = 1
        then [Work (add_plant (zero_EnergyPlantsModel\<lparr>epm_ID := 5\<rparr>))] else [])\<rparr>
      :: (uuid \<times> bool) list stores poll_turn"
  let ?ks = "p5_service (plain_stores\<lparr>world := (world plain_stores)\<lparr>st_plants := [], st_cache := Some []\<rparr>\<rparr>)"
  show ?thesis
    using late_plant_exhausts_retries [where L = plain_libs and E = "\<lambda>ck. plain_env" and Get = list_Get
        and Add = list_Add and t = ?t and ks = ?ks and c = "[]" and m = "Some p5_raw" and data = p5_data
        and p = "zero_EnergyPlantsModel\<lparr>epm_ID := 5\<rparr>" and json_err = "\<lambda>b. []" and ctx = None
        and topic = "''intake''", OF _ _ _ _ _ _ _ _ _ _ _ p5_info]
    by (simp add: plain_env_def list_Get_def list_Add_def plant_count_def p5_parsed p5_data_def
        zero_EnergyPlantsModel_def)
qed

end
