(* ===== verification/Analytics_Worker.thy ===== *)
theory Analytics_Worker
  imports Repositories
begin

text \<open>
  \<open>internal/infrastructure/adapters/repositories/analytics_worker_repo.go\<close>: the aggregation of
  the events of dirty hours, the webhook queue with its back-off, and the statistics a webhook
  carries. Each method is a statement on explicit tables.

  PostgreSQL is a parameter where it computes: \<open>pg_cast\<close> is \<open>(data::jsonb->>member)::double
  precision\<close> of an event's data (an error, or a number or NULL) and \<open>pg_avg\<close> the average of
  numbers. A NULL text column reads as the empty string, as gorm scans it.
\<close>

record analytics_db =
  events_ts :: "EventAnalyticalModel list"
  energy_plants :: "EnergyPlantsModel list"
  hourly_plant_stats :: "HourlyPlantStatsModel list"
  webhook_queue :: "WebhookQueueModel list"

record pg =
  pg_cast :: "bytes \<Rightarrow> string \<Rightarrow> float64 option option"
  pg_avg :: "float64 list \<Rightarrow> float64"
  pg_cast_error :: goerr

section \<open>Aggregation\<close>

type_synonym bucket_key = "time \<times> uuid"

definition Hour :: duration where
  "Hour = 3600 * Second"

definition event_key :: "EventAnalyticalModel \<Rightarrow> bucket_key" where
  "event_key e = (time_bucket Hour (anm_CreatedAt e), anm_PlantSourceId e)"

definition dirty_buckets :: "time \<Rightarrow> duration \<Rightarrow> EventAnalyticalModel list \<Rightarrow> bucket_key list" where
  "dirty_buckets now interval evs =
     remdups (map event_key (filter (\<lambda>e. now - interval \<le> anm_CreatedAt e) evs))"

text \<open>\<open>AVG\<close> skips NULLs, and is NULL when there is no number.\<close>

definition avg_member :: "pg \<Rightarrow> string \<Rightarrow> EventAnalyticalModel list \<Rightarrow> float64 option option" where
  "avg_member G member rows =
     map_option (\<lambda>vs. let xs = map the (filter (\<lambda>v. v \<noteq> None) vs) in if xs = [] then None else Some (pg_avg G xs))
       (those (map (\<lambda>e. pg_cast G (anm_Data e) member) rows))"

definition calculated_stats :: "pg \<Rightarrow> time \<Rightarrow> analytics_db \<Rightarrow> bucket_key \<Rightarrow> HourlyPlantStatsModel option" where
  "calculated_stats G now db k =
     (let rows = filter (\<lambda>e. event_key e = k) (events_ts db);
          ep = List.find (\<lambda>p. epm_ID p = snd k) (energy_plants db)
      in case (avg_member G ''power_generated_mw'' rows, avg_member G ''power_consumed_mw'' rows,
               avg_member G ''efficiency_percent'' rows, avg_member G ''temperature_celsius'' rows) of
           (Some gen, Some con, Some eff, Some temp) \<Rightarrow>
             Some \<lparr>hsm_Bucket = fst k, hsm_PlantSourceId = snd k,
                   hsm_PlantName = (case ep of Some p \<Rightarrow> epm_PlantName p | None \<Rightarrow> []),
                   hsm_PlantType = (case ep of Some p \<Rightarrow> epm_PlantType p | None \<Rightarrow> []),
                   hsm_Latitude = Option.bind ep epm_Latitude,
                   hsm_Longitude = Option.bind ep epm_Longitude,
                   hsm_AvgPowerGen = gen, hsm_AvgPowerCon = con, hsm_AvgEfficiency = eff,
                   hsm_AvgTemp = temp, hsm_SampleCount = int (length rows), hsm_LastCalculatedAt = now\<rparr>
         | _ \<Rightarrow> None)"

definition stats_key :: "HourlyPlantStatsModel \<Rightarrow> bucket_key" where
  "stats_key m = (hsm_Bucket m, hsm_PlantSourceId m)"

text \<open>\<open>ON CONFLICT (bucket, plant_source_id) DO UPDATE\<close> sets every other column.\<close>

definition upsert_stats ::
  "HourlyPlantStatsModel \<Rightarrow> HourlyPlantStatsModel list \<Rightarrow> HourlyPlantStatsModel list" where
  "upsert_stats m tbl =
     (if stats_key m \<in> stats_key ` set tbl
      then map (\<lambda>r. if stats_key r = stats_key m then m else r) tbl
      else tbl @ [m])"

definition queue_key :: "WebhookQueueModel \<Rightarrow> bucket_key" where
  "queue_key m = (wqm_Bucket m, wqm_PlantSourceId m)"

definition queue_webhook ::
  "time \<Rightarrow> (bucket_key \<Rightarrow> uuid) \<Rightarrow> bucket_key \<Rightarrow> WebhookQueueModel list \<Rightarrow> WebhookQueueModel list" where
  "queue_webhook now fresh k tbl =
     (if k \<in> queue_key ` set tbl
      then map (\<lambda>r. if queue_key r = k
                    then r\<lparr>wqm_Status := WebhookStatusPending, wqm_Attempts := 0, wqm_ErrorMessage := None\<rparr>
                    else r) tbl
      else tbl @ [\<lparr>wqm_ID = fresh k, wqm_Bucket = fst k, wqm_PlantSourceId = snd k,
                   wqm_Status = WebhookStatusPending, wqm_Attempts = 0, wqm_LastAttempt = None,
                   wqm_NextRetryAt = None, wqm_ErrorMessage = None, wqm_CreatedAt = now\<rparr>])"

text \<open>
  The interval is the window in whole minutes (a window of less than \<open>2\<^sup>18\<close> minutes, for which
  \<open>Minutes\<close> does not round up). The statement is atomic: an error leaves the tables alone.
\<close>

definition RecalculateDirtyBuckets ::
  "pg \<Rightarrow> goerr option \<Rightarrow> time \<Rightarrow> (bucket_key \<Rightarrow> uuid) \<Rightarrow> duration \<Rightarrow> analytics_db
   \<Rightarrow> (goerr + nat) \<times> analytics_db" where
  "RecalculateDirtyBuckets G fault now fresh lookbackWindow db =
     (let dirty = dirty_buckets now (lookbackWindow div Minute * Minute) (events_ts db)
      in case fault of
           Some err \<Rightarrow> (Inl (Errorf_w ''failed to recalculate dirty buckets'' err), db)
         | None \<Rightarrow>
             (case those (map (calculated_stats G now db) dirty) of
                None \<Rightarrow> (Inl (Errorf_w ''failed to recalculate dirty buckets'' (pg_cast_error G)), db)
              | Some stats \<Rightarrow>
                  (Inr (length dirty),
                   db\<lparr>hourly_plant_stats := fold upsert_stats stats (hourly_plant_stats db),
                      webhook_queue := fold (queue_webhook now fresh) dirty (webhook_queue db)\<rparr>)))"

section \<open>The webhook queue\<close>

text \<open>A negative limit is no limit.\<close>

definition GetPendingWebhooks ::
  "goerr option \<Rightarrow> time \<Rightarrow> int \<Rightarrow> analytics_db \<Rightarrow> goerr + WebhookQueueItem list" where
  "GetPendingWebhooks fault now limit db =
     (case fault of
        Some err \<Rightarrow> Inl (Errorf_w ''failed to get pending webhooks'' err)
      | None \<Rightarrow>
          Inr (map ToWebhookQueueEntity
                 ((if limit < 0 then (\<lambda>rows. rows) else take (nat limit))
                    (sort_key wqm_CreatedAt
                       (filter (\<lambda>m. wqm_Status m \<in> {''PENDING'', ''RETRYING''}
                                  \<and> (case wqm_NextRetryAt m of None \<Rightarrow> True | Some t \<Rightarrow> t \<le> now))
                          (webhook_queue db))))))"

text \<open>
  Go's \<open>int\<close> is 64 bits wide: \<open>30 * (1 << attempts)\<close> wraps. A shift by a negative count and
  \<open>Int63n\<close> of a number that is not positive panic: \<^const>\<open>None\<close>. \<open>rnd n\<close> is \<open>rand.Int63n(n)\<close>.
\<close>

definition backoff_base :: "int \<Rightarrow> int option" where
  "backoff_base attempts =
     (if attempts < 0 then None
      else
        (let base = sint ((30 :: 64 word) * push_bit (nat attempts) 1)
         in Some (if base > 480 then 480 else base)))"

definition backoff_seconds :: "(int \<Rightarrow> int) \<Rightarrow> int \<Rightarrow> int option" where
  "backoff_seconds rnd attempts =
     (case backoff_base attempts of
        None \<Rightarrow> None
      | Some base \<Rightarrow>
          (let n = (if base < 0 then - (- base div 3) else base div 3) + 1
           in if n \<le> 0 then None else Some (base + rnd n)))"

definition update_webhook ::
  "uuid \<Rightarrow> (WebhookQueueModel \<Rightarrow> WebhookQueueModel) \<Rightarrow> analytics_db \<Rightarrow> analytics_db" where
  "update_webhook uid f db =
     db\<lparr>webhook_queue := map (\<lambda>m. if wqm_ID m = uid then f m else m) (webhook_queue db)\<rparr>"

text \<open>
  The result, or \<^const>\<open>None\<close> for a panic. \<open>first_fault\<close> and \<open>update_fault\<close> are errors of the
  two statements.
\<close>

definition UpdateWebhookStatus ::
  "(int \<Rightarrow> int) \<Rightarrow> time \<Rightarrow> goerr option \<Rightarrow> goerr option \<Rightarrow> uuid \<Rightarrow> WebhookStatus \<Rightarrow> string
   \<Rightarrow> analytics_db \<Rightarrow> (goerr option \<times> analytics_db) option" where
  "UpdateWebhookStatus rnd now first_fault update_fault uid status errorMsg db =
     (let set_status = (\<lambda>m. m\<lparr>wqm_Status := status, wqm_LastAttempt := Some now,
                              wqm_ErrorMessage := (if errorMsg \<noteq> [] then Some errorMsg else None)\<rparr>);
          apply_updates = (\<lambda>f. case update_fault of
                    Some err \<Rightarrow> Some (Some (Errorf_w ''failed to update webhook status'' err), db)
                  | None \<Rightarrow> Some (None, update_webhook uid f db))
      in if status = WebhookStatusRetrying
         then
           (case (first_fault, List.find (\<lambda>m. wqm_ID m = uid) (webhook_queue db)) of
              (Some err, _) \<Rightarrow> Some (Some (Errorf_w ''failed to find webhook for retry'' err), db)
            | (None, None) \<Rightarrow>
                Some (Some (Errorf_w ''failed to find webhook for retry'' ErrRecordNotFound), db)
            | (None, Some model) \<Rightarrow>
                (case backoff_seconds rnd (wqm_Attempts model) of
                   None \<Rightarrow> None
                 | Some s \<Rightarrow>
                     apply_updates (\<lambda>m. (set_status m)\<lparr>wqm_NextRetryAt := Some (now + s * Second),
                                              wqm_Attempts := wqm_Attempts m + 1\<rparr>)))
         else if status = WebhookStatusSent
         then apply_updates (\<lambda>m. (set_status m)\<lparr>wqm_NextRetryAt := None\<rparr>)
         else apply_updates set_status)"

definition GetHourlyStats ::
  "goerr option \<Rightarrow> time \<Rightarrow> uuid \<Rightarrow> analytics_db \<Rightarrow> goerr + HourlyPlantStats option" where
  "GetHourlyStats fault bucket plantId db =
     (case fault of
        Some err \<Rightarrow>
          (if err = ErrRecordNotFound then Inr None else Inl (Errorf_w ''failed to get hourly stats'' err))
      | None \<Rightarrow>
          Inr (map_option ToHourlyPlantStatsEntity
                 (List.find (\<lambda>m. stats_key m = (bucket, plantId)) (hourly_plant_stats db))))"

section \<open>Statistics: the last aggregation wins\<close>

definition get_stats :: "bucket_key \<Rightarrow> HourlyPlantStatsModel list \<Rightarrow> HourlyPlantStatsModel option" where
  "get_stats k tbl = List.find (\<lambda>m. stats_key m = k) tbl"

interpretation stats_store: last_wins upsert_stats get_stats stats_key
proof
  fix k e and s :: "HourlyPlantStatsModel list"
  have "List.find (\<lambda>m. stats_key m = k) s = None \<longleftrightarrow> k \<notin> stats_key ` set s" by (rule find_None_key)
  then show "get_stats k (upsert_stats e s) = (if stats_key e = k then Some e else get_stats k s)"
    by (auto simp: get_stats_def upsert_stats_def find_append find_map_key
        split: option.splits dest: find_key)
qed

section \<open>What an aggregation leaves\<close>

definition get_queued :: "bucket_key \<Rightarrow> WebhookQueueModel list \<Rightarrow> WebhookQueueModel option" where
  "get_queued k tbl = List.find (\<lambda>m. queue_key m = k) tbl"

text \<open>The row of a bucket after it was queued.\<close>

definition requeued ::
  "time \<Rightarrow> (bucket_key \<Rightarrow> uuid) \<Rightarrow> bucket_key \<Rightarrow> WebhookQueueModel option \<Rightarrow> WebhookQueueModel" where
  "requeued now fresh k old =
     (case old of
        Some r \<Rightarrow> r\<lparr>wqm_Status := WebhookStatusPending, wqm_Attempts := 0, wqm_ErrorMessage := None\<rparr>
      | None \<Rightarrow> \<lparr>wqm_ID = fresh k, wqm_Bucket = fst k, wqm_PlantSourceId = snd k,
                 wqm_Status = WebhookStatusPending, wqm_Attempts = 0, wqm_LastAttempt = None,
                 wqm_NextRetryAt = None, wqm_ErrorMessage = None, wqm_CreatedAt = now\<rparr>)"

lemma get_queued_queue:
  "get_queued k (queue_webhook now fresh k' tbl) =
    (if k = k' then Some (requeued now fresh k (get_queued k tbl)) else get_queued k tbl)"
proof -
  have n: "List.find (\<lambda>m. queue_key m = k') tbl = None \<longleftrightarrow> k' \<notin> queue_key ` set tbl"
    by (rule find_None_key)
  let ?g = "\<lambda>r. if queue_key r = k'
      then r\<lparr>wqm_Status := WebhookStatusPending, wqm_Attempts := 0, wqm_ErrorMessage := None\<rparr> else r"
  have "List.find (\<lambda>m. queue_key m = k) (map ?g tbl) = map_option ?g (List.find (\<lambda>m. queue_key m = k) tbl)"
    by (rule find_map_key) (simp add: queue_key_def)
  moreover have "queue_key \<lparr>wqm_ID = fresh k', wqm_Bucket = fst k', wqm_PlantSourceId = snd k',
      wqm_Status = WebhookStatusPending, wqm_Attempts = 0, wqm_LastAttempt = None,
      wqm_NextRetryAt = None, wqm_ErrorMessage = None, wqm_CreatedAt = now\<rparr> = k'"
    by (simp add: queue_key_def)
  ultimately show ?thesis
    using n by (auto simp: get_queued_def queue_webhook_def find_append requeued_def
        split: option.splits dest: find_key)
qed

lemma get_queued_fold:
  "distinct ks \<Longrightarrow> get_queued k (fold (queue_webhook now fresh) ks tbl) =
    (if k \<in> set ks then Some (requeued now fresh k (get_queued k tbl)) else get_queued k tbl)"
  by (induction ks arbitrary: tbl) (auto simp: get_queued_queue)

lemma those_list_all2: "those (map f ks) = Some ys \<longleftrightarrow> list_all2 (\<lambda>k y. f k = Some y) ks ys"
  by (induction ks arbitrary: ys) (auto simp: list_all2_Cons1 split: option.splits)

lemma list_all2_Some: "list_all2 (\<lambda>k y. f k = Some y) ks ys \<Longrightarrow> k \<in> set ks \<Longrightarrow> \<exists>y. f k = Some y"
  by (induction ks ys rule: list_all2_induct) auto

lemma get_stats_fold:
  assumes "list_all2 (\<lambda>k m. f k = Some m) ks ms" "\<And>k m. f k = Some m \<Longrightarrow> stats_key m = k" "distinct ks"
  shows "get_stats k (fold upsert_stats ms tbl) = (if k \<in> set ks then f k else get_stats k tbl)"
  using assms(1,3)
proof (induction ks ms arbitrary: tbl rule: list_all2_induct)
  case (Cons k' ks m ms)
  then show ?case using assms(2) [OF Cons.hyps(1)] by (auto simp: stats_store.get_put)
qed simp

lemma calculated_key: "calculated_stats G now d k = Some m \<Longrightarrow> stats_key m = k"
  by (auto simp: calculated_stats_def Let_def stats_key_def split: option.splits)

lemma calculated_count:
  "calculated_stats G now d k = Some m \<Longrightarrow>
    hsm_SampleCount m = int (length (filter (\<lambda>e. event_key e = k) (events_ts d)))"
  by (auto simp: calculated_stats_def Let_def split: option.splits)

lemma Recalculate_ok:
  assumes "RecalculateDirtyBuckets G fault now fresh w d = (Inr n, d')"
  shows "\<exists>stats. fault = None \<and> n = length (dirty_buckets now (w div Minute * Minute) (events_ts d))
    \<and> list_all2 (\<lambda>k m. calculated_stats G now d k = Some m)
        (dirty_buckets now (w div Minute * Minute) (events_ts d)) stats
    \<and> d' = d\<lparr>hourly_plant_stats := fold upsert_stats stats (hourly_plant_stats d),
              webhook_queue := fold (queue_webhook now fresh)
                (dirty_buckets now (w div Minute * Minute) (events_ts d)) (webhook_queue d)\<rparr>"
  using assms
  by (auto simp: RecalculateDirtyBuckets_def Let_def those_list_all2 split: option.splits)

text \<open>Queueing keeps the unique index of the queue.\<close>

lemma queue_webhook_keys:
  "distinct (map queue_key q) \<Longrightarrow> distinct (map queue_key (fold (queue_webhook now fresh) ks q))"
proof (induction ks arbitrary: q)
  case (Cons k ks)
  let ?g = "\<lambda>r. if queue_key r = k
      then r\<lparr>wqm_Status := WebhookStatusPending, wqm_Attempts := 0, wqm_ErrorMessage := None\<rparr> else r"
  have g: "map queue_key (map ?g q) = map queue_key q" by (simp add: queue_key_def)
  have "distinct (map queue_key (queue_webhook now fresh k q))"
  proof (cases "k \<in> queue_key ` set q")
    case True
    then show ?thesis using Cons.prems g by (simp only: queue_webhook_def if_True)
  next
    case False
    then have "map queue_key (queue_webhook now fresh k q) = map queue_key q @ [k]"
      by (simp add: queue_webhook_def) (simp add: queue_key_def)
    then show ?thesis using Cons.prems False by simp
  qed
  then show ?case using Cons.IH by simp
qed simp

lemma get_queued_unique:
  "distinct (map queue_key tbl) \<Longrightarrow> r \<in> set tbl \<Longrightarrow> get_queued (queue_key r) tbl = Some r"
  unfolding get_queued_def by (induction tbl) (auto simp: image_iff)

section \<open>The rows of a dispatch\<close>

lemma GetPendingWebhooks_status:
  assumes "GetPendingWebhooks fault now limit d = Inr whs" "x \<in> set whs"
  shows "\<exists>r \<in> set (webhook_queue d). x = ToWebhookQueueEntity r
    \<and> wqm_Status r \<in> {WebhookStatusPending, WebhookStatusRetrying}"
proof -
  define ready where "ready = (\<lambda>m :: WebhookQueueModel. wqm_Status m \<in> {''PENDING'', ''RETRYING''}
    \<and> (case wqm_NextRetryAt m of None \<Rightarrow> True | Some t \<Rightarrow> t \<le> now))"
  define rows where "rows = (if limit < 0 then (\<lambda>rows. rows) else take (nat limit))
    (sort_key wqm_CreatedAt (filter ready (webhook_queue d)))"
  have "whs = map ToWebhookQueueEntity rows"
    using assms(1) unfolding GetPendingWebhooks_def rows_def ready_def by (cases fault) simp_all
  then obtain r where r: "r \<in> set rows" "x = ToWebhookQueueEntity r" using assms(2) by auto
  have "set rows \<subseteq> set (filter ready (webhook_queue d))"
    by (auto simp: rows_def dest: in_set_takeD)
  then have "r \<in> set (webhook_queue d)" "ready r" using r(1) by auto
  then show ?thesis using r(2)
    by (intro bexI [of _ r]) (auto simp: ready_def WebhookStatusPending_def WebhookStatusRetrying_def)
qed

lemma GetPendingWebhooks_rows:
  assumes "GetPendingWebhooks fault now limit d = Inr whs" "distinct (map wqm_ID (webhook_queue d))"
  shows "\<exists>rows. whs = map ToWebhookQueueEntity rows \<and> set rows \<subseteq> set (webhook_queue d)
    \<and> distinct (map wqm_ID rows)"
proof -
  define ready where "ready = (\<lambda>m :: WebhookQueueModel. wqm_Status m \<in> {''PENDING'', ''RETRYING''}
    \<and> (case wqm_NextRetryAt m of None \<Rightarrow> True | Some t \<Rightarrow> t \<le> now))"
  define rows where "rows = (if limit < 0 then (\<lambda>rows. rows) else take (nat limit))
    (sort_key wqm_CreatedAt (filter ready (webhook_queue d)))"
  have "whs = map ToWebhookQueueEntity rows"
    using assms(1) unfolding GetPendingWebhooks_def rows_def ready_def by (cases fault) simp_all
  moreover have sub: "set rows \<subseteq> set (webhook_queue d)" by (auto simp: rows_def dest: in_set_takeD)
  moreover have "distinct (map wqm_ID rows)"
  proof -
    have "distinct rows" using assms(2) by (simp add: rows_def distinct_map)
    moreover have "inj_on wqm_ID (set rows)"
      using assms(2) sub by (auto simp: distinct_map intro: inj_on_subset)
    ultimately show ?thesis by (simp add: distinct_map)
  qed
  ultimately show ?thesis by blast
qed

section \<open>Back-off\<close>

lemma backoff_base_small:
  assumes "0 \<le> attempts" "attempts \<le> 58"
  shows "backoff_base attempts = Some (min (30 * 2 ^ nat attempts) 480)"
proof -
  let ?n = "nat attempts"
  have n: "?n \<le> 58" using assms by linarith
  have le: "(30::int) * 2 ^ ?n \<le> 30 * 2 ^ 58"
    using n by (intro mult_left_mono power_increasing) auto
  have "sint ((30 :: 64 word) * push_bit ?n 1) = 30 * 2 ^ ?n"
  proof -
    have w: "(30 :: 64 word) * push_bit ?n 1 = word_of_int (30 * 2 ^ ?n)"
      by (simp add: push_bit_eq_mult)
    have "- (2 ^ 63) \<le> (30::int) * 2 ^ ?n" "(30::int) * 2 ^ ?n < 2 ^ 63"
      using le by (auto intro: order_trans [of _ 0])
    then have "signed_take_bit 63 ((30::int) * 2 ^ ?n) = 30 * 2 ^ ?n" by (rule signed_take_bit_int_eq_self)
    moreover have "sint (word_of_int k :: 64 word) = signed_take_bit 63 k" for k
      by (simp only: sint_sbintrunc' len_num0 len_bit0) simp
    ultimately show ?thesis unfolding w by (simp only:)
  qed
  then show ?thesis using assms(1) by (simp add: backoff_base_def Let_def min_def)
qed

lemma backoff_seconds_small:
  assumes "0 \<le> attempts" "attempts \<le> 58"
  shows "backoff_seconds rnd attempts =
    (let base = min (30 * 2 ^ nat attempts) 480 in Some (base + rnd (base div 3 + 1)))"
proof -
  define base where "base = min (30 * 2 ^ nat attempts) (480 :: int)"
  have "0 \<le> base" by (simp add: base_def)
  then have "\<not> base < 0" "0 \<le> base div 3" by (simp_all add: pos_imp_zdiv_nonneg_iff)
  then show ?thesis
    by (simp add: backoff_seconds_def backoff_base_small [OF assms] Let_def flip: base_def)
qed

lemma backoff_59: "backoff_seconds rnd 59 = None"
proof -
  have "backoff_base 59 = Some (- (2 ^ 60))"
    by (simp add: backoff_base_def push_bit_eq_mult)
  then show ?thesis by (simp add: backoff_seconds_def)
qed

lemma Recalculate_tables:
  assumes "RecalculateDirtyBuckets G fault now fresh w d = (Inr n, d')"
    "dirty = {event_key e | e. e \<in> set (events_ts d) \<and> now - w div Minute * Minute \<le> anm_CreatedAt e}"
  shows "n = card dirty
    \<and> get_stats k (hourly_plant_stats d') =
        (if k \<in> dirty then calculated_stats G now d k else get_stats k (hourly_plant_stats d))
    \<and> (k \<in> dirty \<longrightarrow> (\<exists>m. calculated_stats G now d k = Some m \<and> stats_key m = k
         \<and> hsm_SampleCount m = int (length (filter (\<lambda>e. event_key e = k) (events_ts d)))))
    \<and> get_queued k (webhook_queue d') =
        (if k \<in> dirty then Some (requeued now fresh k (get_queued k (webhook_queue d)))
         else get_queued k (webhook_queue d))
    \<and> events_ts d' = events_ts d \<and> energy_plants d' = energy_plants d"
proof -
  let ?ks = "dirty_buckets now (w div Minute * Minute) (events_ts d)"
  obtain stats where *: "n = length ?ks" "list_all2 (\<lambda>k m. calculated_stats G now d k = Some m) ?ks stats"
      "d' = d\<lparr>hourly_plant_stats := fold upsert_stats stats (hourly_plant_stats d),
              webhook_queue := fold (queue_webhook now fresh) ?ks (webhook_queue d)\<rparr>"
    using Recalculate_ok [OF assms(1)] by blast
  have dist: "distinct ?ks" by (simp add: dirty_buckets_def)
  have set: "set ?ks = dirty" by (auto simp: dirty_buckets_def assms(2))
  have g: "get_stats k (fold upsert_stats stats (hourly_plant_stats d)) =
      (if k \<in> set ?ks then calculated_stats G now d k else get_stats k (hourly_plant_stats d))"
    by (rule get_stats_fold [OF *(2) calculated_key dist])
  have "\<exists>m. calculated_stats G now d k = Some m \<and> stats_key m = k
      \<and> hsm_SampleCount m = int (length (filter (\<lambda>e. event_key e = k) (events_ts d)))" if k: "k \<in> set ?ks"
  proof -
    obtain m where m: "calculated_stats G now d k = Some m"
      using list_all2_Some [OF *(2) k] by blast
    then show ?thesis using calculated_key calculated_count by blast
  qed
  then show ?thesis
    using *(1,3) g distinct_card [OF dist] by (simp add: set get_queued_fold [OF dist])
qed

text \<open>It succeeds when its statement does and the measurements are numbers or NULL.\<close>

definition measured :: "pg \<Rightarrow> EventAnalyticalModel \<Rightarrow> bool" where
  "measured G e \<longleftrightarrow> list_all (\<lambda>member. pg_cast G (anm_Data e) member \<noteq> None)
     [''power_generated_mw'', ''power_consumed_mw'', ''efficiency_percent'', ''temperature_celsius'']"

lemma those_total: "(\<And>x. x \<in> set xs \<Longrightarrow> f x \<noteq> None) \<Longrightarrow> those (map f xs) \<noteq> None"
  by (induction xs) fastforce+

lemma avg_member_total:
  assumes "list_all (measured G) rows"
  shows "avg_member G ''power_generated_mw'' rows \<noteq> None" "avg_member G ''power_consumed_mw'' rows \<noteq> None"
    "avg_member G ''efficiency_percent'' rows \<noteq> None" "avg_member G ''temperature_celsius'' rows \<noteq> None"
proof -
  have "pg_cast G (anm_Data e) member \<noteq> None" if "e \<in> set rows"
      "member \<in> set [''power_generated_mw'', ''power_consumed_mw'', ''efficiency_percent'', ''temperature_celsius'']"
      for e member
    using assms that unfolding list_all_iff measured_def by blast
  then have "avg_member G member rows \<noteq> None"
    if "member \<in> set [''power_generated_mw'', ''power_consumed_mw'', ''efficiency_percent'', ''temperature_celsius'']" for member
    using that unfolding avg_member_def option.map_disc_iff by (intro those_total)
  then show "avg_member G ''power_generated_mw'' rows \<noteq> None" "avg_member G ''power_consumed_mw'' rows \<noteq> None"
    "avg_member G ''efficiency_percent'' rows \<noteq> None" "avg_member G ''temperature_celsius'' rows \<noteq> None"
    by (simp_all only: list.set insert_iff simp_thms)
qed

lemma calculated_total:
  assumes "list_all (measured G) (events_ts d)"
  shows "calculated_stats G now d k \<noteq> None"
proof -
  let ?rows = "filter (\<lambda>e. event_key e = k) (events_ts d)"
  have "list_all (measured G) ?rows" using assms by (simp add: list_all_iff)
  from avg_member_total [OF this] obtain gen con eff temp where
      "avg_member G ''power_generated_mw'' ?rows = Some gen" "avg_member G ''power_consumed_mw'' ?rows = Some con"
      "avg_member G ''efficiency_percent'' ?rows = Some eff" "avg_member G ''temperature_celsius'' ?rows = Some temp"
    by blast
  then show ?thesis unfolding calculated_stats_def Let_def by simp
qed

lemma Recalculate_succeeds:
  assumes "fault = None" "list_all (measured G) (events_ts d)"
  shows "\<exists>n d'. RecalculateDirtyBuckets G fault now fresh w d = (Inr n, d')"
proof -
  have "those (map (calculated_stats G now d) (dirty_buckets now (w div Minute * Minute) (events_ts d))) \<noteq> None"
    by (rule those_total) (rule calculated_total [OF assms(2)])
  then obtain stats where
      "those (map (calculated_stats G now d) (dirty_buckets now (w div Minute * Minute) (events_ts d))) = Some stats"
    by blast
  then show ?thesis unfolding RecalculateDirtyBuckets_def Let_def assms(1) by simp
qed

section \<open>Properties\<close>

text \<open>
  C26. A successful aggregation recomputes the hours it reports and nothing else: it counts the
  (hour, plant) pairs that have an event in the look-back window; each of them gets the
  statistics of all its events, counted now, and a pending webhook with its attempts reset; every
  other row of the two tables is as it was.
\<close>

theorem aggregation_recomputes_dirty_buckets:
  assumes "RecalculateDirtyBuckets G fault now fresh w d = (Inr n, d')"
    "dirty = {event_key e | e. e \<in> set (events_ts d) \<and> now - w div Minute * Minute \<le> anm_CreatedAt e}"
  shows "n = card dirty
    \<and> get_stats k (hourly_plant_stats d') =
        (if k \<in> dirty then calculated_stats G now d k else get_stats k (hourly_plant_stats d))
    \<and> (k \<in> dirty \<longrightarrow> (\<exists>m. calculated_stats G now d k = Some m \<and> stats_key m = k
         \<and> hsm_SampleCount m = int (length (filter (\<lambda>e. event_key e = k) (events_ts d)))))
    \<and> get_queued k (webhook_queue d') =
        (if k \<in> dirty then Some (requeued now fresh k (get_queued k (webhook_queue d)))
         else get_queued k (webhook_queue d))
    \<and> events_ts d' = events_ts d \<and> energy_plants d' = energy_plants d"
  by (rule Recalculate_tables [OF assms])

definition one_event :: EventAnalyticalModel where
  "one_event = \<lparr>anm_CreatedAt = 5, anm_ID = 1, anm_EventType = ''power_reading'', anm_PlantSourceId = 7,
     anm_Source = ''kafka'', anm_Data = ''{}'', anm_Metadata = []\<rparr>"

definition null_pg :: pg where
  "null_pg = \<lparr>pg_cast = (\<lambda>b member. Some None), pg_avg = (\<lambda>xs. f64_zero), pg_cast_error = TextError ''cast''\<rparr>"

definition one_event_db :: analytics_db where
  "one_event_db = \<lparr>events_ts = [one_event], energy_plants = [], hourly_plant_stats = [], webhook_queue = []\<rparr>"

lemma one_event_key [simp]: "event_key one_event = (0, 7)"
  by (simp add: event_key_def one_event_def time_bucket_def Hour_def Second_def)

lemma one_event_stats:
  "calculated_stats null_pg now one_event_db (0, 7) = Some \<lparr>hsm_Bucket = 0, hsm_PlantSourceId = 7,
     hsm_PlantName = [], hsm_PlantType = [], hsm_Latitude = None, hsm_Longitude = None,
     hsm_AvgPowerGen = None, hsm_AvgPowerCon = None, hsm_AvgEfficiency = None, hsm_AvgTemp = None,
     hsm_SampleCount = 1, hsm_LastCalculatedAt = now\<rparr>"
  by (simp add: calculated_stats_def one_event_db_def avg_member_def null_pg_def)

theorem aggregation_recomputes_dirty_buckets_witness:
  "\<exists>d'. RecalculateDirtyBuckets null_pg None 9 (\<lambda>k. 3) (10 * Minute) one_event_db = (Inr 1, d')
    \<and> get_stats (0, 7) (hourly_plant_stats d') = calculated_stats null_pg 9 one_event_db (0, 7)"
proof -
  have ks: "dirty_buckets 9 (10 * Minute div Minute * Minute) (events_ts one_event_db) = [(0, 7)]"
    by (simp add: dirty_buckets_def one_event_db_def Minute_def Second_def) (simp add: one_event_def)
  have r: "RecalculateDirtyBuckets null_pg None 9 (\<lambda>k. 3) (10 * Minute) one_event_db =
      (Inr 1, snd (RecalculateDirtyBuckets null_pg None 9 (\<lambda>k. 3) (10 * Minute) one_event_db))"
    unfolding RecalculateDirtyBuckets_def Let_def ks by (simp add: one_event_stats)
  have "one_event \<in> set (events_ts one_event_db)
      \<and> 9 - 10 * Minute div Minute * Minute \<le> anm_CreatedAt one_event"
    by (simp add: one_event_db_def Minute_def Second_def) (simp add: one_event_def)
  then have "(0, 7) \<in> {event_key e | e. e \<in> set (events_ts one_event_db)
      \<and> 9 - 10 * Minute div Minute * Minute \<le> anm_CreatedAt e}"
    unfolding mem_Collect_eq by (intro exI [of _ one_event]) (simp only: one_event_key)
  with aggregation_recomputes_dirty_buckets [OF r refl, of "(0, 7)"] have
    "get_stats (0, 7) (hourly_plant_stats (snd (RecalculateDirtyBuckets null_pg None 9 (\<lambda>k. 3) (10 * Minute)
      one_event_db))) = calculated_stats null_pg 9 one_event_db (0, 7)" by (simp only: if_True)
  with r show ?thesis by blast
qed

text \<open>
  The wait before a webhook is tried again: 30 seconds, doubled with every attempt up to
  480, and up to a third of it on top, never less; so between 30 and 640 seconds. This holds up
  to 58 attempts; at 59 the shifted \<open>int\<close> is negative and drawing the jitter panics.
\<close>

theorem webhook_backoff_bounds:
  assumes "0 \<le> attempts" "attempts \<le> 58" "\<And>n. 0 < n \<Longrightarrow> 0 \<le> rnd n \<and> rnd n < n"
  shows "(\<exists>s base. backoff_seconds rnd attempts = Some s \<and> base = min (30 * 2 ^ nat attempts) 480
      \<and> base \<le> s \<and> s \<le> base + base div 3 \<and> 30 \<le> s \<and> s \<le> 640)
    \<and> backoff_seconds rnd 59 = None"
proof -
  define base where "base = min (30 * 2 ^ nat attempts) (480 :: int)"
  have "(30::int) \<le> 30 * 2 ^ nat attempts" by simp
  then have b: "30 \<le> base" "base \<le> 480" by (simp_all add: base_def)
  then have "base div 3 \<le> 160" "0 < base div 3 + 1" by auto
  moreover from this(2) have "0 \<le> rnd (base div 3 + 1)" "rnd (base div 3 + 1) < base div 3 + 1"
    using assms(3) by blast+
  ultimately show ?thesis
    using b backoff_seconds_small [OF assms(1,2), of rnd] backoff_59
    by (auto simp: Let_def simp flip: base_def)
qed

theorem webhook_backoff_bounds_witness: "\<exists>s. backoff_seconds (\<lambda>n. 0) 5 = Some s \<and> 480 \<le> s \<and> s \<le> 640"
  using webhook_backoff_bounds [of 5 "\<lambda>n. 0"] by auto

end
