(* ===== verification/Webhook_Adapter.thy ===== *)
theory Webhook_Adapter
  imports Go_Scan
begin

text \<open>
  \<open>internal/infrastructure/adapters/http/webhook/webhook.go\<close>: a payload is posted through a
  circuit breaker. The breaker (\<open>sony/gobreaker\<close>) and the HTTP client are third-party code: the
  parameters of a \<open>web\<close>, which work on the state \<^typ>\<open>'w\<close> of the network and \<^typ>\<open>'b\<close> of the
  breaker.
\<close>

record BreakerSettings =
  cb_MaxRequests :: nat
  cb_Interval :: duration
  cb_Timeout :: duration
  cb_ReadyToTrip :: "nat \<Rightarrow> bool"   \<comment> \<open>of the consecutive failures\<close>

text \<open>
  \<open>Do\<close> answers with an error or a status code. \<open>Execute\<close> is given the request as a function and
  runs it or not.
\<close>

record ('b, 'w) web =
  http_NewRequest :: "string \<Rightarrow> goerr option"
  http_Do :: "string \<Rightarrow> bytes \<Rightarrow> 'w \<Rightarrow> (goerr + int) \<times> 'w"
  cb_New :: "BreakerSettings \<Rightarrow> 'b"
  cb_Execute :: "('w \<Rightarrow> goerr option \<times> 'w) \<Rightarrow> 'b \<times> 'w \<Rightarrow> goerr option \<times> ('b \<times> 'w)"
  json_unsupported :: goerr

definition breaker_settings :: BreakerSettings where
  "breaker_settings =
     \<lparr>cb_MaxRequests = 1, cb_Interval = 60 * Second, cb_Timeout = 30 * Second,
      cb_ReadyToTrip = (\<lambda>consecutiveFailures. consecutiveFailures \<ge> 5)\<rparr>"

definition NewAdapter :: "('b, 'w) web \<Rightarrow> 'b" where
  "NewAdapter W = cb_New W breaker_settings"

definition doSend :: "('b, 'w) web \<Rightarrow> string \<Rightarrow> goval \<Rightarrow> 'w \<Rightarrow> goerr option \<times> 'w" where
  "doSend W url payload w =
     (case Marshal payload of
        None \<Rightarrow> (Some (Errorf_w ''error marshaling webhook payload'' (json_unsupported W)), w)
      | Some jsonData \<Rightarrow>
          (case http_NewRequest W url of
             Some err \<Rightarrow> (Some (Errorf_w ''error creating webhook request'' err), w)
           | None \<Rightarrow>
               (case http_Do W url jsonData w of
                  (Inl err, w) \<Rightarrow> (Some (Errorf_w ''error sending webhook request'' err), w)
                | (Inr statusCode, w) \<Rightarrow>
                    (if statusCode < 200 \<or> statusCode \<ge> 300
                     then (Some (TextError (''webhook returned error status: '' @ int_digits statusCode)), w)
                     else (None, w)))))"

definition SendPayload ::
  "('b, 'w) web \<Rightarrow> string \<Rightarrow> goval \<Rightarrow> 'b \<times> 'w \<Rightarrow> goerr option \<times> ('b \<times> 'w)" where
  "SendPayload W url payload s = cb_Execute W (doSend W url payload) s"

section \<open>What a sent payload means\<close>

lemma doSend_ok_iff:
  "doSend W url payload w = (None, w') \<longleftrightarrow>
    (\<exists>raw code. Marshal payload = Some raw \<and> http_NewRequest W url = None
      \<and> http_Do W url raw w = (Inr code, w') \<and> 200 \<le> code \<and> code < 300)"
  by (auto simp: doSend_def split: option.splits prod.splits sum.splits)

text \<open>
  The documented contract of a circuit breaker: it runs the request, once, and answers what it
  answered, or it does not run it and answers with an error.
\<close>

definition breaker_contract ::
  "(('w \<Rightarrow> goerr option \<times> 'w) \<Rightarrow> 'b \<times> 'w \<Rightarrow> goerr option \<times> ('b \<times> 'w)) \<Rightarrow> bool" where
  "breaker_contract execute \<longleftrightarrow>
     (\<forall>f b w. let (r, (b', w')) = execute f (b, w) in (r, w') = f w \<or> r \<noteq> None \<and> w' = w)"

lemma breaker_contractD:
  assumes "breaker_contract execute" "execute f (b, w) = (r, (b', w'))"
  shows "(r, w') = f w \<or> r \<noteq> None \<and> w' = w"
  using assms unfolding breaker_contract_def by (auto simp: Let_def split: prod.splits)

lemma SendPayload_cases:
  assumes "breaker_contract (cb_Execute W)" "SendPayload W url payload (b, w) = (r, (b', w'))"
  shows "doSend W url payload w = (r, w') \<or> r \<noteq> None \<and> w' = w"
  using breaker_contractD [OF assms(1), of "doSend W url payload" b w r b' w'] assms(2)
  by (auto simp: SendPayload_def)

text \<open>A network on which every request is answered with the same status, and no breaker.\<close>

definition echo_web :: "int \<Rightarrow> (unit, (string \<times> bytes) list) web" where
  "echo_web code =
     \<lparr>http_NewRequest = (\<lambda>url. None), http_Do = (\<lambda>url body w. (Inr code, w @ [(url, body)])),
      cb_New = (\<lambda>s. ()), cb_Execute = (\<lambda>f (b, w). let (r, w) = f w in (r, (b, w))),
      json_unsupported = TextError ''json: unsupported value''\<rparr>"

lemma echo_contract [simp]: "breaker_contract (cb_Execute (echo_web code))"
  by (simp add: breaker_contract_def echo_web_def Let_def split: prod.split)

end
