(* ===== verification/Analytics_Coordinator.thy ===== *)
theory Analytics_Coordinator
  imports Analytics_Worker Webhook_Adapter
begin

text \<open>
  \<open>internal/infrastructure/adapters/repositories/analytics_coordinator.go\<close>: the two periodic
  jobs over the analytics repository, aggregation and webhook dispatch, each under a PostgreSQL
  advisory lock.

  What one run of a job meets is a \<open>cycle\<close>: the sessions of the connection pool its statements
  run on, their faults, the clock, and for each webhook what other replicas do to the tables
  meanwhile. A panic is \<^const>\<open>None\<close>. The metrics reporter is the list of what it logs.
\<close>

section \<open>Configuration and state\<close>

record AnalyticsCoordinatorConfig =
  AggregatorInterval :: duration
  DispatcherInterval :: duration
  LookbackWindow :: duration
  MaxWebhookAttempts :: int
  WebhookBatchSize :: int
  WebhookURL :: string
  WebhookEnabled :: bool

definition DefaultAnalyticsCoordinatorConfig :: AnalyticsCoordinatorConfig where
  "DefaultAnalyticsCoordinatorConfig =
     \<lparr>AggregatorInterval = 5 * Minute, DispatcherInterval = 30 * Second, LookbackWindow = 10 * Minute,
      MaxWebhookAttempts = 5, WebhookBatchSize = 100, WebhookURL = [], WebhookEnabled = False\<rparr>"

definition advisoryLockAggregator :: int where
  "advisoryLockAggregator = 100001"

definition advisoryLockDispatcher :: int where
  "advisoryLockDispatcher = 100002"

text \<open>
  \<open>locks\<close>: the advisory locks held in the database, each by a session, as often as it took them.
\<close>

record ('b, 'w) AnalyticsCoordinator =
  config :: AnalyticsCoordinatorConfig
  db :: analytics_db
  locks :: "(int \<times> nat) list"
  web_state :: "'b \<times> 'w"
  stopChan_closed :: bool
  bucketsProcessed :: int
  webhooksSent :: int
  webhooksFailed :: int
  locksSkipped :: int

definition NewAnalyticsCoordinator ::
  "analytics_db \<Rightarrow> (int \<times> nat) list \<Rightarrow> 'b \<times> 'w \<Rightarrow> AnalyticsCoordinatorConfig
   \<Rightarrow> ('b, 'w) AnalyticsCoordinator" where
  "NewAnalyticsCoordinator d lks web cfg =
     (let cfg = (if AggregatorInterval cfg = 0 then cfg\<lparr>AggregatorInterval := 5 * Minute\<rparr> else cfg);
          cfg = (if DispatcherInterval cfg = 0 then cfg\<lparr>DispatcherInterval := 30 * Second\<rparr> else cfg);
          cfg = (if LookbackWindow cfg = 0 then cfg\<lparr>LookbackWindow := 10 * Minute\<rparr> else cfg);
          cfg = (if MaxWebhookAttempts cfg = 0 then cfg\<lparr>MaxWebhookAttempts := 5\<rparr> else cfg);
          cfg = (if WebhookBatchSize cfg = 0 then cfg\<lparr>WebhookBatchSize := 100\<rparr> else cfg)
      in \<lparr>config = cfg, db = d, locks = lks, web_state = web, stopChan_closed = False,
          bucketsProcessed = 0, webhooksSent = 0, webhooksFailed = 0, locksSkipped = 0\<rparr>)"

definition Stop_coordinator :: "('b, 'w) AnalyticsCoordinator \<Rightarrow> ('b, 'w) AnalyticsCoordinator" where
  "Stop_coordinator c = c\<lparr>stopChan_closed := True\<rparr>"

section \<open>Cycles\<close>

record item =
  it_stats_fault :: "goerr option"
  it_first_fault :: "goerr option"
  it_update_fault :: "goerr option"
  it_now :: time
  it_rand :: "int \<Rightarrow> int"
  it_meanwhile :: "analytics_db \<Rightarrow> analytics_db"  \<comment> \<open>other replicas and jobs, while the request is under way\<close>

record cycle =
  cy_lock_fault :: "goerr option"
  cy_lock_session :: nat
  cy_unlock_fault :: "goerr option"
  cy_unlock_session :: nat
  cy_query_fault :: "goerr option"
  cy_now :: time
  cy_fresh :: "bucket_key \<Rightarrow> uuid"
  cy_items :: "nat \<Rightarrow> item"

section \<open>Advisory locks\<close>

text \<open>
  A session gets the lock unless another one holds it; it may take it again. Only the session
  that holds it gives it back. The statements run on whatever session the pool gives them.
\<close>

definition pg_try_advisory_lock :: "int \<Rightarrow> nat \<Rightarrow> (int \<times> nat) list \<Rightarrow> bool \<times> (int \<times> nat) list" where
  "pg_try_advisory_lock lockID session lks =
     (if \<exists>(i, s) \<in> set lks. i = lockID \<and> s \<noteq> session then (False, lks)
      else (True, (lockID, session) # lks))"

definition tryAdvisoryLock ::
  "int \<Rightarrow> cycle \<Rightarrow> ('b, 'w) AnalyticsCoordinator \<Rightarrow> bool \<times> ('b, 'w) AnalyticsCoordinator" where
  "tryAdvisoryLock lockID cy c =
     (case cy_lock_fault cy of
        Some err \<Rightarrow> (False, c)
      | None \<Rightarrow>
          (let (acquired, lks) = pg_try_advisory_lock lockID (cy_lock_session cy) (locks c)
           in (acquired, c\<lparr>locks := lks\<rparr>)))"

definition releaseAdvisoryLock ::
  "int \<Rightarrow> cycle \<Rightarrow> ('b, 'w) AnalyticsCoordinator \<Rightarrow> ('b, 'w) AnalyticsCoordinator" where
  "releaseAdvisoryLock lockID cy c =
     (case cy_unlock_fault cy of
        Some err \<Rightarrow> c
      | None \<Rightarrow> c\<lparr>locks := remove1 (lockID, cy_unlock_session cy) (locks c)\<rparr>)"

section \<open>Aggregation\<close>

definition doAggregation ::
  "pg \<Rightarrow> cycle \<Rightarrow> ('b, 'w) AnalyticsCoordinator \<Rightarrow> ('b, 'w) AnalyticsCoordinator" where
  "doAggregation G cy c =
     (case tryAdvisoryLock advisoryLockAggregator cy c of
        (False, c) \<Rightarrow> c\<lparr>locksSkipped := locksSkipped c + 1\<rparr>
      | (True, c) \<Rightarrow>
          releaseAdvisoryLock advisoryLockAggregator cy
            (case RecalculateDirtyBuckets G (cy_query_fault cy) (cy_now cy) (cy_fresh cy)
                    (LookbackWindow (config c)) (db c) of
               (Inl err, d) \<Rightarrow> c\<lparr>db := d\<rparr>
             | (Inr n, d) \<Rightarrow>
                 (if n > 0 then c\<lparr>db := d, bucketsProcessed := bucketsProcessed c + int n\<rparr>
                  else c\<lparr>db := d\<rparr>)))"

text \<open>\<^const>\<open>None\<close>: the stop channel is seen; otherwise the ticker.\<close>

fun aggregator_loop ::
  "pg \<Rightarrow> cycle option list \<Rightarrow> ('b, 'w) AnalyticsCoordinator \<Rightarrow> ('b, 'w) AnalyticsCoordinator" where
  "aggregator_loop G [] c = c"
| "aggregator_loop G (None # ts) c = c"
| "aggregator_loop G (Some cy # ts) c = aggregator_loop G ts (doAggregation G cy c)"

definition runAggregator ::
  "pg \<Rightarrow> cycle \<Rightarrow> cycle option list \<Rightarrow> ('b, 'w) AnalyticsCoordinator \<Rightarrow> ('b, 'w) AnalyticsCoordinator" where
  "runAggregator G first ts c = aggregator_loop G ts (doAggregation G first c)"

section \<open>Dispatch\<close>

text \<open>Times and UUIDs marshal as strings, a nil pointer as \<open>null\<close>.\<close>

definition float_ptr :: "float64 option \<Rightarrow> goval" where
  "float_ptr f = (case f of Some x \<Rightarrow> GFloat x | None \<Rightarrow> GNil)"

definition webhook_payload :: "(uuid \<Rightarrow> string) \<Rightarrow> HourlyPlantStats \<Rightarrow> goval" where
  "webhook_payload uuid_string stats =
     GMap [(''bucket'', GString (Format_RFC3339Nano (hs_Bucket stats))),
           (''plant_source_id'', GString (uuid_string (hs_PlantSourceId stats))),
           (''plant_name'', GString (hs_PlantName stats)),
           (''plant_type'', GString (hs_PlantType stats)),
           (''latitude'', float_ptr (hs_Latitude stats)),
           (''longitude'', float_ptr (hs_Longitude stats)),
           (''avg_power_gen'', float_ptr (hs_AvgPowerGen stats)),
           (''avg_power_con'', float_ptr (hs_AvgPowerCon stats)),
           (''avg_efficiency'', float_ptr (hs_AvgEfficiency stats)),
           (''avg_temp'', float_ptr (hs_AvgTemp stats)),
           (''sample_count'', GInt (word_of_int (hs_SampleCount stats))),
           (''calculated_at'', GString (Format_RFC3339Nano (hs_LastCalculatedAt stats)))]"

text \<open>A call of \<open>UpdateWebhookStatus\<close> whose error is only logged.\<close>

definition set_status ::
  "item \<Rightarrow> uuid \<Rightarrow> WebhookStatus \<Rightarrow> string \<Rightarrow> ('b, 'w) AnalyticsCoordinator
   \<Rightarrow> ('b, 'w) AnalyticsCoordinator option" where
  "set_status it uid status msg c =
     map_option (\<lambda>(err, d). c\<lparr>db := d\<rparr>)
       (UpdateWebhookStatus (it_rand it) (it_now it) (it_first_fault it) (it_update_fault it) uid status msg (db c))"

definition dispatch_webhook ::
  "('b, 'w) web \<Rightarrow> (uuid \<Rightarrow> string) \<Rightarrow> item \<Rightarrow> WebhookQueueItem \<Rightarrow> ('b, 'w) AnalyticsCoordinator
   \<Rightarrow> ('b, 'w) AnalyticsCoordinator option" where
  "dispatch_webhook W uuid_string it wh c =
     (if wq_Attempts wh \<ge> MaxWebhookAttempts (config c)
      then map_option (\<lambda>c. c\<lparr>webhooksFailed := webhooksFailed c + 1\<rparr>)
             (set_status it (wq_ID wh) WebhookStatusFailed ''max attempts exceeded'' c)
      else case GetHourlyStats (it_stats_fault it) (wq_Bucket wh) (wq_PlantSourceId wh) (db c) of
        Inl err \<Rightarrow> set_status it (wq_ID wh) WebhookStatusRetrying (Error err) c
      | Inr None \<Rightarrow>
          map_option (\<lambda>c. c\<lparr>webhooksFailed := webhooksFailed c + 1\<rparr>)
            (set_status it (wq_ID wh) WebhookStatusFailed ''stats not found'' c)
      | Inr (Some stats) \<Rightarrow>
          (case SendPayload W (WebhookURL (config c)) (webhook_payload uuid_string stats) (web_state c) of
             (r, web') \<Rightarrow>
               (let c = c\<lparr>web_state := web', db := it_meanwhile it (db c)\<rparr>
                in case r of
                     Some err \<Rightarrow> set_status it (wq_ID wh) WebhookStatusRetrying (Error err) c
                   | None \<Rightarrow>
                       map_option (\<lambda>c. c\<lparr>webhooksSent := webhooksSent c + 1\<rparr>)
                         (set_status it (wq_ID wh) WebhookStatusSent [] c))))"

fun dispatch_all ::
  "('b, 'w) web \<Rightarrow> (uuid \<Rightarrow> string) \<Rightarrow> (nat \<Rightarrow> item) \<Rightarrow> nat \<Rightarrow> WebhookQueueItem list
   \<Rightarrow> ('b, 'w) AnalyticsCoordinator \<Rightarrow> ('b, 'w) AnalyticsCoordinator option" where
  "dispatch_all W uuid_string its n [] c = Some c"
| "dispatch_all W uuid_string its n (wh # whs) c =
     Option.bind (dispatch_webhook W uuid_string (its n) wh c) (dispatch_all W uuid_string its (Suc n) whs)"

definition doDispatch ::
  "('b, 'w) web \<Rightarrow> (uuid \<Rightarrow> string) \<Rightarrow> cycle \<Rightarrow> ('b, 'w) AnalyticsCoordinator
   \<Rightarrow> ('b, 'w) AnalyticsCoordinator option" where
  "doDispatch W uuid_string cy c =
     (if \<not> WebhookEnabled (config c) then Some c
      else case tryAdvisoryLock advisoryLockDispatcher cy c of
        (False, c) \<Rightarrow> Some (c\<lparr>locksSkipped := locksSkipped c + 1\<rparr>)
      | (True, c) \<Rightarrow>
          map_option (releaseAdvisoryLock advisoryLockDispatcher cy)
            (case GetPendingWebhooks (cy_query_fault cy) (cy_now cy) (WebhookBatchSize (config c)) (db c) of
               Inl err \<Rightarrow> Some c
             | Inr webhooks \<Rightarrow> dispatch_all W uuid_string (cy_items cy) 0 webhooks c))"

fun runDispatcher ::
  "('b, 'w) web \<Rightarrow> (uuid \<Rightarrow> string) \<Rightarrow> cycle option list \<Rightarrow> ('b, 'w) AnalyticsCoordinator
   \<Rightarrow> ('b, 'w) AnalyticsCoordinator option" where
  "runDispatcher W uuid_string [] c = Some c"
| "runDispatcher W uuid_string (None # ts) c = Some c"
| "runDispatcher W uuid_string (Some cy # ts) c =
     Option.bind (doDispatch W uuid_string cy c) (runDispatcher W uuid_string ts)"

section \<open>The metrics reporter\<close>

record counters =
  ct_buckets :: int
  ct_sent :: int
  ct_failed :: int
  ct_skipped :: int

definition counters_of :: "('b, 'w) AnalyticsCoordinator \<Rightarrow> counters" where
  "counters_of c =
     \<lparr>ct_buckets = bucketsProcessed c, ct_sent = webhooksSent c, ct_failed = webhooksFailed c, ct_skipped = locksSkipped c\<rparr>"

text \<open>A line of the log: the totals, and their growth since the line before.\<close>

definition coordinator_report :: "counters \<Rightarrow> counters \<Rightarrow> counters \<times> counters" where
  "coordinator_report prev now =
     (now, \<lparr>ct_buckets = ct_buckets now - ct_buckets prev, ct_sent = ct_sent now - ct_sent prev,
            ct_failed = ct_failed now - ct_failed prev, ct_skipped = ct_skipped now - ct_skipped prev\<rparr>)"

fun report_loop :: "counters \<Rightarrow> ('b, 'w) AnalyticsCoordinator option list \<Rightarrow> (counters \<times> counters) list" where
  "report_loop prev [] = []"
| "report_loop prev (None # ts) = []"
| "report_loop prev (Some c # ts) = coordinator_report prev (counters_of c) # report_loop (counters_of c) ts"

definition runMetricsReporter :: "('b, 'w) AnalyticsCoordinator option list \<Rightarrow> (counters \<times> counters) list" where
  "runMetricsReporter ts = report_loop \<lparr>ct_buckets = 0, ct_sent = 0, ct_failed = 0, ct_skipped = 0\<rparr> ts"

lemma report_loop_deltas:
  "map (ct_sent \<circ> snd) (report_loop prev ts) = deltas (ct_sent prev) (map (ct_sent \<circ> fst) (report_loop prev ts))"
  "map (ct_failed \<circ> snd) (report_loop prev ts) = deltas (ct_failed prev) (map (ct_failed \<circ> fst) (report_loop prev ts))"
  "map (ct_buckets \<circ> snd) (report_loop prev ts) = deltas (ct_buckets prev) (map (ct_buckets \<circ> fst) (report_loop prev ts))"
  "map (ct_skipped \<circ> snd) (report_loop prev ts) = deltas (ct_skipped prev) (map (ct_skipped \<circ> fst) (report_loop prev ts))"
  by (induction prev ts rule: report_loop.induct) (simp_all add: coordinator_report_def)

lemma reported_webhooks_add_up:
  "sum_list (map (ct_sent \<circ> snd) (runMetricsReporter ts)) = last (0 # map (ct_sent \<circ> fst) (runMetricsReporter ts))"
  "sum_list (map (ct_failed \<circ> snd) (runMetricsReporter ts)) = last (0 # map (ct_failed \<circ> fst) (runMetricsReporter ts))"
  by (simp_all add: runMetricsReporter_def report_loop_deltas sum_deltas)

section \<open>Attempts\<close>

text \<open>
  The attempts of the queue are within bounds, and no row has more attempts than the copy of it
  that waits to be dispatched.
\<close>

definition attempts_ok :: "int \<Rightarrow> WebhookQueueItem list \<Rightarrow> analytics_db \<Rightarrow> bool" where
  "attempts_ok mx whs d \<longleftrightarrow>
     (\<forall>m \<in> set (webhook_queue d). 0 \<le> wqm_Attempts m \<and> wqm_Attempts m \<le> mx
        \<and> (\<forall>wh \<in> set whs. wqm_ID m = wq_ID wh \<longrightarrow> wqm_Attempts m \<le> wq_Attempts wh))
     \<and> (\<forall>wh \<in> set whs. 0 \<le> wq_Attempts wh)"

lemma status_names [simp]:
  "WebhookStatusFailed \<noteq> WebhookStatusRetrying" "WebhookStatusSent \<noteq> WebhookStatusRetrying"
  "WebhookStatusFailed \<noteq> WebhookStatusSent" "WebhookStatusRetrying \<noteq> WebhookStatusSent"
  by (simp_all add: go_defs)

definition one_more :: "bool \<Rightarrow> uuid \<Rightarrow> analytics_db \<Rightarrow> analytics_db \<Rightarrow> bool" where
  "one_more retrying uid d d' \<longleftrightarrow>
     hourly_plant_stats d' = hourly_plant_stats d
     \<and> (\<forall>m \<in> set (webhook_queue d'). \<exists>m0 \<in> set (webhook_queue d). wqm_ID m = wqm_ID m0
        \<and> (wqm_Attempts m = wqm_Attempts m0
           \<or> retrying \<and> wqm_ID m0 = uid \<and> wqm_Attempts m = wqm_Attempts m0 + 1))"

lemma one_more_refl: "one_more b uid d d"
  by (auto simp: one_more_def)

lemma one_more_update:
  assumes "\<And>m. wqm_ID (f m) = wqm_ID m"
    "\<And>m. wqm_Attempts (f m) = wqm_Attempts m \<or> b \<and> wqm_Attempts (f m) = wqm_Attempts m + 1"
  shows "one_more b uid d (update_webhook uid f d)"
proof -
  have "\<exists>m0 \<in> set (webhook_queue d). wqm_ID (if wqm_ID m = uid then f m else m) = wqm_ID m0
      \<and> (wqm_Attempts (if wqm_ID m = uid then f m else m) = wqm_Attempts m0
         \<or> b \<and> wqm_ID m0 = uid \<and> wqm_Attempts (if wqm_ID m = uid then f m else m) = wqm_Attempts m0 + 1)"
    if "m \<in> set (webhook_queue d)" for m
    using assms [of m] that by (intro bexI [of _ m]) auto
  then show ?thesis by (auto simp add: one_more_def update_webhook_def simp del: if_image_distrib)
qed

lemma UpdateWebhookStatus_result:
  assumes "\<forall>m \<in> set (webhook_queue d). 0 \<le> wqm_Attempts m \<and> wqm_Attempts m \<le> 58"
  shows "\<exists>r d'. UpdateWebhookStatus rnd now f1 f2 uid status msg d = Some (r, d')
    \<and> one_more (status = WebhookStatusRetrying) uid d d'"
proof (cases "status = WebhookStatusRetrying \<and> f1 = None \<and> List.find (\<lambda>m. wqm_ID m = uid) (webhook_queue d) \<noteq> None")
  case True
  then obtain model where m: "List.find (\<lambda>m. wqm_ID m = uid) (webhook_queue d) = Some model" by auto
  then have "model \<in> set (webhook_queue d)" by (auto simp: find_Some_iff)
  then obtain s where b: "backoff_seconds rnd (wqm_Attempts model) = Some s"
    using assms by (simp add: backoff_seconds_small Let_def)
  show ?thesis
    using True m b
    by (cases f2) (auto simp: UpdateWebhookStatus_def Let_def intro: one_more_refl one_more_update)
next
  case False
  then show ?thesis
    by (cases f1; cases f2) (auto simp: UpdateWebhookStatus_def Let_def
        intro: one_more_refl one_more_update split: option.split)
qed

lemma UpdateWebhookStatus_ids:
  "UpdateWebhookStatus rnd now f1 f2 uid status msg d = Some (r, d') \<Longrightarrow>
    map wqm_ID (webhook_queue d') = map wqm_ID (webhook_queue d)"
  by (auto simp: UpdateWebhookStatus_def Let_def update_webhook_def split: if_splits option.splits)

lemma set_status_attempts:
  assumes ok: "attempts_ok mx (wh # whs) (db c)" and "mx \<le> 58" "wq_ID wh \<notin> wq_ID ` set whs"
    and small: "status = WebhookStatusRetrying \<Longrightarrow> wq_Attempts wh < mx"
  shows "\<exists>c'. set_status it (wq_ID wh) status msg c = Some c' \<and> config c' = config c
    \<and> attempts_ok mx whs (db c')"
proof -
  have "\<forall>m \<in> set (webhook_queue (db c)). 0 \<le> wqm_Attempts m \<and> wqm_Attempts m \<le> 58"
    using ok assms(2) by (auto simp: attempts_ok_def)
  from UpdateWebhookStatus_result [OF this, of "it_rand it" "it_now it" "it_first_fault it"
      "it_update_fault it" "wq_ID wh" status msg] obtain r d' where
    r: "UpdateWebhookStatus (it_rand it) (it_now it) (it_first_fault it) (it_update_fault it) (wq_ID wh)
          status msg (db c) = Some (r, d')"
    and rows: "\<forall>m \<in> set (webhook_queue d'). \<exists>m0 \<in> set (webhook_queue (db c)). wqm_ID m = wqm_ID m0
        \<and> (wqm_Attempts m = wqm_Attempts m0
           \<or> status = WebhookStatusRetrying \<and> wqm_ID m0 = wq_ID wh \<and> wqm_Attempts m = wqm_Attempts m0 + 1)"
    by (auto simp: one_more_def)
  have "attempts_ok mx whs d'"
    unfolding attempts_ok_def
  proof (intro conjI ballI)
    fix m assume "m \<in> set (webhook_queue d')"
    with rows obtain m0 where m0: "m0 \<in> set (webhook_queue (db c))" "wqm_ID m = wqm_ID m0"
        "wqm_Attempts m = wqm_Attempts m0 \<or>
         status = WebhookStatusRetrying \<and> wqm_ID m0 = wq_ID wh \<and> wqm_Attempts m = wqm_Attempts m0 + 1"
      by blast
    have o: "0 \<le> wqm_Attempts m0" "wqm_Attempts m0 \<le> mx"
        "wqm_ID m0 = wq_ID wh \<Longrightarrow> wqm_Attempts m0 \<le> wq_Attempts wh"
        "\<And>w. w \<in> set whs \<Longrightarrow> wqm_ID m0 = wq_ID w \<Longrightarrow> wqm_Attempts m0 \<le> wq_Attempts w"
      using ok m0(1) by (auto simp: attempts_ok_def)
    show "0 \<le> wqm_Attempts m" "wqm_Attempts m \<le> mx" using m0(3) o small by auto
    fix w assume "w \<in> set whs"
    then show "wqm_ID m = wq_ID w \<longrightarrow> wqm_Attempts m \<le> wq_Attempts w"
      using m0(2,3) o(4) assms(3) by auto
  qed (use ok in \<open>auto simp: attempts_ok_def\<close>)
  then show ?thesis by (simp add: set_status_def r)
qed

lemma lock_db [simp]:
  "db (snd (tryAdvisoryLock lockID cy c)) = db c" "config (snd (tryAdvisoryLock lockID cy c)) = config c"
  "db (releaseAdvisoryLock lockID cy c) = db c" "config (releaseAdvisoryLock lockID cy c) = config c"
  "stopChan_closed (snd (tryAdvisoryLock lockID cy c)) = stopChan_closed c"
  "stopChan_closed (releaseAdvisoryLock lockID cy c) = stopChan_closed c"
  by (simp_all add: tryAdvisoryLock_def releaseAdvisoryLock_def prod.case_eq_if split: option.split)

text \<open>
  What runs beside the dispatcher: jobs that leave the attempts of a row alone or reset them.
\<close>

locale background_jobs =
  fixes job :: "nat \<Rightarrow> analytics_db \<Rightarrow> analytics_db"
  assumes attempts: "m \<in> set (webhook_queue (job n d)) \<Longrightarrow> wqm_Attempts m = 0
    \<or> (\<exists>m0 \<in> set (webhook_queue d). wqm_ID m = wqm_ID m0 \<and> wqm_Attempts m = wqm_Attempts m0)"
begin

lemma job_attempts: "attempts_ok mx whs d \<Longrightarrow> 0 \<le> mx \<Longrightarrow> attempts_ok mx whs (job n d)"
  using attempts [of _ n d] by (fastforce simp: attempts_ok_def)

lemma dispatch_webhook_attempts:
  assumes "attempts_ok (MaxWebhookAttempts (config c)) (wh # whs) (db c)"
    "0 \<le> MaxWebhookAttempts (config c)" "MaxWebhookAttempts (config c) \<le> 58"
    "wq_ID wh \<notin> wq_ID ` set whs" "it_meanwhile it = job n"
  shows "\<exists>c'. dispatch_webhook W us it wh c = Some c' \<and> config c' = config c
    \<and> attempts_ok (MaxWebhookAttempts (config c)) whs (db c')"
proof -
  let ?mx = "MaxWebhookAttempts (config c)"
  have st: "\<exists>c'. set_status it (wq_ID wh) status msg c0 = Some c' \<and> config c' = config c
      \<and> attempts_ok ?mx whs (db c')"
    if "attempts_ok ?mx (wh # whs) (db c0)" "config c0 = config c"
      "status = WebhookStatusRetrying \<Longrightarrow> wq_Attempts wh < ?mx" for c0 :: "('a, 'b) AnalyticsCoordinator" and status msg
    using set_status_attempts [OF that(1) assms(3,4) that(3)] that(2) by simp
  show ?thesis
  proof (cases "wq_Attempts wh \<ge> ?mx")
    case True
    then show ?thesis using st [OF assms(1) refl, of WebhookStatusFailed "''max attempts exceeded''"]
      by (auto simp: dispatch_webhook_def)
  next
    case False
    show ?thesis
    proof (cases "GetHourlyStats (it_stats_fault it) (wq_Bucket wh) (wq_PlantSourceId wh) (db c)")
      case (Inl err)
      then show ?thesis using False st [OF assms(1) refl, of WebhookStatusRetrying]
        by (simp add: dispatch_webhook_def)
    next
      case (Inr ms)
      show ?thesis
      proof (cases ms)
        case None
        then show ?thesis
          using False Inr st [OF assms(1) refl, of WebhookStatusFailed "''stats not found''"]
          by (auto simp: dispatch_webhook_def)
      next
        case (Some stats)
        obtain r web' where send: "SendPayload W (WebhookURL (config c)) (webhook_payload us stats) (web_state c) = (r, web')"
          by (cases "SendPayload W (WebhookURL (config c)) (webhook_payload us stats) (web_state c)")
        let ?c = "c\<lparr>web_state := web', db := it_meanwhile it (db c)\<rparr>"
        have j: "attempts_ok ?mx (wh # whs) (db ?c)" using job_attempts [OF assms(1,2)] assms(5) by simp
        show ?thesis
        proof (cases r)
          case None
          then show ?thesis using False Inr Some send st [OF j, of WebhookStatusSent "[]"]
            by (auto simp: dispatch_webhook_def Let_def)
        next
          case (Some err)
          then show ?thesis using False Inr \<open>ms = Some stats\<close> send st [OF j, of WebhookStatusRetrying "Error err"]
            by (auto simp: dispatch_webhook_def Let_def)
        qed
      qed
    qed
  qed
qed

lemma dispatch_all_attempts:
  assumes "attempts_ok (MaxWebhookAttempts (config c)) whs (db c)"
    "0 \<le> MaxWebhookAttempts (config c)" "MaxWebhookAttempts (config c) \<le> 58"
    "distinct (map wq_ID whs)" "\<forall>n. it_meanwhile (its n) = job n"
  shows "\<exists>c'. dispatch_all W us its k whs c = Some c' \<and> config c' = config c
    \<and> attempts_ok (MaxWebhookAttempts (config c)) [] (db c')"
  using assms
proof (induction whs arbitrary: k c)
  case (Cons wh whs)
  have d: "wq_ID wh \<notin> wq_ID ` set whs" using Cons.prems(4) by simp
  obtain c' where "dispatch_webhook W us (its k) wh c = Some c'" "config c' = config c"
      "attempts_ok (MaxWebhookAttempts (config c)) whs (db c')"
    using dispatch_webhook_attempts [OF Cons.prems(1-3) d] Cons.prems(5) by blast
  then show ?case using Cons.IH [of c' "Suc k"] Cons.prems by simp
qed (simp add: attempts_ok_def)

lemma doDispatch_attempts:
  assumes "attempts_ok (MaxWebhookAttempts (config c)) [] (db c)"
    "0 \<le> MaxWebhookAttempts (config c)" "MaxWebhookAttempts (config c) \<le> 58"
    "distinct (map wqm_ID (webhook_queue (db c)))" "\<forall>n. it_meanwhile (cy_items cy n) = job n"
  shows "\<exists>c'. doDispatch W us cy c = Some c' \<and> attempts_ok (MaxWebhookAttempts (config c)) [] (db c')"
proof (cases "WebhookEnabled (config c) \<and> fst (tryAdvisoryLock advisoryLockDispatcher cy c)")
  case False
  then show ?thesis using assms(1) lock_db(1) [of advisoryLockDispatcher cy c]
    by (auto simp: doDispatch_def split: prod.split bool.split simp del: lock_db)
next
  case True
  define c0 where "c0 = snd (tryAdvisoryLock advisoryLockDispatcher cy c)"
  have t: "tryAdvisoryLock advisoryLockDispatcher cy c = (True, c0)" using True by (simp add: c0_def prod_eq_iff)
  have c0: "db c0 = db c" "config c0 = config c" by (simp_all add: c0_def)
  show ?thesis
  proof (cases "GetPendingWebhooks (cy_query_fault cy) (cy_now cy) (WebhookBatchSize (config c0)) (db c0)")
    case (Inl err)
    then show ?thesis using True t c0 assms(1) by (simp add: doDispatch_def)
  next
    case (Inr whs)
    then obtain rows where whs: "whs = map ToWebhookQueueEntity rows"
        and sub: "set rows \<subseteq> set (webhook_queue (db c))" and "distinct (map wqm_ID rows)"
      using GetPendingWebhooks_rows assms(4) unfolding c0 by metis
    have ids: "wq_ID (ToWebhookQueueEntity m) = wqm_ID m" "wq_Attempts (ToWebhookQueueEntity m) = wqm_Attempts m" for m
      by (simp_all add: ToWebhookQueueEntity_def)
    from \<open>distinct (map wqm_ID rows)\<close> have "distinct (map wq_ID whs)" by (simp add: whs ids o_def)
    moreover have "attempts_ok (MaxWebhookAttempts (config c0)) whs (db c0)"
    proof -
      have "m = m'" if "m \<in> set (webhook_queue (db c))" "m' \<in> set rows" "wqm_ID m = wqm_ID m'" for m m'
        using that sub assms(4) by (auto simp: distinct_map inj_on_def)
      then show ?thesis using assms(1) sub by (fastforce simp: attempts_ok_def whs ids c0)
    qed
    ultimately obtain c' where "dispatch_all W us (cy_items cy) 0 whs c0 = Some c'"
        "attempts_ok (MaxWebhookAttempts (config c0)) [] (db c')"
      using dispatch_all_attempts [of c0 whs "cy_items cy" W us 0] assms(2,3,5)
      unfolding c0 by blast
    then show ?thesis using True t Inr by (simp add: doDispatch_def c0)
  qed
qed

end

text \<open>
  Jobs that keep the primary key of the queue too; so does a dispatch beside them, and it leaves
  its configuration and its stop signal alone.
\<close>

locale keyed_jobs = background_jobs +
  assumes keys: "distinct (map wqm_ID (webhook_queue d)) \<Longrightarrow> distinct (map wqm_ID (webhook_queue (job n d)))"
begin

definition same_run :: "('b, 'w) AnalyticsCoordinator \<Rightarrow> ('b, 'w) AnalyticsCoordinator \<Rightarrow> bool" where
  "same_run c c' \<longleftrightarrow> config c' = config c \<and> stopChan_closed c' = stopChan_closed c
     \<and> (distinct (map wqm_ID (webhook_queue (db c))) \<longrightarrow> distinct (map wqm_ID (webhook_queue (db c'))))"

lemma same_run_trans: "same_run c c' \<Longrightarrow> same_run c' c'' \<Longrightarrow> same_run c c''"
  by (simp add: same_run_def)

lemma dispatch_webhook_same:
  assumes "dispatch_webhook W us it wh c = Some c'" "it_meanwhile it = job n"
  shows "same_run c c'"
proof -
  have set: "same_run c1 c2" if "set_status it uid status msg c1 = Some c2"
    for uid status msg and c1 c2 :: "('a, 'b) AnalyticsCoordinator"
    using that by (auto simp: set_status_def same_run_def dest: UpdateWebhookStatus_ids)
  have count: "same_run c (c2\<lparr>webhooksFailed := f\<rparr>) = same_run c c2" "same_run c (c2\<lparr>webhooksSent := f\<rparr>) = same_run c c2"
    for f and c2 :: "('a, 'b) AnalyticsCoordinator"
    by (simp_all add: same_run_def)
  have sent: "same_run c (c\<lparr>web_state := web', db := job n (db c)\<rparr>)" for web'
    by (simp add: same_run_def keys)
  show ?thesis
    using assms
    by (auto simp: dispatch_webhook_def Let_def count split: if_splits sum.splits option.splits prod.splits
        dest!: set intro: same_run_trans [OF sent])
qed

lemma dispatch_all_same:
  "dispatch_all W us its k whs c = Some c' \<Longrightarrow> \<forall>n. it_meanwhile (its n) = job n \<Longrightarrow> same_run c c'"
proof (induction whs arbitrary: k c)
  case (Cons wh whs)
  then show ?case
    using dispatch_webhook_same same_run_trans by (fastforce simp: bind_eq_Some_conv)
qed (simp add: same_run_def)

lemma doDispatch_same:
  assumes "doDispatch W us cy c = Some c'" "\<forall>n. it_meanwhile (cy_items cy n) = job n"
  shows "same_run c c'"
proof -
  have lock: "same_run c1 (snd (tryAdvisoryLock i cy c1))" "same_run c1 (releaseAdvisoryLock i cy c1)"
    "same_run c1 (c1\<lparr>locksSkipped := f\<rparr>)" for i f and c1 :: "('a, 'b) AnalyticsCoordinator"
    by (simp_all add: same_run_def)
  have all: "same_run c1 (releaseAdvisoryLock i cy c2)" if "dispatch_all W us (cy_items cy) 0 whs c1 = Some c2" for i whs c1 c2
    by (rule same_run_trans [OF dispatch_all_same [OF that assms(2)] lock(2)])
  have "same_run (snd (tryAdvisoryLock advisoryLockDispatcher cy c)) c'" if "WebhookEnabled (config c)"
    using assms(1) that all lock
    by (auto simp: doDispatch_def prod.case_eq_if split: bool.splits sum.splits)
  then show ?thesis using assms(1) same_run_trans [OF lock(1)] by (cases "WebhookEnabled (config c)") (auto simp: doDispatch_def same_run_def)
qed

end

text \<open>The aggregation, here or on another replica, is such a job.\<close>

lemma queue_fold_attempts:
  "m \<in> set (fold (queue_webhook now fresh) ks tbl) \<Longrightarrow>
    wqm_Attempts m = 0 \<or> (\<exists>m0 \<in> set tbl. wqm_ID m = wqm_ID m0 \<and> wqm_Attempts m = wqm_Attempts m0)"
proof (induction ks arbitrary: tbl)
  case (Cons k ks)
  then obtain m0 where "wqm_Attempts m = 0 \<or>
      m0 \<in> set (queue_webhook now fresh k tbl) \<and> wqm_ID m = wqm_ID m0 \<and> wqm_Attempts m = wqm_Attempts m0"
    by fastforce
  then show ?case by (auto simp: queue_webhook_def split: if_splits)
qed auto

interpretation aggregation_jobs: background_jobs
    "\<lambda>n d. snd (RecalculateDirtyBuckets G (fault n) (now n) (fresh n) w d)"
  for G :: pg and fault :: "nat \<Rightarrow> goerr option" and now :: "nat \<Rightarrow> time"
    and fresh :: "nat \<Rightarrow> bucket_key \<Rightarrow> uuid" and w :: duration
proof
  fix m n d
  assume "m \<in> set (webhook_queue (snd (RecalculateDirtyBuckets G (fault n) (now n) (fresh n) w d)))"
  then show "wqm_Attempts m = 0
      \<or> (\<exists>m0 \<in> set (webhook_queue d). wqm_ID m = wqm_ID m0 \<and> wqm_Attempts m = wqm_Attempts m0)"
    by (auto simp: RecalculateDirtyBuckets_def Let_def split: option.splits dest!: queue_fold_attempts)
qed

text \<open>With the primary key of the queue: a statement that violates it changes nothing.\<close>

definition with_primary_key :: "(analytics_db \<Rightarrow> analytics_db) \<Rightarrow> analytics_db \<Rightarrow> analytics_db" where
  "with_primary_key f d = (if distinct (map wqm_ID (webhook_queue (f d))) then f d else d)"

interpretation other_replicas: keyed_jobs
    "\<lambda>n. with_primary_key (\<lambda>d. snd (RecalculateDirtyBuckets (G n) (fault n) (now n) (fresh n) (w n) d))"
  for G :: "nat \<Rightarrow> pg" and fault :: "nat \<Rightarrow> goerr option" and now :: "nat \<Rightarrow> time"
    and fresh :: "nat \<Rightarrow> bucket_key \<Rightarrow> uuid" and w :: "nat \<Rightarrow> duration"
proof
  fix m n d
  assume "m \<in> set (webhook_queue (with_primary_key
      (\<lambda>d. snd (RecalculateDirtyBuckets (G n) (fault n) (now n) (fresh n) (w n) d)) d))"
  then show "wqm_Attempts m = 0
      \<or> (\<exists>m0 \<in> set (webhook_queue d). wqm_ID m = wqm_ID m0 \<and> wqm_Attempts m = wqm_Attempts m0)"
    using aggregation_jobs.attempts [where G = "G n" and fault = fault and now = now and fresh = fresh and w = "w n" and n = n
        and d = d and m = m]
    by (auto simp: with_primary_key_def split: if_splits)
qed (simp add: with_primary_key_def)

text \<open>The coordinator's own aggregation.\<close>

lemma doAggregation_db:
  "db (doAggregation G cy c) \<in>
    {db c, snd (RecalculateDirtyBuckets G (cy_query_fault cy) (cy_now cy) (cy_fresh cy) (LookbackWindow (config c)) (db c))}"
  "config (doAggregation G cy c) = config c" "stopChan_closed (doAggregation G cy c) = stopChan_closed c"
  using lock_db [of advisoryLockAggregator cy c]
  by (auto simp: doAggregation_def prod.case_eq_if split: bool.split sum.split simp del: lock_db(1,2,5))

lemma doAggregation_attempts:
  assumes "attempts_ok mx [] (db c)" "0 \<le> mx"
  shows "attempts_ok mx [] (db (doAggregation G cy c))"
  using assms doAggregation_db(1) [of G cy c]
    aggregation_jobs.job_attempts [where mx = mx and whs = "[]" and d = "db c" and G = G and w = "LookbackWindow (config c)"
      and fault = "\<lambda>_. cy_query_fault cy" and now = "\<lambda>_. cy_now cy" and fresh = "\<lambda>_. cy_fresh cy"]
  by auto

lemma doAggregation_done:
  assumes "cy_lock_fault cy = None" "advisoryLockAggregator \<notin> fst ` set (locks c)"
  shows "db (doAggregation G cy c) =
    snd (RecalculateDirtyBuckets G (cy_query_fault cy) (cy_now cy) (cy_fresh cy) (LookbackWindow (config c)) (db c))"
proof -
  have "(advisoryLockAggregator, s) \<notin> set (locks c)" for s using assms(2) by force
  then have "fst (tryAdvisoryLock advisoryLockAggregator cy c)"
    using assms(1) by (auto simp: tryAdvisoryLock_def pg_try_advisory_lock_def)
  then show ?thesis by (auto simp: doAggregation_def prod.case_eq_if split: bool.split sum.split)
qed

section \<open>Properties\<close>

text \<open>
  A dispatch never panics and never exceeds the configured number of attempts: if every
  queued webhook is within it and it is at most 58, the dispatch returns and leaves the queue
  within it, whatever the network answers, whichever statements fail, and with aggregations
  running beside it.
\<close>

theorem dispatch_never_panics:
  assumes "attempts_ok (MaxWebhookAttempts (config c)) [] (db c)"
    "0 \<le> MaxWebhookAttempts (config c)" "MaxWebhookAttempts (config c) \<le> 58"
    "distinct (map wqm_ID (webhook_queue (db c)))"
    "\<forall>n. it_meanwhile (cy_items cy n) = (\<lambda>d. snd (RecalculateDirtyBuckets G (fault n) (now n) (fresh n) w d))"
  shows "\<exists>c'. doDispatch W us cy c = Some c' \<and> attempts_ok (MaxWebhookAttempts (config c)) [] (db c')"
  by (rule aggregation_jobs.doDispatch_attempts [OF assms])

definition one_hook :: WebhookQueueModel where
  "one_hook = \<lparr>wqm_ID = 3, wqm_Bucket = 0, wqm_PlantSourceId = 7, wqm_Status = WebhookStatusPending,
     wqm_Attempts = 0, wqm_LastAttempt = None, wqm_NextRetryAt = None, wqm_ErrorMessage = None,
     wqm_CreatedAt = 1\<rparr>"

text \<open>A coordinator with one event, its statistics as of an earlier aggregation, and its webhook.\<close>

definition old_stats :: HourlyPlantStatsModel where
  "old_stats = \<lparr>hsm_Bucket = 0, hsm_PlantSourceId = 7, hsm_PlantName = [], hsm_PlantType = [],
     hsm_Latitude = None, hsm_Longitude = None, hsm_AvgPowerGen = None, hsm_AvgPowerCon = None,
     hsm_AvgEfficiency = None, hsm_AvgTemp = None, hsm_SampleCount = 0, hsm_LastCalculatedAt = 1\<rparr>"

definition one_hook_coordinator :: "(unit, (string \<times> bytes) list) AnalyticsCoordinator" where
  "one_hook_coordinator =
     (NewAnalyticsCoordinator
        \<lparr>events_ts = [one_event], energy_plants = [], hourly_plant_stats = [old_stats], webhook_queue = [one_hook]\<rparr>
        [] ((), []) DefaultAnalyticsCoordinatorConfig)\<lparr>config := DefaultAnalyticsCoordinatorConfig\<lparr>WebhookEnabled := True\<rparr>\<rparr>"

definition busy_item :: item where
  "busy_item = \<lparr>it_stats_fault = None, it_first_fault = None, it_update_fault = None, it_now = 9,
     it_rand = (\<lambda>n. 0), it_meanwhile = (\<lambda>d. snd (RecalculateDirtyBuckets null_pg None 9 (\<lambda>k. 4) (10 * Minute) d))\<rparr>"

definition busy_cycle :: cycle where
  "busy_cycle = \<lparr>cy_lock_fault = None, cy_lock_session = 1, cy_unlock_fault = None, cy_unlock_session = 1,
     cy_query_fault = None, cy_now = 9, cy_fresh = (\<lambda>k. 4), cy_items = (\<lambda>n. busy_item)\<rparr>"

lemma one_hook_coordinator_simps [simp]:
  "db one_hook_coordinator = \<lparr>events_ts = [one_event], energy_plants = [], hourly_plant_stats = [old_stats],
     webhook_queue = [one_hook]\<rparr>"
  "MaxWebhookAttempts (config one_hook_coordinator) = 5" "locks one_hook_coordinator = []"
  "web_state one_hook_coordinator = ((), [])" "webhooksSent one_hook_coordinator = 0"
  "LookbackWindow (config one_hook_coordinator) = 10 * Minute"
  by (simp_all add: one_hook_coordinator_def NewAnalyticsCoordinator_def DefaultAnalyticsCoordinatorConfig_def Let_def)

theorem dispatch_never_panics_witness:
  "\<exists>c'. doDispatch (echo_web 500) plain_uuid busy_cycle one_hook_coordinator = Some c' \<and> attempts_ok 5 [] (db c')"
  using dispatch_never_panics [of one_hook_coordinator busy_cycle null_pg "\<lambda>n. None" "\<lambda>n. 9" "\<lambda>n k. 4"
      "10 * Minute" "echo_web 500" plain_uuid]
  by (simp add: attempts_ok_def one_hook_def busy_cycle_def busy_item_def)

lemma one_hook_facts:
  "GetHourlyStats (it_stats_fault busy_item) (wq_Bucket (ToWebhookQueueEntity one_hook))
     (wq_PlantSourceId (ToWebhookQueueEntity one_hook)) (db one_hook_coordinator) = Inr (Some (ToHourlyPlantStatsEntity old_stats))"
  "wq_Attempts (ToWebhookQueueEntity one_hook) = 0" "wq_ID (ToWebhookQueueEntity one_hook) = 3"
  "it_update_fault busy_item = None"
  by (simp_all add: busy_item_def GetHourlyStats_def ToWebhookQueueEntity_def one_hook_def stats_key_def old_stats_def)

lemma one_hook_send:
  "\<exists>raw. Marshal (webhook_payload us (ToHourlyPlantStatsEntity old_stats)) = Some raw
    \<and> SendPayload (echo_web 200) url (webhook_payload us (ToHourlyPlantStatsEntity old_stats)) ((), w) =
        (None, ((), w @ [(url, raw)]))"
proof -
  have "Marshal (webhook_payload us (ToHourlyPlantStatsEntity old_stats)) \<noteq> None"
    by (simp add: webhook_payload_def ToHourlyPlantStatsEntity_def old_stats_def float_ptr_def)
  then obtain raw where "Marshal (webhook_payload us (ToHourlyPlantStatsEntity old_stats)) = Some raw" by blast
  then show ?thesis
    by (intro exI [of _ raw]) (simp add: SendPayload_def doSend_def echo_web_def)
qed

text \<open>
  C27. A webhook counts as sent only when the statistics stored for its hour and plant were
  posted to the configured address and answered with a status from 200 to 299, if the circuit
  breaker keeps its contract.
\<close>

theorem sent_webhook_was_accepted:
  assumes "dispatch_webhook W us it wh c = Some c'" "webhooksSent c' \<noteq> webhooksSent c"
    "breaker_contract (cb_Execute W)"
  shows "\<exists>stats raw code.
      GetHourlyStats (it_stats_fault it) (wq_Bucket wh) (wq_PlantSourceId wh) (db c) = Inr (Some stats)
    \<and> Marshal (webhook_payload us stats) = Some raw
    \<and> http_Do W (WebhookURL (config c)) raw (snd (web_state c)) = (Inr code, snd (web_state c'))
    \<and> 200 \<le> code \<and> code < 300"
proof -
  have frame: "webhooksSent c2 = webhooksSent c1 \<and> web_state c2 = web_state c1"
    if "set_status it uid status msg c1 = Some c2" for uid status msg and c1 c2 :: "('a, 'b) AnalyticsCoordinator"
    using that by (auto simp: set_status_def)
  have few: "\<not> MaxWebhookAttempts (config c) \<le> wq_Attempts wh"
  proof
    assume "MaxWebhookAttempts (config c) \<le> wq_Attempts wh"
    then show False using assms(1,2) by (auto simp: dispatch_webhook_def dest!: frame)
  qed
  obtain stats where stats:
      "GetHourlyStats (it_stats_fault it) (wq_Bucket wh) (wq_PlantSourceId wh) (db c) = Inr (Some stats)"
    using assms(1,2) few
    by (auto simp: dispatch_webhook_def split: sum.splits option.splits dest!: frame)
  obtain b w where bw: "web_state c = (b, w)" by (cases "web_state c")
  obtain r b' w' where send:
      "SendPayload W (WebhookURL (config c)) (webhook_payload us stats) (b, w) = (r, (b', w'))"
    by (metis prod.exhaust)
  have r: "r = None"
    using assms(1,2) few stats bw send
    by (auto simp: dispatch_webhook_def Let_def split: option.splits dest!: frame)
  then have w': "web_state c' = (b', w')"
    using assms(1) few stats bw send by (auto simp: dispatch_webhook_def Let_def dest!: frame)
  from SendPayload_cases [OF assms(3) send] r
  have "doSend W (WebhookURL (config c)) (webhook_payload us stats) w = (None, w')" by simp
  then obtain raw code where "Marshal (webhook_payload us stats) = Some raw"
      "http_Do W (WebhookURL (config c)) raw w = (Inr code, w')" "200 \<le> code" "code < 300"
    unfolding doSend_ok_iff by blast
  then show ?thesis using stats bw w'
    by (intro exI [of _ stats] exI [of _ raw] exI [of _ code]) (simp del: Marshal.simps)
qed

theorem sent_webhook_was_accepted_witness:
  "\<exists>c' raw code. dispatch_webhook (echo_web 200) plain_uuid busy_item (ToWebhookQueueEntity one_hook) one_hook_coordinator = Some c'
    \<and> http_Do (echo_web 200) (WebhookURL (config one_hook_coordinator)) raw [] = (Inr code, snd (web_state c'))"
proof -
  obtain c' where c': "dispatch_webhook (echo_web 200) plain_uuid busy_item (ToWebhookQueueEntity one_hook)
      one_hook_coordinator = Some c'" "webhooksSent c' \<noteq> webhooksSent one_hook_coordinator"
    using one_hook_send [of plain_uuid "WebhookURL (config one_hook_coordinator)" "[]"] one_hook_facts
    by (auto simp: dispatch_webhook_def Let_def set_status_def UpdateWebhookStatus_def simp del: one_hook_coordinator_simps(1))
  from sent_webhook_was_accepted [OF c' echo_contract] c'(1) show ?thesis by auto
qed

text \<open>
  C28. A notification can be lost. While the webhook of an hour is being sent, the aggregation of
  another replica recomputes the hour, because an event of it is in the look-back window: the same row
  of the queue is pending again, with no attempts. When the send has succeeded, the dispatcher marks
  this row as sent. The table then holds statistics that differ from the posted ones, every row of
  the hour and plant is marked as sent, and no later query for pending webhooks returns one of them.
\<close>

theorem requeue_during_send_is_lost:
  assumes "get_queued k (webhook_queue (db c)) = Some q" "distinct (map queue_key (webhook_queue (db c)))"
    "wqm_Attempts q < MaxWebhookAttempts (config c)"
    "GetHourlyStats (it_stats_fault it) (fst k) (snd k) (db c) = Inr (Some stats)" "hs_LastCalculatedAt stats < now"
    "SendPayload W (WebhookURL (config c)) (webhook_payload us stats) (web_state c) = (None, web')"
    "it_update_fault it = None"
    "it_meanwhile it = (\<lambda>d. snd (RecalculateDirtyBuckets G None now fresh window d))"
    "RecalculateDirtyBuckets G None now fresh window (db c) = (Inr n, d)"
    "e \<in> set (events_ts (db c))" "event_key e = k" "now - window div Minute * Minute \<le> anm_CreatedAt e"
  shows "\<exists>q' c' m. get_queued k (webhook_queue d) = Some q' \<and> wqm_ID q' = wqm_ID q
    \<and> wqm_Status q' = WebhookStatusPending \<and> wqm_Attempts q' = 0
    \<and> dispatch_webhook W us it (ToWebhookQueueEntity q) c = Some c' \<and> web_state c' = web'
    \<and> get_stats k (hourly_plant_stats (db c')) = Some m \<and> calculated_stats G now (db c) k = Some m
    \<and> ToHourlyPlantStatsEntity m \<noteq> stats
    \<and> (\<exists>r \<in> set (webhook_queue (db c')). queue_key r = k)
    \<and> (\<forall>r \<in> set (webhook_queue (db c')). queue_key r = k \<longrightarrow> wqm_Status r = WebhookStatusSent)
    \<and> (\<forall>fault now' limit whs. GetPendingWebhooks fault now' limit (db c') = Inr whs \<longrightarrow>
         (\<forall>x \<in> set whs. (wq_Bucket x, wq_PlantSourceId x) \<noteq> k))"
proof -
  have q: "queue_key q = k" using assms(1) by (auto simp: get_queued_def find_Some_iff)
  have dirty: "k \<in> {event_key e | e. e \<in> set (events_ts (db c)) \<and> now - window div Minute * Minute \<le> anm_CreatedAt e}"
    using assms(10-12) by blast
  from Recalculate_tables [OF assms(9) refl, of k] dirty assms(1) obtain m where m:
      "get_stats k (hourly_plant_stats d) = Some m" "calculated_stats G now (db c) k = Some m"
      "get_queued k (webhook_queue d) = Some (requeued now fresh k (Some q))"
    by auto
  let ?q = "requeued now fresh k (Some q)"
  have req: "wqm_ID ?q = wqm_ID q" "wqm_Status ?q = WebhookStatusPending" "wqm_Attempts ?q = 0"
    by (simp_all add: requeued_def)
  have keys: "distinct (map queue_key (webhook_queue d))"
    using Recalculate_ok [OF assms(9)] queue_webhook_keys [OF assms(2)] by auto
  let ?set = "\<lambda>r. if wqm_ID r = wqm_ID q
      then r\<lparr>wqm_Status := WebhookStatusSent, wqm_LastAttempt := Some (it_now it), wqm_ErrorMessage := None,
             wqm_NextRetryAt := None\<rparr> else r"
  obtain c' where c': "dispatch_webhook W us it (ToWebhookQueueEntity q) c = Some c'" "web_state c' = web'"
      "hourly_plant_stats (db c') = hourly_plant_stats d" "webhook_queue (db c') = map ?set (webhook_queue d)"
    using assms(3,4,6-9) q
    by (auto simp: dispatch_webhook_def Let_def set_status_def UpdateWebhookStatus_def update_webhook_def
        ToWebhookQueueEntity_def queue_key_def WebhookStatusSent_def WebhookStatusRetrying_def)
  have "hsm_LastCalculatedAt m = now"
    using m(2) by (auto simp: calculated_stats_def Let_def split: option.splits)
  then have new: "ToHourlyPlantStatsEntity m \<noteq> stats" using assms(5) by (auto simp: ToHourlyPlantStatsEntity_def)
  have only: "r = ?q" if "r \<in> set (webhook_queue d)" "queue_key r = k" for r
    using get_queued_unique [OF keys that(1)] that(2) m(3) by simp
  have sent: "wqm_Status r = WebhookStatusSent" if r: "r \<in> set (webhook_queue (db c'))" "queue_key r = k" for r
  proof -
    obtain r0 where r0: "r0 \<in> set (webhook_queue d)" "r = ?set r0" using r(1) by (auto simp: c'(4))
    then have "queue_key r0 = k" using r(2) by (auto simp: queue_key_def split: if_splits)
    then show ?thesis using only [OF r0(1)] r0(2) req(1) by simp
  qed
  have "?q \<in> set (webhook_queue d)" "queue_key ?q = k" using m(3) by (auto simp: get_queued_def find_Some_iff)
  then have some: "\<exists>r \<in> set (webhook_queue (db c')). queue_key r = k"
    unfolding c'(4) by (intro bexI [of _ "?set ?q"]) (auto simp: queue_key_def)
  have idle: "(wq_Bucket x, wq_PlantSourceId x) \<noteq> k"
    if "GetPendingWebhooks fault now' limit (db c') = Inr whs" "x \<in> set whs" for fault now' limit whs x
    using GetPendingWebhooks_status [OF that] sent
    by (auto simp: ToWebhookQueueEntity_def queue_key_def WebhookStatusPending_def WebhookStatusRetrying_def WebhookStatusSent_def)
  have "get_stats k (hourly_plant_stats (db c')) = Some m" using m(1) by (simp only: c'(3))
  then show ?thesis
    by (intro exI [of _ ?q] exI [of _ c'] exI [of _ m] conjI allI impI ballI m req c'(1,2) new some)
      (assumption | rule sent idle)+
qed

theorem requeue_during_send_is_lost_witness:
  "\<exists>c'. dispatch_webhook (echo_web 200) plain_uuid busy_item (ToWebhookQueueEntity one_hook) one_hook_coordinator = Some c'
    \<and> get_stats (0, 7) (hourly_plant_stats (db c')) \<noteq> Some old_stats
    \<and> (\<forall>r \<in> set (webhook_queue (db c')). queue_key r = (0, 7) \<longrightarrow> wqm_Status r = WebhookStatusSent)"
proof -
  obtain raw where send: "SendPayload (echo_web 200) (WebhookURL (config one_hook_coordinator))
      (webhook_payload plain_uuid (ToHourlyPlantStatsEntity old_stats)) (web_state one_hook_coordinator) =
      (None, ((), [] @ [(WebhookURL (config one_hook_coordinator), raw)]))"
    using one_hook_send [of plain_uuid "WebhookURL (config one_hook_coordinator)" "[]"] by auto
  let ?d = "db one_hook_coordinator"
  have "list_all (measured null_pg) (events_ts ?d)" by (simp add: measured_def null_pg_def)
  then obtain n d where r: "RecalculateDirtyBuckets null_pg None 9 (\<lambda>k. 4) (10 * Minute) ?d = (Inr n, d)"
    using Recalculate_succeeds by blast
  have e: "one_event \<in> set (events_ts ?d)" "9 - 10 * Minute div Minute * Minute \<le> anm_CreatedAt one_event"
    by (simp_all add: Minute_def Second_def) (simp add: one_event_def)
  have q: "get_queued (0, 7) (webhook_queue ?d) = Some one_hook" "distinct (map queue_key (webhook_queue ?d))"
      "wqm_Attempts one_hook < MaxWebhookAttempts (config one_hook_coordinator)"
    by (simp_all add: get_queued_def queue_key_def one_hook_def)
  have s: "GetHourlyStats (it_stats_fault busy_item) (fst (0, 7)) (snd (0, 7)) ?d = Inr (Some (ToHourlyPlantStatsEntity old_stats))"
    by (simp add: busy_item_def GetHourlyStats_def stats_key_def old_stats_def)
  have "hs_LastCalculatedAt (ToHourlyPlantStatsEntity old_stats) < 9"
    by (simp add: ToHourlyPlantStatsEntity_def old_stats_def)
  from requeue_during_send_is_lost [OF q s this send one_hook_facts(4) _ r e(1) one_event_key e(2)]
  show ?thesis by (auto simp: busy_item_def simp del: one_hook_coordinator_simps(1))
qed

text \<open>
  C29. The aggregation's lock excludes other replicas, and it is given back when the pool runs
  both statements on the same session. When the pool runs the unlock on another session the lock
  stays with the first one, and the aggregations of all other sessions are skipped from then on.
\<close>

theorem advisory_lock_needs_its_session:
  assumes "cy_lock_fault cy = None" "cy_unlock_fault cy = None" "advisoryLockAggregator \<notin> fst ` set (locks c)"
    "cy_lock_fault cy' = None" "cy_lock_session cy' \<noteq> cy_lock_session cy"
  shows "if cy_unlock_session cy = cy_lock_session cy then locks (doAggregation G cy c) = locks c
    else doAggregation G cy' (doAggregation G cy c) =
      (doAggregation G cy c)\<lparr>locksSkipped := locksSkipped (doAggregation G cy c) + 1\<rparr>"
proof -
  have none: "(advisoryLockAggregator, s) \<notin> set (locks c)" for s using assms(3) by force
  let ?lks = "(advisoryLockAggregator, cy_lock_session cy) # locks c"
  have "\<not> (\<exists>(i, s) \<in> set (locks c). i = advisoryLockAggregator \<and> s \<noteq> cy_lock_session cy)"
    using none by auto
  then have t: "tryAdvisoryLock advisoryLockAggregator cy c = (True, c\<lparr>locks := ?lks\<rparr>)"
    using assms(1) by (simp add: tryAdvisoryLock_def pg_try_advisory_lock_def)
  have l: "locks (doAggregation G cy c) = remove1 (advisoryLockAggregator, cy_unlock_session cy) ?lks"
    using assms(2) by (auto simp: doAggregation_def t releaseAdvisoryLock_def split: prod.split sum.split)
  show ?thesis
  proof (cases "cy_unlock_session cy = cy_lock_session cy")
    case True
    then show ?thesis using l by simp
  next
    case False
    then have "(advisoryLockAggregator, cy_lock_session cy) \<in> set (locks (doAggregation G cy c))"
      using l by simp
    then have "\<exists>(i, s) \<in> set (locks (doAggregation G cy c)). i = advisoryLockAggregator \<and> s \<noteq> cy_lock_session cy'"
      using assms(5) by force
    then have "tryAdvisoryLock advisoryLockAggregator cy' (doAggregation G cy c) = (False, doAggregation G cy c)"
      using assms(4) by (simp add: tryAdvisoryLock_def pg_try_advisory_lock_def)
    then show ?thesis using False by (simp add: doAggregation_def [of G cy'])
  qed
qed

theorem advisory_lock_needs_its_session_witness:
  "doAggregation null_pg (busy_cycle\<lparr>cy_lock_session := 2\<rparr>)
     (doAggregation null_pg (busy_cycle\<lparr>cy_unlock_session := 5\<rparr>) one_hook_coordinator) =
   (doAggregation null_pg (busy_cycle\<lparr>cy_unlock_session := 5\<rparr>) one_hook_coordinator)
     \<lparr>locksSkipped := locksSkipped (doAggregation null_pg (busy_cycle\<lparr>cy_unlock_session := 5\<rparr>) one_hook_coordinator) + 1\<rparr>"
  using advisory_lock_needs_its_session [of "busy_cycle\<lparr>cy_unlock_session := 5\<rparr>" one_hook_coordinator
      "busy_cycle\<lparr>cy_lock_session := 2\<rparr>" null_pg]
  by (simp add: busy_cycle_def)

end
