(* ===== verification/Rest_Handlers.thy ===== *)
theory Rest_Handlers
  imports Repositories Telegram_Notifier
begin

text \<open>
  The REST adapter, \<open>internal/infrastructure/adapters/rest\<close>: the handlers of examples, events,
  plant status and the intake test, the request id and the rate limit.

  A handler is a function of what it reads of the request (path parameters, query, the bound
  body) and of the tables; its answer is the HTTP status and either the text of an \<open>error\<close> or
  the value that is marshalled. Third-party code is a parameter: \<open>bind\<close> is \<open>ShouldBindJSON\<close> of
  gin, \<open>uuid_Parse\<close> is the uuid package, and the limiter of \<open>golang.org/x/time/rate\<close> is a type
  \<^typ>\<open>'l\<close> with a constructor and \<open>Allow\<close>.
\<close>

type_synonym 'a response = "int \<times> (string + 'a)"

definition StatusOK :: int where [go_defs]: "StatusOK = 200"
definition StatusCreated :: int where [go_defs]: "StatusCreated = 201"
definition StatusNoContent :: int where [go_defs]: "StatusNoContent = 204"
definition StatusBadRequest :: int where [go_defs]: "StatusBadRequest = 400"
definition StatusNotFound :: int where [go_defs]: "StatusNotFound = 404"
definition StatusTooManyRequests :: int where [go_defs]: "StatusTooManyRequests = 429"
definition StatusInternalServerError :: int where [go_defs]: "StatusInternalServerError = 500"

definition ok :: "'a \<Rightarrow> 'a response" where
  "ok v = (StatusOK, Inr v)"

definition failure :: "int \<Rightarrow> string \<Rightarrow> 'a response" where
  "failure status msg = (status, Inl msg)"

definition server_error :: "'a response" where
  "server_error = failure StatusInternalServerError ''internal server error''"

text \<open>A repository's answer, sent with 200 or as a server error.\<close>

definition answer :: "goerr + 'a \<Rightarrow> 'a response" where
  "answer r = (case r of Inl err \<Rightarrow> server_error | Inr v \<Rightarrow> ok v)"

section \<open>Examples\<close>

record CreateExampleRequest =
  ce_Name :: string
  ce_Description :: string

record UpdateExampleRequest =
  ue_Name :: string
  ue_Description :: string

definition ListExamples :: "goerr option \<Rightarrow> ExampleModel list \<Rightarrow> ExampleEntity list response" where
  "ListExamples fault tbl = answer (FindAll_example fault tbl)"

text \<open>What \<open>GetExample\<close> and \<open>UpdateExample\<close> have in common: the row of the path's id.\<close>

definition find_example ::
  "(string \<Rightarrow> goerr + uuid) \<Rightarrow> goerr option \<Rightarrow> ExampleModel list \<Rightarrow> string
   \<Rightarrow> 'a response + ExampleEntity" where
  "find_example uuid_Parse fault tbl idStr =
     (case uuid_Parse idStr of
        Inl err \<Rightarrow> Inl (failure StatusBadRequest ''invalid id format'')
      | Inr uid \<Rightarrow>
          (case FindByID_example fault tbl uid of
             Inl err \<Rightarrow>
               Inl (if Is err ErrNotFound then failure StatusNotFound ''example not found''
                    else failure StatusInternalServerError ''internal error'')
           | Inr example \<Rightarrow> Inr example))"

definition GetExample ::
  "(string \<Rightarrow> goerr + uuid) \<Rightarrow> goerr option \<Rightarrow> ExampleModel list \<Rightarrow> string \<Rightarrow> ExampleEntity response" where
  "GetExample uuid_Parse fault tbl idStr =
     (case find_example uuid_Parse fault tbl idStr of Inl r \<Rightarrow> r | Inr example \<Rightarrow> ok example)"

definition CreateExample ::
  "(bytes \<Rightarrow> goerr + CreateExampleRequest) \<Rightarrow> goerr option \<Rightarrow> goerr \<Rightarrow> time \<Rightarrow> uuid \<Rightarrow> bytes
   \<Rightarrow> ExampleModel list \<Rightarrow> ExampleEntity response \<times> ExampleModel list" where
  "CreateExample bind fault dup now fresh body tbl =
     (case bind body of
        Inl err \<Rightarrow> (failure StatusBadRequest (Error err), tbl)
      | Inr req \<Rightarrow>
          (case Create_example fault dup now fresh
                  \<lparr>ex_ID = 0, ex_Name = ce_Name req, ex_Description = ce_Description req,
                   ex_CreatedAt = zero_time, ex_UpdatedAt = zero_time\<rparr> tbl of
             (Inl err, tbl) \<Rightarrow> (server_error, tbl)
           | (Inr created, tbl) \<Rightarrow> ((StatusCreated, Inr created), tbl)))"

definition UpdateExample ::
  "(string \<Rightarrow> goerr + uuid) \<Rightarrow> (bytes \<Rightarrow> goerr + UpdateExampleRequest) \<Rightarrow> goerr option \<Rightarrow> goerr option
   \<Rightarrow> time \<Rightarrow> uuid \<Rightarrow> string \<Rightarrow> bytes \<Rightarrow> ExampleModel list \<Rightarrow> ExampleEntity response \<times> ExampleModel list" where
  "UpdateExample uuid_Parse bind find_fault fault now fresh idStr body tbl =
     (case find_example uuid_Parse find_fault tbl idStr of
        Inl r \<Rightarrow> (r, tbl)
      | Inr existing \<Rightarrow>
          (case bind body of
             Inl err \<Rightarrow> (failure StatusBadRequest (Error err), tbl)
           | Inr req \<Rightarrow>
               (let existing = (if ue_Name req \<noteq> [] then existing\<lparr>ex_Name := ue_Name req\<rparr> else existing);
                    existing = (if ue_Description req \<noteq> []
                                then existing\<lparr>ex_Description := ue_Description req\<rparr> else existing)
                in case Update_example fault now fresh existing tbl of
                     (Inl err, tbl) \<Rightarrow> (server_error, tbl)
                   | (Inr updated, tbl) \<Rightarrow> (ok updated, tbl))))"

definition DeleteExample ::
  "(string \<Rightarrow> goerr + uuid) \<Rightarrow> goerr option \<Rightarrow> string \<Rightarrow> ExampleModel list
   \<Rightarrow> unit response \<times> ExampleModel list" where
  "DeleteExample uuid_Parse fault idStr tbl =
     (case uuid_Parse idStr of
        Inl err \<Rightarrow> (failure StatusBadRequest ''invalid id format'', tbl)
      | Inr uid \<Rightarrow>
          (case Delete_example fault uid tbl of
             (Some err, tbl) \<Rightarrow> (server_error, tbl)
           | (None, tbl) \<Rightarrow> ((StatusNoContent, Inr ()), tbl)))"

section \<open>Events\<close>

text \<open>
  \<open>strconv.Atoi\<close>, its error ignored: 0 for a string that is not a number, the nearest \<open>int\<close> for
  one out of range.
\<close>

definition maxInt :: int where
  "maxInt = 2 ^ 63 - 1"

definition Atoi :: "string \<Rightarrow> int" where
  "Atoi s =
     (let neg = (case s of c # _ \<Rightarrow> c = CHR ''-'' | [] \<Rightarrow> False);
          ds = (case s of c # r \<Rightarrow> if c = CHR ''-'' \<or> c = CHR ''+'' then r else s | [] \<Rightarrow> [])
      in if ds = [] \<or> \<not> list_all is_dig ds then 0
         else if neg then max (- dec_val ds) (- (2 ^ 63)) else min (dec_val ds) maxInt)"

text \<open>\<open>time.Parse(time.RFC3339, s)\<close> accepts a fraction of a second, as with \<open>RFC3339Nano\<close>.\<close>

definition Parse_RFC3339 :: "string \<Rightarrow> time option" where
  "Parse_RFC3339 s = Parse_RFC3339Nano s"

record parsers =
  ps_uuid_Parse :: "string \<Rightarrow> goerr + uuid"
  ps_uuid_String :: "uuid \<Rightarrow> string"
  ps_b64_err :: "string \<Rightarrow> goerr"
  ps_time_err :: "string \<Rightarrow> goerr"

definition ListOperationalEvents ::
  "parsers \<Rightarrow> goerr option \<Rightarrow> EventOperationalModel list \<Rightarrow> (string \<Rightarrow> string)
   \<Rightarrow> EventOperational Page response" where
  "ListOperationalEvents S fault tbl query =
     (let q = \<lparr>pq_Limit = Atoi (query ''limit''), pq_Cursor = None\<rparr>
      in if query ''after'' \<noteq> []
         then
           (case DecodeCursor (ps_uuid_Parse S) (ps_b64_err S) (ps_time_err S) (query ''after'') of
              Inl err \<Rightarrow> failure StatusBadRequest ''invalid cursor''
            | Inr cursor \<Rightarrow>
                answer (FindAll_operational (ps_uuid_String S) fault tbl (q\<lparr>pq_Cursor := Some cursor\<rparr>)))
         else answer (FindAll_operational (ps_uuid_String S) fault tbl q))"

definition GetOperationalEvent ::
  "parsers \<Rightarrow> goerr option \<Rightarrow> EventOperationalModel list \<Rightarrow> string \<Rightarrow> EventOperational response" where
  "GetOperationalEvent S fault tbl idStr =
     (case ps_uuid_Parse S idStr of
        Inl err \<Rightarrow> failure StatusBadRequest ''invalid id format''
      | Inr uid \<Rightarrow>
          (case FindByID_operational fault tbl uid of
             Inl err \<Rightarrow>
               (if Is err ErrNotFound then failure StatusNotFound ''event not found''
                else failure StatusInternalServerError ''internal error'')
           | Inr event \<Rightarrow> ok event))"

definition parse_range :: "string \<Rightarrow> string \<Rightarrow> 'a response + time \<times> time" where
  "parse_range startStr endStr =
     (case Parse_RFC3339 startStr of
        None \<Rightarrow> Inl (failure StatusBadRequest ''invalid start time format, use RFC3339'')
      | Some start \<Rightarrow>
          (case Parse_RFC3339 endStr of
             None \<Rightarrow> Inl (failure StatusBadRequest ''invalid end time format, use RFC3339'')
           | Some stop \<Rightarrow> Inr (start, stop)))"

definition ListAnalyticalEvents ::
  "goerr option \<Rightarrow> EventAnalyticalModel list \<Rightarrow> (string \<Rightarrow> string) \<Rightarrow> EventAnalytical list response" where
  "ListAnalyticalEvents fault tbl query =
     (if query ''start'' = [] \<or> query ''end'' = []
      then failure StatusBadRequest ''start and end query parameters are required''
      else case parse_range (query ''start'') (query ''end'') of
        Inl r \<Rightarrow> r
      | Inr (start, stop) \<Rightarrow> answer (FindByTimeRange fault tbl start stop))"

text \<open>The two aggregation handlers differ in the repository method only.\<close>

definition aggregation_handler ::
  "(uuid \<Rightarrow> time \<Rightarrow> time \<Rightarrow> goerr + AggregatedEvent list) \<Rightarrow> parsers \<Rightarrow> (string \<Rightarrow> string)
   \<Rightarrow> AggregatedEvent list response" where
  "aggregation_handler repo S query =
     (if query ''plant_id'' = [] \<or> query ''start'' = [] \<or> query ''end'' = []
      then failure StatusBadRequest ''plant_id, start, and end query parameters are required''
      else case ps_uuid_Parse S (query ''plant_id'') of
        Inl err \<Rightarrow> failure StatusBadRequest ''invalid plant_id format''
      | Inr plantId \<Rightarrow>
          (case parse_range (query ''start'') (query ''end'') of
             Inl r \<Rightarrow> r
           | Inr (start, stop) \<Rightarrow> answer (repo plantId start stop)))"

definition GetHourlyAggregation_handler ::
  "parsers \<Rightarrow> goerr option \<Rightarrow> EventAnalyticalModel list \<Rightarrow> (string \<Rightarrow> string)
   \<Rightarrow> AggregatedEvent list response" where
  "GetHourlyAggregation_handler S fault tbl = aggregation_handler (GetHourlyAggregation fault tbl) S"

definition GetDailyAggregation_handler ::
  "parsers \<Rightarrow> goerr option \<Rightarrow> EventAnalyticalModel list \<Rightarrow> (string \<Rightarrow> string)
   \<Rightarrow> AggregatedEvent list response" where
  "GetDailyAggregation_handler S fault tbl = aggregation_handler (GetDailyAggregation fault tbl) S"

section \<open>Plant status\<close>

definition ListPlantStatus ::
  "goerr option \<Rightarrow> PlantCurrentStatusModel list \<Rightarrow> PlantCurrentStatus list response" where
  "ListPlantStatus fault tbl = answer (GetAll_status fault tbl)"

definition GetPlantStatus ::
  "(string \<Rightarrow> goerr + uuid) \<Rightarrow> goerr option \<Rightarrow> PlantCurrentStatusModel list \<Rightarrow> string
   \<Rightarrow> PlantCurrentStatus response" where
  "GetPlantStatus uuid_Parse fault tbl idStr =
     (case uuid_Parse idStr of
        Inl err \<Rightarrow> failure StatusBadRequest ''invalid plant ID format''
      | Inr uid \<Rightarrow>
          (case GetByPlantID fault tbl uid of
             Inl err \<Rightarrow> server_error
           | Inr None \<Rightarrow> failure StatusNotFound ''plant status not found''
           | Inr (Some status) \<Rightarrow> ok status))"

definition ListPlantStatusByStatus ::
  "goerr option \<Rightarrow> PlantCurrentStatusModel list \<Rightarrow> string \<Rightarrow> PlantCurrentStatus list response" where
  "ListPlantStatusByStatus fault tbl statusFilter = answer (GetByStatus fault tbl statusFilter)"

section \<open>Intake test\<close>

record TestIntakeRequest =
  ti_EventType :: string
  ti_PlantName :: string
  ti_PlantSourceID :: string

record TestIntakeResponse =
  tr_Success :: bool
  tr_Message :: string
  tr_TelegramSent :: bool
  tr_Error :: string

definition intake_failure :: "string \<Rightarrow> bool \<Rightarrow> string \<Rightarrow> TestIntakeResponse" where
  "intake_failure msg sent err = \<lparr>tr_Success = False, tr_Message = msg, tr_TelegramSent = sent, tr_Error = err\<rparr>"

text \<open>\<open>exists\<close> is \<open>Exists\<close> of the plant repository, on the state behind it.\<close>

definition TestIntake ::
  "(bytes \<Rightarrow> goerr + TestIntakeRequest) \<Rightarrow> parsers \<Rightarrow> string \<Rightarrow> (uuid \<Rightarrow> 's \<Rightarrow> (goerr + bool) \<times> 's)
   \<Rightarrow> bytes \<Rightarrow> 's \<Rightarrow> Notifier \<Rightarrow> (int \<times> TestIntakeResponse) \<times> 's \<times> Notifier" where
  "TestIntake bind S stamp exists body st n =
     (case bind body of
        Inl err \<Rightarrow> ((StatusBadRequest, intake_failure ''Invalid JSON payload'' False (Error err)), st, n)
      | Inr req \<Rightarrow>
          (let about = ''. EventType: '' @ ti_EventType req @ '', PlantName: '' @ ti_PlantName req
           in if ti_PlantSourceID req = []
              then
                (let (telegramErr, n) = SendValidationError stamp n ''plant_source_id'' ''missing field''
                       (''The plant_source_id field is not present in the message'' @ about)
                 in ((StatusBadRequest,
                      intake_failure ''Validation failed: missing plant_source_id'' (telegramErr = None)
                        ''missing plant_source_id field in message''), st, n))
              else case ps_uuid_Parse S (ti_PlantSourceID req) of
                Inl err \<Rightarrow>
                  (let (telegramErr, n) = SendUUIDError stamp n ''plant_source_id'' (ti_PlantSourceID req)
                         (''Failed to parse UUID: '' @ Error err @ about)
                   in ((StatusBadRequest,
                        intake_failure ''Validation failed: invalid UUID format'' (telegramErr = None)
                          (''invalid plant_source_id format: '' @ Error err)), st, n))
              | Inr plantSourceID \<Rightarrow>
                  (case exists plantSourceID st of
                     (Inl err, st) \<Rightarrow>
                       ((StatusInternalServerError,
                         intake_failure ''Database error while validating plant'' False (Error err)), st, n)
                   | (Inr False, st) \<Rightarrow>
                       (let (telegramErr, n) = SendValidationError stamp n ''plant_source_id''
                              (ps_uuid_String S plantSourceID)
                              (''La planta con ID '' @ ps_uuid_String S plantSourceID
                               @ '' no existe en la base de datos'' @ about)
                        in ((StatusNotFound,
                             intake_failure ''Validation failed: plant does not exist'' (telegramErr = None)
                               (''plant_source_id='' @ ps_uuid_String S plantSourceID
                                @ '' does not exist in database'')), st, n))
                   | (Inr True, st) \<Rightarrow>
                       ((StatusOK,
                         \<lparr>tr_Success = True,
                          tr_Message = ''All validations passed for plant '' @ ps_uuid_String S plantSourceID,
                          tr_TelegramSent = False, tr_Error = []\<rparr>), st, n))))"

text \<open>The test, too, does no more to the notifier than enqueue.\<close>

context notifier_contract
begin

lemma TestIntake_keeps: "I n \<Longrightarrow> I (snd (snd (TestIntake bind S stamp exists body st n)))"
  by (auto simp: TestIntake_def Let_def prod.case_eq_if send_keeps split: sum.split bool.split)

end

section \<open>Request id\<close>

text \<open>The id of the request: the client's, or a fresh one. It goes to the context and the reply.\<close>

definition RequestIDMiddleware :: "string \<Rightarrow> string \<Rightarrow> string option \<times> string" where
  "RequestIDMiddleware header fresh = (let i = (if header = [] then fresh else header) in (Some i, i))"

section \<open>Rate limit\<close>

definition rateLimit :: nat where
  "rateLimit = 100"

definition burstLimit :: nat where
  "burstLimit = 20"

definition cleanupAge :: duration where
  "cleanupAge = 10 * Minute"

record 'l ipLimiter =
  limiter :: 'l
  lastSeen :: time

record 'l rate_pkg =
  NewLimiter :: "nat \<Rightarrow> nat \<Rightarrow> 'l"
  Allow :: "time \<Rightarrow> 'l \<Rightarrow> bool \<times> 'l"

text \<open>The map from addresses to limiters.\<close>

type_synonym 'l RateLimiter = "string \<Rightarrow> 'l ipLimiter option"

definition NewRateLimiter :: "'l RateLimiter" where
  "NewRateLimiter = (\<lambda>ip. None)"

definition getLimiter :: "'l rate_pkg \<Rightarrow> time \<Rightarrow> string \<Rightarrow> 'l RateLimiter \<Rightarrow> 'l ipLimiter \<times> 'l RateLimiter" where
  "getLimiter R now ip rl =
     (let entry = (case rl ip of
                     Some e \<Rightarrow> e\<lparr>lastSeen := now\<rparr>
                   | None \<Rightarrow> \<lparr>limiter = NewLimiter R rateLimit burstLimit, lastSeen = now\<rparr>)
      in (entry, rl(ip \<mapsto> entry)))"

text \<open>\<^const>\<open>None\<close>: the request goes on to its handler.\<close>

definition Middleware ::
  "'l rate_pkg \<Rightarrow> time \<Rightarrow> string \<Rightarrow> 'l RateLimiter \<Rightarrow> unit response option \<times> 'l RateLimiter" where
  "Middleware R now ip rl =
     (let (entry, rl) = getLimiter R now ip rl;
          (allowed, l) = Allow R now (limiter entry);
          rl = rl(ip \<mapsto> entry\<lparr>limiter := l\<rparr>)
      in if \<not> allowed then (Some (failure StatusTooManyRequests ''rate limit exceeded''), rl)
         else (None, rl))"

definition cleanup :: "time \<Rightarrow> 'l RateLimiter \<Rightarrow> 'l RateLimiter" where
  "cleanup now rl =
     (\<lambda>ip. case rl ip of
             Some e \<Rightarrow> if lastSeen e < now - cleanupAge then None else Some e
           | None \<Rightarrow> None)"

text \<open>A history: requests and ticks of the clean-up, each with its time.\<close>

datatype visit = Request time string | CleanupTick time

primrec visit_time :: "visit \<Rightarrow> time" where
  "visit_time (Request now ip) = now"
| "visit_time (CleanupTick now) = now"

fun serve :: "'l rate_pkg \<Rightarrow> visit list \<Rightarrow> 'l RateLimiter \<Rightarrow> bool list" where
  "serve R [] rl = []"
| "serve R (Request now ip # vs) rl =
     (let (r, rl) = Middleware R now ip rl in (r = None) # serve R vs rl)"
| "serve R (CleanupTick now # vs) rl = serve R vs (cleanup now rl)"

section \<open>The clean-up is invisible\<close>

text \<open>
  What the limiter does for one address on its own: \<open>alone\<close> answers the requests of \<open>ip\<close> with a
  single limiter that is never dropped.
\<close>

fun alone :: "'l rate_pkg \<Rightarrow> string \<Rightarrow> visit list \<Rightarrow> 'l option \<Rightarrow> bool list" where
  "alone R ip [] l = []"
| "alone R ip (Request now ip' # vs) l =
     (if ip' = ip
      then
        (let (allowed, l) = Allow R now (case l of Some x \<Rightarrow> x | None \<Rightarrow> NewLimiter R rateLimit burstLimit)
         in allowed # alone R ip vs (Some l))
      else alone R ip vs l)"
| "alone R ip (CleanupTick now # vs) l = alone R ip vs l"

fun answers_for :: "string \<Rightarrow> visit list \<Rightarrow> bool list \<Rightarrow> bool list" where
  "answers_for ip (Request now ip' # vs) (b # bs) =
     (if ip' = ip then b # answers_for ip vs bs else answers_for ip vs bs)"
| "answers_for ip (CleanupTick now # vs) bs = answers_for ip vs bs"
| "answers_for ip vs bs = []"

text \<open>
  The documented behaviour of a token bucket: after a limiter was last asked at \<open>t\<close>, at any time
  by which the bucket has filled up again it answers like a new one.
\<close>

definition refills :: "'l rate_pkg \<Rightarrow> duration \<Rightarrow> bool" where
  "refills R d \<longleftrightarrow>
     (\<forall>t l now. t + d < now \<longrightarrow>
        Allow R now (snd (Allow R t l)) = Allow R now (NewLimiter R rateLimit burstLimit))"

lemma Middleware_entry:
  "fst (Middleware R now ip rl) = None \<longleftrightarrow>
     fst (Allow R now (case rl ip of Some e \<Rightarrow> limiter e | None \<Rightarrow> NewLimiter R rateLimit burstLimit))"
  "snd (Middleware R now ip rl) = rl(ip \<mapsto>
     \<lparr>limiter = snd (Allow R now (case rl ip of Some e \<Rightarrow> limiter e | None \<Rightarrow> NewLimiter R rateLimit burstLimit)),
      lastSeen = now\<rparr>)"
  by (auto simp: Middleware_def getLimiter_def Let_def prod.case_eq_if split: option.split)

text \<open>What the map knows of \<open>ip\<close>, against the limiter that is never dropped.\<close>

definition tracks :: "'l rate_pkg \<Rightarrow> time \<Rightarrow> 'l ipLimiter option \<Rightarrow> 'l option \<Rightarrow> bool" where
  "tracks R t e l \<longleftrightarrow>
     (case e of
        Some e \<Rightarrow> l = Some (limiter e) \<and> (\<exists>l0. limiter e = snd (Allow R (lastSeen e) l0)) \<and> lastSeen e \<le> t
      | None \<Rightarrow>
          (case l of
             None \<Rightarrow> True
           | Some x \<Rightarrow> \<exists>l0 t0. x = snd (Allow R t0 l0) \<and> t0 + cleanupAge < t))"

lemma tracks_later: "tracks R t e l \<Longrightarrow> t \<le> t' \<Longrightarrow> tracks R t' e l"
  by (auto simp: tracks_def split: option.splits intro: order.strict_trans2)

lemma tracks_Allow:
  assumes "refills R cleanupAge" "tracks R t e l" "t \<le> now"
  shows "Allow R now (case e of Some e \<Rightarrow> limiter e | None \<Rightarrow> NewLimiter R rateLimit burstLimit) =
    Allow R now (case l of Some x \<Rightarrow> x | None \<Rightarrow> NewLimiter R rateLimit burstLimit)"
proof (cases e)
  case None
  show ?thesis
  proof (cases l)
    case (Some x)
    then obtain l0 t0 where "x = snd (Allow R t0 l0)" "t0 + cleanupAge < now"
      using assms(2,3) None by (auto simp: tracks_def)
    then show ?thesis using assms(1) None Some by (simp add: refills_def)
  qed (simp add: None)
qed (use assms(2) in \<open>auto simp: tracks_def\<close>)

lemma serve_alone:
  assumes "refills R cleanupAge" "tracks R t (rl ip) l" "sorted (t # map visit_time vs)"
  shows "answers_for ip vs (serve R vs rl) = alone R ip vs l"
  using assms(2,3)
proof (induction vs arbitrary: t rl l)
  case (Cons v vs)
  then have le: "t \<le> visit_time v" "sorted (visit_time v # map visit_time vs)" by auto
  show ?case
  proof (cases v)
    case (Request now ip')
    let ?rl = "snd (Middleware R now ip' rl)"
    show ?thesis
    proof (cases "ip' = ip")
      case True
      have a: "Allow R now (case rl ip of Some e \<Rightarrow> limiter e | None \<Rightarrow> NewLimiter R rateLimit burstLimit) =
          Allow R now (case l of Some x \<Rightarrow> x | None \<Rightarrow> NewLimiter R rateLimit burstLimit)"
        using tracks_Allow [OF assms(1) Cons.prems(1)] le(1) Request by simp
      let ?l = "snd (Allow R now (case l of Some x \<Rightarrow> x | None \<Rightarrow> NewLimiter R rateLimit burstLimit))"
      have "tracks R now (?rl ip) (Some ?l)" using True a by (auto simp: tracks_def Middleware_entry)
      then have "answers_for ip vs (serve R vs ?rl) = alone R ip vs (Some ?l)"
        using Cons.IH le(2) Request by simp
      then show ?thesis using True a Request
        by (simp add: Middleware_entry prod.case_eq_if)
    next
      case False
      then have "tracks R now (?rl ip) l"
        using tracks_later [OF Cons.prems(1)] le(1) Request by (simp add: Middleware_entry)
      then have "answers_for ip vs (serve R vs ?rl) = alone R ip vs l"
        using Cons.IH le(2) Request by simp
      then show ?thesis using False Request by (simp add: prod.case_eq_if)
    qed
  next
    case (CleanupTick now)
    have "tracks R now (cleanup now rl ip) l"
      using tracks_later [OF Cons.prems(1)] le(1) CleanupTick
      by (fastforce simp: tracks_def cleanup_def split: option.splits)
    then show ?thesis using Cons.IH le(2) CleanupTick by simp
  qed
qed simp

section \<open>Properties\<close>

text \<open>
  C37. Every address is limited on its own, and the clean-up cannot be noticed: whatever
  requests of other addresses and ticks of the clean-up come in between, in the order of their
  times, the requests of an address are answered as by a single limiter that is never dropped,
  if a limiter left alone for ten minutes answers like a new one.
\<close>

theorem rate_limit_per_address:
  assumes "refills R cleanupAge" "sorted (map visit_time vs)"
  shows "answers_for ip vs (serve R vs NewRateLimiter) = alone R ip vs None"
proof (cases vs)
  case (Cons v vs')
  have "tracks R (visit_time v) (NewRateLimiter ip) None" by (simp add: tracks_def NewRateLimiter_def)
  then show ?thesis using serve_alone [OF assms(1)] assms(2) Cons by fastforce
qed simp

text \<open>A token bucket, in units of a nanosecond's refill: a token is ten million units.\<close>

definition bucket_pkg :: "(nat \<times> time) option rate_pkg" where
  "bucket_pkg =
     \<lparr>NewLimiter = (\<lambda>r b. None),
      Allow = (\<lambda>now l.
        (let units = (case l of None \<Rightarrow> 20 * 10000000
                      | Some (u, t0) \<Rightarrow> min (20 * 10000000) (u + nat (now - t0)))
         in if 10000000 \<le> units then (True, Some (units - 10000000, now)) else (False, Some (units, now))))\<rparr>"

lemma bucket_Allow:
  "Allow bucket_pkg now None = (True, Some (190000000, now))"
  "Allow bucket_pkg now (Some (u, t0)) =
     (let units = min 200000000 (u + nat (now - t0))
      in if 10000000 \<le> units then (True, Some (units - 10000000, now)) else (False, Some (units, now)))"
  by (simp_all add: bucket_pkg_def Let_def)

lemma bucket_refills: "refills bucket_pkg cleanupAge"
  unfolding refills_def
proof (intro allI impI)
  fix t l and now :: time
  assume "t + cleanupAge < now"
  then have full: "min 200000000 (u + nat (now - t)) = 200000000" for u
    by (simp add: cleanupAge_def Minute_def Second_def)
  have "\<exists>u. snd (Allow bucket_pkg t l) = Some (u, t)"
    by (cases l) (auto simp: bucket_Allow Let_def)
  then obtain u where "snd (Allow bucket_pkg t l) = Some (u, t)" by blast
  then show "Allow bucket_pkg now (snd (Allow bucket_pkg t l)) =
      Allow bucket_pkg now (NewLimiter bucket_pkg rateLimit burstLimit)"
    by (simp add: bucket_Allow full) (simp add: bucket_pkg_def)
qed

lemma bucket_burst:
  "k \<le> 20 \<Longrightarrow> alone bucket_pkg ip (replicate n (Request 0 ip)) (Some (Some (k * 10000000, 0))) =
    replicate (min n k) True @ replicate (n - k) False"
proof (induction n arbitrary: k)
  case (Suc n)
  show ?case
  proof (cases k)
    case 0
    then show ?thesis using Suc.IH [of 0] by (simp add: bucket_Allow)
  next
    case (Suc j)
    have "min 200000000 (Suc j * 10000000) = Suc j * 10000000" using Suc Suc.prems by simp
    then have "Allow bucket_pkg 0 (Some (k * 10000000, 0)) = (True, Some (j * 10000000, 0))"
      using Suc by (simp add: bucket_Allow)
    then show ?thesis using Suc.IH [of j] Suc Suc.prems by simp
  qed
qed simp

theorem rate_limit_per_address_witness:
  "answers_for ''a'' (Request 0 ''b'' # replicate 21 (Request 0 ''a''))
      (serve bucket_pkg (Request 0 ''b'' # replicate 21 (Request 0 ''a'')) NewRateLimiter)
    = replicate 20 True @ [False]"
proof -
  let ?vs = "Request 0 ''b'' # replicate 21 (Request 0 ''a'')"
  have "sorted (map visit_time ?vs)" by simp
  note rate_limit_per_address [OF bucket_refills this, of "''a''"]
  also have "alone bucket_pkg ''a'' ?vs None = replicate 20 True @ [False]"
  proof -
    have n: "NewLimiter bucket_pkg rateLimit burstLimit = None" by (simp add: bucket_pkg_def)
    have r: "replicate 21 (Request 0 ''a'') = Request 0 ''a'' # replicate 20 (Request 0 ''a'')"
      by (simp add: numeral_eq_Suc)
    have "alone bucket_pkg ''a'' (replicate 20 (Request 0 ''a'')) (Some (Some (190000000, 0))) = replicate 19 True @ [False]"
      using bucket_burst [of 19 "''a''" 20] by simp
    moreover have "replicate 20 True = True # replicate 19 True" by (simp add: numeral_eq_Suc)
    ultimately show ?thesis unfolding r by (simp add: n bucket_Allow)
  qed
  finally show ?thesis .
qed

end
