(* ===== verification/Configuration.thy ===== *)
theory Configuration
  imports Entities Go_Json
begin

text \<open>
  The settings of the service and what is computed from them: \<open>internal/infrastructure/conf\<close>
  (\<open>config.go\<close>, \<open>db_config.go\<close>, \<open>kafkaconf/factory.go\<close>, \<open>database/postgres.go\<close>) and the
  CORS filter of \<open>main.go\<close>. Reading the environment is the work of a library; here a
  \<open>Config\<close> is given.
\<close>

section \<open>Settings\<close>

record Config =
  Port :: string
  Env :: string
  ListKafkaBrokers :: string
  ConsumeGroup :: string
  HttpClientTimeout :: int
  ConsumerTopic :: string
  ProducerTopic :: string
  cf_WebhookEnabled :: bool
  cf_WebhookUrl :: string
  AllowedCorsSuffixes :: string
  TelegramEnabled :: bool
  TelegramBotToken :: string
  TelegramChatID :: string

text \<open>The defaults the tags name, for the settings that have one.\<close>

definition envDefaults :: "Config \<Rightarrow> Config" where
  "envDefaults cfg = cfg\<lparr>Port := ''9000'', Env := ''dev'', HttpClientTimeout := 30,
     ConsumerTopic := ''events.default'', ProducerTopic := ''events.output'', cf_WebhookEnabled := False,
     AllowedCorsSuffixes := ''.JDC.io'', TelegramEnabled := False\<rparr>"

section \<open>Logging a setting\<close>

text \<open>The types of the settings: what \<open>value interface{}\<close> holds.\<close>

datatype setting = VString string | VInt int | VBool bool

fun format_v :: "setting \<Rightarrow> string" where
  "format_v (VString s) = s"
| "format_v (VInt i) = int_digits i"
| "format_v (VBool b) = (if b then ''true'' else ''false'')"

definition secret_tag :: "string \<Rightarrow> bool" where
  "secret_tag tag \<longleftrightarrow> Contains tag ''SECRET'' \<or> Contains tag ''PASSWORD'' \<or> Contains tag ''API_KEY''
     \<or> Contains tag ''TOKEN''"

text \<open>
  \<open>len(s)\<close> counts bytes, the slices count runes. \<open>strings.Repeat\<close> panics (\<^const>\<open>None\<close>)
  when its count is negative.
\<close>

definition mask_runes :: "string list \<Rightarrow> string option" where
  "mask_runes rs =
     (if length rs < 4 then None
      else Some (concat (take 2 rs) @ replicate (length rs - 4) (CHR ''*'') @ concat (drop (length rs - 2) rs)))"

definition OnSetConfig :: "string \<Rightarrow> setting \<Rightarrow> bool \<Rightarrow> string option" where
  "OnSetConfig tag val isDefault =
     (let v = (case val of
                 VString s \<Rightarrow>
                   (if secret_tag tag \<and> length s > 4 then map_option VString (mask_runes (runes s)) else Some val)
               | _ \<Rightarrow> Some val)
      in map_option (\<lambda>x. tag @ ''='' @ format_v x @ (if isDefault then '' (default)'' else [])) v)"

section \<open>The URI of the database\<close>

record DBSettings =
  DbHost :: string
  DbName :: string
  DbPassword :: string
  DbPort :: string
  DbUser :: string
  DbMaxIdleConns :: int
  DbMaxOpenConns :: int
  DbConnMaxLifetime :: int
  DbConnMaxIdleTime :: int
  DbSchema :: string

definition alnum :: "char \<Rightarrow> bool" where
  "alnum c \<longleftrightarrow> byte_in 48 57 c \<or> byte_in 65 90 c \<or> byte_in 97 122 c"

text \<open>\<open>url.PathEscape\<close>: the bytes \<open>shouldEscape\<close> leaves alone in a path segment.\<close>

definition segment_char :: "char \<Rightarrow> bool" where
  "segment_char c \<longleftrightarrow> alnum c \<or> c \<in> set ''-_.~$&+:=@''"

definition upper_hex :: "nat \<Rightarrow> char" where
  "upper_hex n = (if n < 10 then char_of (48 + n) else char_of (55 + n))"

definition escape_byte :: "char \<Rightarrow> string" where
  "escape_byte c =
     (if segment_char c then [c] else [CHR ''%'', upper_hex (of_char c div 16), upper_hex (of_char c mod 16)])"

definition PathEscape :: "string \<Rightarrow> string" where
  "PathEscape s = concat (map escape_byte s)"

definition DBUriPsql :: "DBSettings \<Rightarrow> string" where
  "DBUriPsql s =
     ''postgres://'' @ DbUser s @ '':'' @ PathEscape (DbPassword s) @ ''@'' @ DbHost s @ '':'' @ DbPort s
     @ ''/'' @ DbName s @ ''?search_path='' @ DbSchema s @ ''&sslmode=disable''"

text \<open>
  What the driver reads back: \<open>url.Parse\<close> cuts the fragment and the query off, takes the
  authority up to the next slash, and the user information up to its last \<open>@\<close>.
\<close>

fun unescape_percent :: "string \<Rightarrow> string option" where
  "unescape_percent (c # a # b # s) =
     (if c = CHR ''%''
      then (case (hex_val a, hex_val b) of
              (Some x, Some y) \<Rightarrow> map_option ((#) (char_of (x * 16 + y))) (unescape_percent s)
            | _ \<Rightarrow> None)
      else map_option ((#) c) (unescape_percent (a # b # s)))"
| "unescape_percent s = (if CHR ''%'' \<in> set s then None else Some s)"

definition before :: "char \<Rightarrow> string \<Rightarrow> string" where
  "before x s = takeWhile (\<lambda>c. c \<noteq> x) s"

definition after :: "char \<Rightarrow> string \<Rightarrow> string" where
  "after x s = tl (dropWhile (\<lambda>c. c \<noteq> x) s)"

definition userinfo_char :: "char \<Rightarrow> bool" where
  "userinfo_char c \<longleftrightarrow> alnum c \<or> c \<in> set ''-._:~!$&()*+,;=%@'' \<or> c = CHR 0x27"

definition url_userinfo :: "string \<Rightarrow> (string \<times> string) option" where
  "url_userinfo uri =
     (let rest = before (CHR ''?'') (before (CHR ''#'') uri);
          authority = before (CHR ''/'') (drop (length ''postgres://'') rest);
          userinfo = rev (after (CHR ''@'') (rev authority))
      in if \<not> HasPrefix rest ''postgres://'' \<or> CHR ''@'' \<notin> set authority \<or> \<not> list_all userinfo_char userinfo
         then None
         else case (unescape_percent (before (CHR '':'') userinfo), unescape_percent (after (CHR '':'') userinfo)) of
                (Some u, Some p) \<Rightarrow> Some (u, p)
              | _ \<Rightarrow> None)"

section \<open>Kafka\<close>

record KafkaFactory =
  brokerList :: string
  autoOffset :: string

definition NewKafkaFactory :: "string list \<Rightarrow> string \<Rightarrow> KafkaFactory" where
  "NewKafkaFactory brokers offset = \<lparr>brokerList = Join brokers '','', autoOffset = offset\<rparr>"

datatype kafka_value = KString string | KInt int | KBool bool

definition producer_config :: "KafkaFactory \<Rightarrow> (string \<times> kafka_value) list" where
  "producer_config kf = [(''bootstrap.servers'', KString (brokerList kf)), (''retries'', KInt 1),
     (''socket.timeout.ms'', KInt 5000)]"

definition consumer_config :: "KafkaFactory \<Rightarrow> string \<Rightarrow> (string \<times> kafka_value) list" where
  "consumer_config kf groupID = [(''bootstrap.servers'', KString (brokerList kf)), (''group.id'', KString groupID),
     (''auto.offset.reset'', KString (autoOffset kf)), (''session.timeout.ms'', KInt 10000),
     (''heartbeat.interval.ms'', KInt 3000), (''enable.auto.commit'', KBool False),
     (''max.poll.interval.ms'', KInt 300000)]"

section \<open>Allowed origins\<close>

text \<open>\<open>strings.TrimSpace\<close>, by runes.\<close>

definition space_rune :: "string \<Rightarrow> bool" where
  "space_rune r \<longleftrightarrow> (case r of [c] \<Rightarrow> byte_in 9 13 c \<or> c = CHR '' '' | _ \<Rightarrow>
     r \<in> set (map encode_rune ([0x85, 0xA0, 0x1680] @ [0x2000..<0x200B] @ [0x2028, 0x2029, 0x202F, 0x205F, 0x3000])))"

definition TrimSpace :: "string \<Rightarrow> string" where
  "TrimSpace s = concat (rev (dropWhile space_rune (rev (dropWhile space_rune (chunks s)))))"

definition allowedSuffixes :: "Config \<Rightarrow> string list" where
  "allowedSuffixes cfg =
     filter (\<lambda>x. x \<noteq> []) (map TrimSpace (Split (AllowedCorsSuffixes cfg) (CHR '','')))"

definition AllowOriginFunc :: "string list \<Rightarrow> string \<Rightarrow> bool" where
  "AllowOriginFunc suffixes origin \<longleftrightarrow>
     HasPrefix origin ''http://localhost:'' \<or> list_ex (HasSuffix origin) suffixes"

section \<open>The database\<close>

text \<open>\<open>SetupDatabasePsql\<close>: what is opened, and the pool; a product of durations wraps.\<close>

record db_pool =
  MaxIdleConns :: int
  MaxOpenConns :: int
  ConnMaxLifetime :: duration
  ConnMaxIdleTime :: duration

definition minutes :: "int \<Rightarrow> duration" where
  "minutes n = sint (word_of_int (Minute * n) :: 64 word)"

definition SetupDatabasePsql ::
  "goerr + DBSettings \<Rightarrow> (string \<Rightarrow> goerr option) \<Rightarrow> goerr option \<Rightarrow> goerr + string \<times> db_pool" where
  "SetupDatabasePsql loaded open_db sql_db =
     (case loaded of
        Inl err \<Rightarrow> Inl err
      | Inr s \<Rightarrow>
          (case open_db (DBUriPsql s) of
             Some err \<Rightarrow> Inl (Errorf_w ''unable to connect to database'' err)
           | None \<Rightarrow>
               (case sql_db of
                  Some err \<Rightarrow> Inl (Errorf_w ''unable to get underlying sql.DB'' err)
                | None \<Rightarrow>
                    Inr (DBUriPsql s,
                         \<lparr>MaxIdleConns = DbMaxIdleConns s, MaxOpenConns = DbMaxOpenConns s,
                          ConnMaxLifetime = minutes (DbConnMaxLifetime s),
                          ConnMaxIdleTime = minutes (DbConnMaxIdleTime s)\<rparr>))))"

text \<open>
  A directory is the list of its path's names, the last one first; \<open>filepath.Dir\<close> of the root is
  the root.
\<close>

datatype stat_result = Exists_file | NotExist | StatError

definition dir_path :: "string list \<Rightarrow> string" where
  "dir_path d = (if d = [] then ''/'' else concat (map (\<lambda>n. CHR ''/'' # n) (rev d)))"

fun findRoot_from :: "(string \<Rightarrow> stat_result) \<Rightarrow> string list \<Rightarrow> goerr + string list" where
  "findRoot_from stat [] =
     (if stat (dir_path [''go.mod'']) = Exists_file then Inr []
      else Inl (TextError ''go.mod not found, cannot determine project root''))"
| "findRoot_from stat (n # d) =
     (if stat (dir_path (''go.mod'' # n # d)) = Exists_file then Inr (n # d) else findRoot_from stat d)"

definition findProjectRoot ::
  "(string \<Rightarrow> stat_result) \<Rightarrow> goerr + string list \<Rightarrow> goerr + string list" where
  "findProjectRoot stat getwd = (case getwd of Inl err \<Rightarrow> Inl err | Inr d \<Rightarrow> findRoot_from stat d)"

text \<open>The result and the directory \<open>goose.Up\<close> was run on.\<close>

definition PerformMigrations ::
  "(string \<Rightarrow> stat_result) \<Rightarrow> goerr + string list \<Rightarrow> goerr option \<Rightarrow> goerr option \<Rightarrow> (string \<Rightarrow> goerr option)
   \<Rightarrow> goerr option \<times> string option" where
  "PerformMigrations stat getwd sql_db dialect up =
     (let possiblePaths = [''./migrations'', ''../migrations'', ''../../migrations'', ''../../../migrations'',
            ''../../../../migrations'']
            @ (case findProjectRoot stat getwd of Inr d \<Rightarrow> [dir_path (''migrations'' # d)] | Inl err \<Rightarrow> [])
      in case List.find (\<lambda>p. stat p \<noteq> NotExist) possiblePaths of
           None \<Rightarrow> (None, None)
         | Some migrationsDir \<Rightarrow>
             (case sql_db of
                Some err \<Rightarrow> (Some (Errorf_w ''error accessing underlying database connection'' err), None)
              | None \<Rightarrow>
                  (case dialect of
                     Some err \<Rightarrow> (Some (Errorf_w ''error setting dialect for goose'' err), None)
                   | None \<Rightarrow>
                       (case up migrationsDir of
                          Some err \<Rightarrow>
                            (Some (WrapError (''error running migrations: '' @ Error err @ '' in directory '' @ migrationsDir) err),
                             Some migrationsDir)
                        | None \<Rightarrow> (None, Some migrationsDir)))))"

text \<open>
  Seeding. \<open>exec\<close> is the effect of a script on the table; gorm counts the rows that are not
  deleted.
\<close>

definition seedData ::
  "(string \<Rightarrow> goerr + string) \<Rightarrow> (string \<Rightarrow> EnergyPlantsModel list \<Rightarrow> goerr + EnergyPlantsModel list)
   \<Rightarrow> string \<Rightarrow> string \<Rightarrow> EnergyPlantsModel list \<Rightarrow> goerr option \<times> EnergyPlantsModel list" where
  "seedData readFile exec directory name tbl =
     (case readFile (directory @ ''/'' @ name @ ''.sql'') of
        Inl err \<Rightarrow> (Some err, tbl)
      | Inr sql \<Rightarrow> (case exec sql tbl of Inl err \<Rightarrow> (Some err, tbl) | Inr tbl' \<Rightarrow> (None, tbl')))"

definition SeedDB ::
  "goerr option \<Rightarrow> (string \<Rightarrow> goerr + string) \<Rightarrow> (string \<Rightarrow> EnergyPlantsModel list \<Rightarrow> goerr + EnergyPlantsModel list)
   \<Rightarrow> string \<Rightarrow> EnergyPlantsModel list \<Rightarrow> goerr option \<times> EnergyPlantsModel list" where
  "SeedDB count_fault readFile exec directory tbl =
     (case count_fault of
        Some err \<Rightarrow> (Some (Errorf_w ''failed to count energy_plants records'' err), tbl)
      | None \<Rightarrow>
          (if filter (\<lambda>m. epm_DeletedAt m = None) tbl = []
           then seedData readFile exec directory ''energy_plants'' tbl
           else (None, tbl)))"

section \<open>Escaping can be undone\<close>

lemma hex_val_upper: "n < 16 \<Longrightarrow> hex_val (upper_hex n) = Some n"
  by (auto simp: hex_val_def upper_hex_def byte_in_def)

lemma of_char_less: "(of_char c :: nat) < 256"
  by (metis mod_less_divisor of_char_mod_256 zero_less_numeral)

lemma nibbles [simp]: "(of_char c :: nat) div 16 < 16" "(of_char c :: nat) mod 16 < 16"
  using of_char_less [of c] by (simp_all add: less_mult_imp_div_less)

lemma unescape_plain:
  "c \<noteq> CHR ''%'' \<Longrightarrow> unescape_percent (c # s) = map_option ((#) c) (unescape_percent s)"
  by (cases s; cases "tl s") auto

lemma unescape_escape_byte:
  "unescape_percent (escape_byte c @ s) = map_option ((#) c) (unescape_percent s)"
proof (cases "segment_char c")
  case True
  moreover from True have "c \<noteq> CHR ''%''" by (auto simp: segment_char_def alnum_def byte_in_def)
  ultimately show ?thesis by (simp add: escape_byte_def unescape_plain)
next
  case False
  have "char_of ((of_char c div 16 :: nat) * 16 + of_char c mod 16) = c" by simp
  then show ?thesis
    using False by (simp add: escape_byte_def hex_val_upper)
qed

lemma unescape_PathEscape: "unescape_percent (PathEscape s) = Some s"
  by (induction s) (simp_all add: PathEscape_def unescape_escape_byte)

lemma upper_hex_alnum: "n < 16 \<Longrightarrow> alnum (upper_hex n)"
  by (auto simp: upper_hex_def alnum_def byte_in_def)

lemma PathEscape_chars: "c \<in> set (PathEscape s) \<Longrightarrow> segment_char c \<or> c = CHR ''%''"
proof -
  assume "c \<in> set (PathEscape s)"
  then obtain d where "c \<in> set (escape_byte d)" by (auto simp: PathEscape_def)
  then show ?thesis
    using upper_hex_alnum [of "of_char d div 16"] upper_hex_alnum [of "of_char d mod 16"]
    by (auto simp: escape_byte_def segment_char_def split: if_splits)
qed

lemma unescape_free: "CHR ''%'' \<notin> set s \<Longrightarrow> unescape_percent s = Some s"
  by (induction s) (auto simp: unescape_plain)

lemma before_append: "x \<notin> set a \<Longrightarrow> before x (a @ b) = a @ before x b"
  by (auto simp: before_def takeWhile_append)

lemma before_here [simp]: "before x (x # b) = []" by (simp add: before_def)

lemma before_there: "c \<noteq> x \<Longrightarrow> before x (c # b) = c # before x b" by (simp add: before_def)

lemma after_append: "x \<notin> set a \<Longrightarrow> after x (a @ x # b) = b"
  by (auto simp: after_def dropWhile_append)

section \<open>The user information\<close>

text \<open>A user name that needs no escaping, and a host or port that ends where the URI says.\<close>

definition plain_user :: "string \<Rightarrow> bool" where
  "plain_user u \<longleftrightarrow> list_all (\<lambda>c. alnum c \<or> c \<in> set ''-._~'') u"

definition host_char :: "char \<Rightarrow> bool" where
  "host_char c \<longleftrightarrow> c \<notin> set ''@/?#''"

lemma plain_user_char:
  assumes "plain_user u" "c \<in> set u"
  shows "userinfo_char c \<and> c \<notin> set ''%:@/?#''"
  using assms by (auto simp: plain_user_def list_all_iff userinfo_char_def alnum_def byte_in_def)

lemma escaped_char:
  assumes "c \<in> set (PathEscape p)"
  shows "userinfo_char c \<and> c \<notin> set ''/?#''"
  using PathEscape_chars [OF assms]
  by (auto simp: segment_char_def userinfo_char_def alnum_def byte_in_def)

lemma authority_of_uri:
  assumes "plain_user (DbUser s)" "list_all host_char (DbHost s @ DbPort s)"
  shows "\<exists>q. before (CHR ''?'') (before (CHR ''#'') (DBUriPsql s)) = ''postgres://''
    @ DbUser s @ '':'' @ PathEscape (DbPassword s) @ ''@'' @ DbHost s @ '':'' @ DbPort s @ CHR ''/'' # q"
proof -
  let ?a = "''postgres://'' @ DbUser s @ '':'' @ PathEscape (DbPassword s) @ ''@'' @ DbHost s @ '':'' @ DbPort s @ ''/''"
  have free: "CHR ''#'' \<notin> set ?a" "CHR ''?'' \<notin> set ?a"
    using plain_user_char [OF assms(1)] escaped_char [of _ "DbPassword s"] assms(2)
    by (auto simp: list_all_iff host_char_def)
  have u: "DBUriPsql s = ?a @ (DbName s @ ''?search_path='' @ DbSchema s @ ''&sslmode=disable'')"
    by (simp add: DBUriPsql_def)
  show ?thesis unfolding u before_append [OF free(1)] before_append [OF free(2)] by simp
qed

section \<open>Properties\<close>

text \<open>
  C39. The password survives the URI: whatever bytes it holds, a reader of the URI that splits
  it as \<open>net/url\<close> does gets the user and the password back. The user name is not escaped, so
  it has to be made of unreserved characters, and host and port are plain.
\<close>

theorem db_uri_round_trip:
  assumes "plain_user (DbUser s)" "list_all host_char (DbHost s @ DbPort s)"
  shows "url_userinfo (DBUriPsql s) = Some (DbUser s, DbPassword s)"
proof -
  let ?info = "DbUser s @ '':'' @ PathEscape (DbPassword s)"
  let ?auth = "?info @ CHR ''@'' # DbHost s @ '':'' @ DbPort s"
  obtain q where q: "before (CHR ''?'') (before (CHR ''#'') (DBUriPsql s)) = ''postgres://'' @ ?auth @ CHR ''/'' # q"
    using authority_of_uri [OF assms] by auto
  have "CHR ''/'' \<notin> set ?auth"
    using plain_user_char [OF assms(1)] escaped_char [of _ "DbPassword s"] assms(2)
    by (auto simp: list_all_iff host_char_def)
  then have a: "before (CHR ''/'') (drop (length ''postgres://'') (''postgres://'' @ ?auth @ CHR ''/'' # q)) = ?auth"
    by (simp add: before_append [where a = ?auth, simplified])
  have r: "rev ?auth = rev (DbHost s @ '':'' @ DbPort s) @ CHR ''@'' # rev ?info" by simp
  have "CHR ''@'' \<notin> set (rev (DbHost s @ '':'' @ DbPort s))"
    using assms(2) by (auto simp: list_all_iff host_char_def)
  from after_append [OF this, of "rev ?info"] have i: "rev (after (CHR ''@'') (rev ?auth)) = ?info"
    unfolding r by (simp only: rev_rev_ident)
  have c: "CHR '':'' \<notin> set (DbUser s)" "CHR ''%'' \<notin> set (DbUser s)" using plain_user_char [OF assms(1)] by auto
  have "userinfo_char (CHR '':'')" by (simp add: userinfo_char_def)
  then have v: "list_all userinfo_char ?info"
    using plain_user_char [OF assms(1)] escaped_char [of _ "DbPassword s"] by (simp add: list_all_iff ball_Un)
  have b: "before (CHR '':'') ?info = DbUser s" "after (CHR '':'') ?info = PathEscape (DbPassword s)"
    using c(1) by (simp_all add: before_append after_append)
  show ?thesis
    unfolding url_userinfo_def Let_def q a i b unescape_PathEscape unescape_free [OF c(2)]
    using v by (simp add: HasPrefix_def)
qed

definition example_db :: DBSettings where
  "example_db = \<lparr>DbHost = ''db'', DbName = ''energy'', DbPassword = ''p@ss/w:rd?'', DbPort = ''5432'',
     DbUser = ''app'', DbMaxIdleConns = 50, DbMaxOpenConns = 50, DbConnMaxLifetime = 5, DbConnMaxIdleTime = 15,
     DbSchema = ''public''\<rparr>"

theorem db_uri_round_trip_witness:
  "url_userinfo (DBUriPsql example_db) = Some (''app'', ''p@ss/w:rd?'')"
  using db_uri_round_trip [of example_db]
  by (simp add: example_db_def plain_user_def host_char_def alnum_def byte_in_def)

text \<open>
  What the log tells of a secret setting of more than four bytes: two values with the same
  number of runes, the same two first and the same two last ones give the same line. With fewer
  than four runes there is no line: the program panics.
\<close>

theorem masked_setting_hides_secret:
  assumes "secret_tag tag" "length s > 4" "length s' > 4" "length (runes s) = length (runes s')"
    "take 2 (runes s) = take 2 (runes s')"
    "drop (length (runes s) - 2) (runes s) = drop (length (runes s) - 2) (runes s')"
  shows "OnSetConfig tag (VString s) d = OnSetConfig tag (VString s') d
    \<and> (OnSetConfig tag (VString s) d = None \<longleftrightarrow> length (runes s) < 4)"
  using assms by (simp add: OnSetConfig_def mask_runes_def)

theorem masked_setting_hides_secret_witness:
  "OnSetConfig ''DATABASE_PASSWORD'' (VString [CHR 0xC3, CHR 0xA9, CHR 0xC3, CHR 0xA9, CHR 0xC3, CHR 0xA9]) False = None
    \<and> OnSetConfig ''DATABASE_PASSWORD'' (VString ''abcdef'') False = OnSetConfig ''DATABASE_PASSWORD'' (VString ''abXYef'') False"
proof -
  let ?e = "[CHR 0xC3, CHR 0xA9]"
  have t: "secret_tag ''DATABASE_PASSWORD''" by code_simp
  have r: "runes (?e @ ?e @ ?e) = [?e, ?e, ?e]" "runes ''abcdef'' = map (\<lambda>c. [c]) ''abcdef''"
    "runes ''abXYef'' = map (\<lambda>c. [c]) ''abXYef''"
    by code_simp+
  have "OnSetConfig ''DATABASE_PASSWORD'' (VString (?e @ ?e @ ?e)) False = None"
    using masked_setting_hides_secret [OF t, of "?e @ ?e @ ?e" "?e @ ?e @ ?e" False] unfolding r by simp
  moreover have "OnSetConfig ''DATABASE_PASSWORD'' (VString ''abcdef'') False
      = OnSetConfig ''DATABASE_PASSWORD'' (VString ''abXYef'') False"
    using masked_setting_hides_secret [OF t, of "''abcdef''" "''abXYef''" False] unfolding r by simp
  ultimately show ?thesis by simp
qed

text \<open>
  With the default suffix the CORS filter lets no origin through but those of localhost: a
  browser sends its origin in lower case, and the suffix \<open>.JDC.io\<close> is compared as it is.
\<close>

theorem default_cors_is_localhost_only:
  assumes "list_all (\<lambda>c. \<not> byte_in 65 90 c) origin"
  shows "AllowOriginFunc (allowedSuffixes (envDefaults cfg)) origin \<longleftrightarrow> HasPrefix origin ''http://localhost:''"
proof -
  have "chunks ''.JDC.io'' = map (\<lambda>c. [c]) ''.JDC.io''" by code_simp
  then have "TrimSpace ''.JDC.io'' = ''.JDC.io''" "Split ''.JDC.io'' (CHR '','') = [''.JDC.io'']"
    by (simp_all add: TrimSpace_def space_rune_def byte_in_def)
  then have s: "allowedSuffixes (envDefaults cfg) = [''.JDC.io'']"
    by (simp add: allowedSuffixes_def envDefaults_def)
  have "\<not> HasSuffix origin ''.JDC.io''"
  proof
    assume "HasSuffix origin ''.JDC.io''"
    then have "CHR ''J'' \<in> set origin" by (auto simp: HasSuffix_iff)
    then show False using assms by (auto simp: list_all_iff byte_in_def)
  qed
  then show ?thesis by (simp add: s AllowOriginFunc_def)
qed

theorem default_cors_is_localhost_only_witness:
  "\<not> AllowOriginFunc (allowedSuffixes (envDefaults cfg)) ''https://app.jdc.io''"
  using default_cors_is_localhost_only [of "''https://app.jdc.io''" cfg]
  by (simp add: byte_in_def HasPrefix_def)

text \<open>The brokers of the setting reach the client as they were written.\<close>

lemma broker_list_unchanged: "brokerList (NewKafkaFactory (Split s (CHR '','')) off) = s"
  by (simp add: NewKafkaFactory_def Join_Split)

text \<open>The project's root is the nearest directory upwards with a \<open>go.mod\<close>.\<close>

lemma findRoot_nearest:
  "findRoot_from stat d = Inr r \<Longrightarrow>
    \<exists>k\<le>length d. r = drop k d \<and> stat (dir_path (''go.mod'' # r)) = Exists_file
      \<and> (\<forall>j<k. stat (dir_path (''go.mod'' # drop j d)) \<noteq> Exists_file)"
proof (induction d)
  case (Cons n d)
  show ?case
  proof (cases "stat (dir_path (''go.mod'' # n # d)) = Exists_file")
    case True
    then show ?thesis using Cons.prems by (intro exI [of _ 0]) auto
  next
    case False
    then obtain k where "k \<le> length d" "r = drop k d" "stat (dir_path (''go.mod'' # r)) = Exists_file"
      "\<forall>j<k. stat (dir_path (''go.mod'' # drop j d)) \<noteq> Exists_file"
      using Cons by auto
    then show ?thesis using False by (intro exI [of _ "Suc k"]) (auto simp: drop_Cons split: nat.split)
  qed
qed (auto split: if_splits)

end
