(* ===== verification/Container.thy ===== *)
theory Container
  imports Ingestion_Stores Analytics_Coordinator Rest_Handlers Configuration
begin

text \<open>
  The wiring of the service, \<open>internal/infrastructure/container/container.go\<close>, its shutdown, and
  the health check of \<open>main.go\<close>. The consumer's shared state is the \<open>stores\<close> record, so the
  writer, the plant cache, the status table, the alert rules and the notifier are found there;
  the container adds the coordinator and what is closed at the end. Of the coordinator's tables the
  statistics and the queue count; the events and plants its jobs read are those of the stores.
\<close>

section \<open>Wiring\<close>

record ('c, 'b, 'w) Container =
  cfg :: Config
  kafka :: "'c stores KafkaService"
  coordinator :: "('b, 'w) AnalyticsCoordinator"
  kafkaClosed :: bool
  dbClosed :: bool

text \<open>The database as the service finds it, and the answers of the constructors it calls.\<close>

record ('c, 'b, 'w) start =
  s_operational :: "EventOperationalModel list"
  s_analytical :: "EventAnalyticalModel list"
  s_plants :: "EnergyPlantsModel list"
  s_status :: "PlantCurrentStatusModel list"
  s_analytics :: analytics_db
  s_locks :: "(int \<times> nat) list"
  s_rules :: "goerr + AlertRule list"
  s_kafka :: "goerr option"
  s_cache :: "'c option"
  s_web :: "'b \<times> 'w"

definition coordinator_config :: "Config \<Rightarrow> AnalyticsCoordinatorConfig" where
  "coordinator_config conf =
     \<lparr>AggregatorInterval = 0, DispatcherInterval = 0, LookbackWindow = 0, MaxWebhookAttempts = 0,
      WebhookBatchSize = 0, WebhookURL = cf_WebhookUrl conf, WebhookEnabled = cf_WebhookEnabled conf\<rparr>"

definition NewContainer ::
  "libs \<Rightarrow> (clock \<Rightarrow> 'c store_env) \<Rightarrow> Config \<Rightarrow> ('c, 'b, 'w) start \<Rightarrow> goerr + ('c, 'b, 'w) Container" where
  "NewContainer L E conf s =
     (case s_kafka s of
        Some err \<Rightarrow> Inl err
      | None \<Rightarrow>
          (let w = NewDualEventWriterWithConfig 2 2 True (s_operational s) (s_analytical s);
               n = NewNotifier (TelegramBotToken conf) (TelegramChatID conf) (TelegramEnabled conf);
               st = \<lparr>world = \<lparr>st_writer = w, st_plants = s_plants s, st_cache = s_cache s,
                              st_status = s_status s, st_alerts = NewAlertEvaluationService (s_rules s)\<rparr>,
                     notifier = n, metrics = []\<rparr>
           in Inr \<lparr>cfg = conf,
                   kafka = RegisterHandler (ConsumerTopic conf) (intake_handler L E) (NewKafkaService st),
                   coordinator = NewAnalyticsCoordinator (s_analytics s) (s_locks s) (s_web s)
                     (coordinator_config conf),
                   kafkaClosed = False, dbClosed = False\<rparr>))"

definition WithConfig :: "Config \<Rightarrow> ('c, 'b, 'w) Container \<Rightarrow> ('c, 'b, 'w) Container" where
  "WithConfig conf c = c\<lparr>cfg := conf\<rparr>"

definition GetConfig :: "('c, 'b, 'w) Container \<Rightarrow> Config" where
  "GetConfig c = cfg c"

definition Ping :: "goerr option \<Rightarrow> goerr option \<Rightarrow> goerr option" where
  "Ping sql_db ping = (case sql_db of Some err \<Rightarrow> Some err | None \<Rightarrow> ping)"

text \<open>\<open>HealthCheck\<close> of \<open>main.go\<close>: the status and the body.\<close>

definition HealthCheck :: "goerr option \<Rightarrow> goerr option \<Rightarrow> ('c, 'b, 'w) Container \<Rightarrow> int \<times> string" where
  "HealthCheck sql_db ping c =
     (if \<not> IsConsumerHealthy (kafka c) then (503, ''kafka consumer unhealthy'')
      else if Ping sql_db ping \<noteq> None then (503, ''database unreachable'')
      else (200, []))"

section \<open>Shutdown\<close>

definition on_writer :: "(DualEventWriter \<Rightarrow> DualEventWriter) \<Rightarrow> 'c stores ingest \<Rightarrow> 'c stores ingest" where
  "on_writer f st = st\<lparr>world := (world st)\<lparr>st_writer := f (st_writer (world st))\<rparr>\<rparr>"

text \<open>
  The steps of \<open>Shutdown\<close> up to the wait for the writer's workers, and those after it up to the
  wait for the notifier's worker. \<^const>\<open>None\<close> is a channel closed twice.
\<close>

definition Shutdown_begin :: "('c, 'b, 'w) Container \<Rightarrow> ('c, 'b, 'w) Container option" where
  "Shutdown_begin c =
     (let c = c\<lparr>kafka := StopConsuming (kafka c), kafkaClosed := True,
                coordinator := Stop_coordinator (coordinator c)\<rparr>;
          ks = kafka c
      in case Stop_close (Stop_flag (st_writer (world (app ks)))) of
           None \<Rightarrow> None
         | Some w \<Rightarrow> Some (c\<lparr>kafka := ks\<lparr>app := on_writer (\<lambda>_. w) (app ks)\<rparr>\<rparr>))"

definition Shutdown_rest :: "('c, 'b, 'w) Container \<Rightarrow> ('c, 'b, 'w) Container option" where
  "Shutdown_rest c =
     (let ks = kafka c; st = app ks; n = notifier st
      in case Stop_alerts (st_alerts (world st)) of
           None \<Rightarrow> None
         | Some al \<Rightarrow>
             Some (c\<lparr>kafka := ks\<lparr>app := st\<lparr>world := (world st)\<lparr>st_alerts := al\<rparr>,
                                         notifier := n\<lparr>n_stopped := True, n_closed := True, n_phase := Closed\<rparr>\<rparr>\<rparr>\<rparr>))"

definition Shutdown_end :: "goerr option \<Rightarrow> ('c, 'b, 'w) Container \<Rightarrow> ('c, 'b, 'w) Container" where
  "Shutdown_end sql_db c = (case sql_db of Some err \<Rightarrow> c | None \<Rightarrow> c\<lparr>dbClosed := True\<rparr>)"

section \<open>What runs beside the consumer\<close>

text \<open>
  The goroutines of the container and the other users of the database: turns of the writer's
  workers and steps of its \<open>Stop\<close>, turns of the notifier's worker, reloads of the rules, new
  plants. (\<open>CallCheck\<close> and \<open>CallSend\<close> are other callers of the writer, which the container has none of.)
\<close>

datatype background = WriterTurn action | NotifierTurn "string \<Rightarrow> bytes \<Rightarrow> goerr + (goerr + bool \<times> string)"
  | Reload "goerr + AlertRule list" | NewPlant EnergyPlantsModel

fun own_turn :: "background \<Rightarrow> bool" where
  "own_turn (WriterTurn (CallCheck op an)) \<longleftrightarrow> False"
| "own_turn (WriterTurn CallSend) \<longleftrightarrow> False"
| "own_turn _ \<longleftrightarrow> True"

fun background_work :: "background \<Rightarrow> 'c stores ingest \<Rightarrow> 'c stores ingest" where
  "background_work (WriterTurn a) st =
     (case act a (st_writer (world st)) of None \<Rightarrow> st | Some w \<Rightarrow> on_writer (\<lambda>_. w) st)"
| "background_work (NotifierTurn post) st =
     (if n_workerDone (notifier st) then st else st\<lparr>notifier := snd (worker_turn post (notifier st))\<rparr>)"
| "background_work (Reload found) st =
     (case reload_turn found (st_alerts (world st)) of
        None \<Rightarrow> st
      | Some al \<Rightarrow> st\<lparr>world := (world st)\<lparr>st_alerts := al\<rparr>\<rparr>)"
| "background_work (NewPlant p) st = add_plant p st"

section \<open>Handlers that account for what they accept\<close>

text \<open>The calls of a handler that returned without an error.\<close>

fun accepted_call :: "call \<Rightarrow> bool" where
  "accepted_call (CHandle m None) \<longleftrightarrow> True"
| "accepted_call _ \<longleftrightarrow> False"

lemma accepted_call_CHandle [simp]: "accepted_call (CHandle m r) \<longleftrightarrow> r = None"
  by (cases r) auto

definition accepted_calls :: "'s KafkaService \<Rightarrow> nat" where
  "accepted_calls ks = length (filter accepted_call (calls ks))"

definition steady :: "('s ingest \<Rightarrow> nat) \<Rightarrow> 's poll_turn \<Rightarrow> bool" where
  "steady f t \<longleftrightarrow> (\<forall>n g st. Work g \<in> set (t_gap t n) \<longrightarrow> f (g st) = f st)"

text \<open>
  A contract of handlers: a measure of the shared state grows by one exactly with a call that is
  accepted. The consumer then keeps its own record of the calls in step with the measure.
\<close>

locale counted_handlers =
  fixes handlers :: "(string \<times> 's handler) list" and f :: "'s ingest \<Rightarrow> nat"
  assumes handler_counts: "(topic, h) \<in> set handlers
      \<Longrightarrow> f (snd (h ck m st)) = f st + (if fst (h ck m st) = None then 1 else 0)"
    and counter_counts: "f (Inc mt st) = f st"
begin

definition balance :: "call list \<times> 's ingest \<Rightarrow> call list \<times> 's ingest \<Rightarrow> bool" where
  "balance x y \<longleftrightarrow> length (filter accepted_call (fst y)) + f (snd x) = length (filter accepted_call (fst x)) + f (snd y)"

sublocale counts: consumer_relation handlers balance
proof
  fix c cs and st :: "'s ingest"
  assume "\<not> handler_call c"
  then have "\<not> accepted_call c" by (cases c) auto
  then show "balance (cs, st) (cs @ [c], st)" by (simp add: balance_def)
qed (simp_all add: balance_def handler_counts counter_counts)

lemma steady_calm: "steady f t \<Longrightarrow> counts.calm t"
  by (simp add: steady_def counts.calm_def balance_def)

lemma consumer_balanced:
  assumes "topicHandlers ks = handlers" "list_all (steady f) ts"
  shows "accepted_calls (snd (ConsumeEvents txt sub ts ks)) + f (app ks)
    = accepted_calls ks + f (app (snd (ConsumeEvents txt sub ts ks)))"
proof -
  have "list_all counts.calm ts" using assms(2) by (rule list.pred_mono_strong) (rule steady_calm)
  from counts.consumer_related [OF assms(1) this] show ?thesis
    by (simp add: counts.related_def balance_def accepted_calls_def)
qed

end

section \<open>The intake handler and the writer\<close>

lemma rejected_keeps_writer:
  assumes "fst (ProcessEvent L (container_ports E) ck (container_service ev) payload data st) = Some e"
  shows "st_writer (world (snd (ProcessEvent L (container_ports E) ck (container_service ev) payload data st)))
    = st_writer (world st)"
proof (cases "data = None \<or> data = Some []")
  case False
  then obtain d where d: "data = Some d" "d \<noteq> []" by auto
  have s: "st_writer (snd (save_async_in E op an w)) = st_writer w" if "fst (save_async_in E op an w) = Some e'" for op an w e'
    using that by (auto simp: save_async_in_def SaveEventAsync_def SaveEventAsyncWithRaw_def prod.case_eq_if
        split: if_splits)
  show ?thesis
    using assms ProcessEvent_stages [OF d(2), of L "container_ports E" ck "container_service ev" payload st]
    by (auto simp: d(1) Let_def save_def s split: sum.splits option.splits prod.splits)
qed auto

lemma handler_rejects:
  assumes "fst (intake_handler L E ck raw st) = Some e"
  shows "st_writer (world (snd (intake_handler L E ck raw st))) = st_writer (world st)"
  using assms rejected_keeps_writer
  by (auto simp: intake_handler_def HandleMessage_def split: sum.splits)

lemma handler_accepts:
  assumes "fst (intake_handler L E ck raw st) = None"
  shows "\<not> stopping (st_writer (world st))
    \<and> (\<exists>ev1 ev2. st_writer (world (snd (intake_handler L E ck raw st))) = enqueue_both ev1 ev2 (st_writer (world st)))"
proof -
  let ?s = "container_service (Some (st_alerts (world st)))"
  obtain d where d: "Unmarshal_map (json_txt L) raw = Inr (Some d)" "d \<noteq> []"
    using handled_data assms unfolding intake_handler_def by blast
  have h: "intake_handler L E ck raw st = ProcessEvent L (container_ports (E ck)) ck ?s raw (Some d) st"
    using d(1) by (simp add: intake_handler_def HandleMessage_def)
  show ?thesis
    using accepted_is_enqueued [of L "E ck" ck "Some (st_alerts (world st))" raw d st] assms d(2)
    unfolding h by (auto simp: case_prod_beta)
qed

lemma worker_loop_accepted: "worker_loop conv copy stopped i t p = Some p' \<Longrightarrow> p_accepted p' = p_accepted p"
  by (auto simp: worker_loop_def receive_def set_worker_def Let_def flush_def
      split: if_splits turn.splits list.splits prod.splits option.splits)

text \<open>The two contracts, on the container's handler.\<close>

interpretation wired: message_handlers
    "[(topic, intake_handler L E)]" "\<lambda>st. writer_inv (st_writer (world st)) \<and> notifier_inv (notifier st)"
  for topic :: string and L :: libs and E :: "clock \<Rightarrow> 'c store_env"
proof
  fix topic' h ck m and st :: "'c stores ingest"
  assume h: "(topic', h) \<in> set [(topic, intake_handler L E)]"
    and i: "writer_inv (st_writer (world st)) \<and> notifier_inv (notifier st)"
  have "writer_inv (st_writer (world (snd (intake_handler L E ck m st))))"
    using handler_accepts [of L E ck m st] handler_rejects [of L E ck m st] i
    by (cases "fst (intake_handler L E ck m st)") (auto intro: enqueue_both_inv)
  moreover have "notifier_inv (notifier (snd (intake_handler L E ck m st)))"
    using i by (simp add: intake_handler_def HandleMessage_notifier)
  ultimately show "writer_inv (st_writer (world (snd (h ck m st)))) \<and> notifier_inv (notifier (snd (h ck m st)))"
    using h by simp
qed simp

interpretation op_counted: counted_handlers
    "[(topic, intake_handler L E)]" "\<lambda>st. length (p_accepted (op_pipe (st_writer (world st))))"
  for topic :: string and L :: libs and E :: "clock \<Rightarrow> 'c store_env"
proof
  fix topic' h ck m and st :: "'c stores ingest"
  assume "(topic', h) \<in> set [(topic, intake_handler L E)]"
  then show "length (p_accepted (op_pipe (st_writer (world (snd (h ck m st)))))) =
      length (p_accepted (op_pipe (st_writer (world st)))) + (if fst (h ck m st) = None then 1 else 0)"
    using handler_accepts [of L E ck m st] handler_rejects [of L E ck m st]
    by (cases "fst (intake_handler L E ck m st)") (auto simp: offer_def)
qed simp

interpretation an_counted: counted_handlers
    "[(topic, intake_handler L E)]" "\<lambda>st. length (p_accepted (an_pipe (st_writer (world st))))"
  for topic :: string and L :: libs and E :: "clock \<Rightarrow> 'c store_env"
proof
  fix topic' h ck m and st :: "'c stores ingest"
  assume "(topic', h) \<in> set [(topic, intake_handler L E)]"
  then show "length (p_accepted (an_pipe (st_writer (world (snd (h ck m st)))))) =
      length (p_accepted (an_pipe (st_writer (world st)))) + (if fst (h ck m st) = None then 1 else 0)"
    using handler_accepts [of L E ck m st] handler_rejects [of L E ck m st]
    by (cases "fst (intake_handler L E ck m st)") (auto simp: offer_def)
qed simp

section \<open>A run of the container\<close>

lemma on_writer_simps [simp]:
  "st_writer (world (on_writer f st)) = f (st_writer (world st))" "notifier (on_writer f st) = notifier st"
  by (simp_all add: on_writer_def)

lemma background_keeps:
  assumes "writer_inv (st_writer (world st)) \<and> notifier_inv (notifier st)"
  shows "writer_inv (st_writer (world (background_work b st))) \<and> notifier_inv (notifier (background_work b st))"
proof (cases b)
  case (WriterTurn a)
  have "act a (st_writer (world st)) = Some w \<Longrightarrow> writer_inv w" for w
    using act_step writer_step_inv assms by blast
  then show ?thesis using assms by (simp add: WriterTurn split: option.split)
qed (use assms worker_turn_inv in \<open>auto simp: add_plant_def split: option.split\<close>)

lemma background_accepted:
  assumes "own_turn b"
  shows "p_accepted (op_pipe (st_writer (world (background_work b st)))) = p_accepted (op_pipe (st_writer (world st)))"
    "p_accepted (an_pipe (st_writer (world (background_work b st)))) = p_accepted (an_pipe (st_writer (world st)))"
proof -
  have "p_accepted (op_pipe w) = p_accepted (op_pipe (st_writer (world st)))
      \<and> p_accepted (an_pipe w) = p_accepted (an_pipe (st_writer (world st)))"
    if "act a (st_writer (world st)) = Some w" "own_turn (WriterTurn a)" for a w
    using that by (cases a) (auto simp: operationalWorker_def analyticalWorker_def worker_loop_accepted
        Stop_flag_def Stop_close_def split: if_splits)
  then have "\<And>a w. act a (st_writer (world st)) = Some w \<Longrightarrow> own_turn (WriterTurn a) \<Longrightarrow>
      p_accepted (op_pipe w) = p_accepted (op_pipe (st_writer (world st)))"
    "\<And>a w. act a (st_writer (world st)) = Some w \<Longrightarrow> own_turn (WriterTurn a) \<Longrightarrow>
      p_accepted (an_pipe w) = p_accepted (an_pipe (st_writer (world st)))"
    by blast+
  then show "p_accepted (op_pipe (st_writer (world (background_work b st)))) = p_accepted (op_pipe (st_writer (world st)))"
    "p_accepted (an_pipe (st_writer (world (background_work b st)))) = p_accepted (an_pipe (st_writer (world st)))"
    using assms by (cases b; auto simp: add_plant_def split: option.split)+
qed

text \<open>What the goroutines beside the consumer do in a turn is background work.\<close>

definition container_turn :: "'c stores poll_turn \<Rightarrow> bool" where
  "container_turn t \<longleftrightarrow> (\<forall>n g. Work g \<in> set (t_gap t n) \<longrightarrow> (\<exists>b. own_turn b \<and> g = background_work b))"

lemma container_turn_quiet:
  assumes "container_turn t"
  shows "quiet (\<lambda>st. writer_inv (st_writer (world st)) \<and> notifier_inv (notifier st)) t"
    "steady (\<lambda>st. length (p_accepted (op_pipe (st_writer (world st))))) t"
    "steady (\<lambda>st. length (p_accepted (an_pipe (st_writer (world st))))) t"
proof -
  have w: "\<exists>b. own_turn b \<and> g = background_work b" if "Work g \<in> set (t_gap t n)" for g n
    using assms that unfolding container_turn_def by blast
  show "quiet (\<lambda>st. writer_inv (st_writer (world st)) \<and> notifier_inv (notifier st)) t"
    unfolding quiet_def using w background_keeps by metis
  show "steady (\<lambda>st. length (p_accepted (op_pipe (st_writer (world st))))) t"
    unfolding steady_def using w background_accepted(1) by metis
  show "steady (\<lambda>st. length (p_accepted (an_pipe (st_writer (world st))))) t"
    unfolding steady_def using w background_accepted(2) by metis
qed

lemma accounted_length:
  assumes "accounted conv p"
  shows "length (p_accepted p) = length (p_channel p) + size (batched p) + length (p_written p)
    + length (p_failed p) + length (p_dropped p)"
  using arg_cong [OF assms [unfolded accounted_def], of size] by simp

text \<open>The container as it starts.\<close>

lemma NewContainer_start:
  assumes "NewContainer L E conf s = Inr c"
  shows "topicHandlers (kafka c) = [(ConsumerTopic conf, intake_handler L E)]" "calls (kafka c) = []"
    "writer_inv (st_writer (world (app (kafka c)))) \<and> notifier_inv (notifier (app (kafka c)))"
    "p_accepted (op_pipe (st_writer (world (app (kafka c))))) = []"
    "p_accepted (an_pipe (st_writer (world (app (kafka c))))) = []"
  using assms
  by (auto simp: NewContainer_def Let_def RegisterHandler_def NewKafkaService_def writer_inv_start
      notifier_inv_init split: option.splits)
    (simp_all add: NewDualEventWriterWithConfig_def new_pipe_def)

lemma Shutdown_begin_stops:
  assumes "Shutdown_begin c = Some c'" "\<not> stopOnce (kafka c)"
  shows "ctxDone (kafka c') \<and> stopClosed (kafka c') \<and> stopping (st_writer (world (app (kafka c'))))
    \<and> AnalyticsCoordinator.stopChan_closed (coordinator c')"
  using assms
  by (auto simp: Shutdown_begin_def Let_def StopConsuming_def StopConsuming_cancel_def StopConsuming_close_def
      Stop_coordinator_def Stop_close_def Stop_flag_def split: option.splits if_splits)

text \<open>An empty database, for the examples.\<close>

definition plain_conf :: Config where
  "plain_conf = envDefaults \<lparr>Port = [], Env = [], ListKafkaBrokers = ''k:9092'', ConsumeGroup = ''g'',
     HttpClientTimeout = 0, ConsumerTopic = [], ProducerTopic = [], cf_WebhookEnabled = False, cf_WebhookUrl = [],
     AllowedCorsSuffixes = [], TelegramEnabled = False, TelegramBotToken = [], TelegramChatID = []\<rparr>"

definition plain_start :: "((uuid \<times> bool) list, unit, unit) start" where
  "plain_start = \<lparr>s_operational = [], s_analytical = [], s_plants = [], s_status = [],
     s_analytics = \<lparr>events_ts = [], energy_plants = [], hourly_plant_stats = [], webhook_queue = []\<rparr>,
     s_locks = [], s_rules = Inr [], s_kafka = None, s_cache = Some [], s_web = ((), ())\<rparr>"

section \<open>Properties\<close>

text \<open>
  End to end, no event disappears between the topic and the writer: in a container that
  started from any database and consumes any messages, with its goroutines at work beside it, the
  number of messages whose handling succeeded is, in each pipeline, the number of events in the
  channel, in a batch, written, failed with their batch, or dropped at a full channel. The
  channels stay within 1000 events, the notifier's within 100, and the notifier never panics.
\<close>

theorem every_handled_event_is_accounted_for:
  assumes "NewContainer L E conf s = Inr c" "list_all container_turn ts"
    "ks = snd (ConsumeEvents json_err sub ts (kafka c))" "w = st_writer (world (app ks))"
  shows "accepted_calls ks = length (p_channel (op_pipe w)) + size (batched (op_pipe w))
      + length (p_written (op_pipe w)) + length (p_failed (op_pipe w)) + length (p_dropped (op_pipe w))
    \<and> accepted_calls ks = length (p_channel (an_pipe w)) + size (batched (an_pipe w))
      + length (p_written (an_pipe w)) + length (p_failed (an_pipe w)) + length (p_dropped (an_pipe w))
    \<and> length (p_channel (op_pipe w)) \<le> 1000 \<and> length (p_channel (an_pipe w)) \<le> 1000
    \<and> length (alertChan (notifier (app ks))) \<le> 100 \<and> \<not> n_panicked (notifier (app ks))"
proof -
  note start = NewContainer_start [OF assms(1)]
  have q: "list_all (quiet (\<lambda>st. writer_inv (st_writer (world st)) \<and> notifier_inv (notifier st))) ts"
    "list_all (steady (\<lambda>st. length (p_accepted (op_pipe (st_writer (world st)))))) ts"
    "list_all (steady (\<lambda>st. length (p_accepted (an_pipe (st_writer (world st)))))) ts"
    using assms(2) by (auto simp: list_all_iff container_turn_quiet)
  have inv: "writer_inv w \<and> notifier_inv (notifier (app ks))"
    unfolding assms(3,4) by (rule wired.consumer_keeps [OF start(1) q(1) start(3)])
  have "accepted_calls (kafka c) = 0" by (simp add: accepted_calls_def start(2))
  then have n: "accepted_calls ks = length (p_accepted (op_pipe w))" "accepted_calls ks = length (p_accepted (an_pipe w))"
    using op_counted.consumer_balanced [OF start(1) q(2), of json_err sub]
      an_counted.consumer_balanced [OF start(1) q(3), of json_err sub]
    unfolding assms(3,4) by (simp_all add: start(4,5))
  show ?thesis
    using inv n accounted_length [of op_model "op_pipe w"] accounted_length [of an_model "an_pipe w"]
    by (simp add: writer_inv_def pipe_inv_def notifier_inv_def pipelineBufferSize_def alertCap_def)
qed

theorem every_handled_event_is_accounted_for_witness:
  "\<exists>c. NewContainer plain_libs (\<lambda>ck. plain_env) plain_conf plain_start = Inr c
    \<and> length (p_channel (op_pipe (st_writer (world (app (snd (ConsumeEvents (\<lambda>b. []) None
        [(plain_turn (Inr p5_message))\<lparr>t_gap := (\<lambda>n. [Work (background_work (NewPlant zero_EnergyPlantsModel))])\<rparr>]
        (kafka c)))))))) \<le> 1000"
proof -
  let ?t = "(plain_turn (Inr p5_message))\<lparr>t_gap := (\<lambda>n. [Work (background_work (NewPlant zero_EnergyPlantsModel))])\<rparr>"
  obtain c where c: "NewContainer plain_libs (\<lambda>ck. plain_env) plain_conf plain_start = Inr c"
    by (simp add: NewContainer_def plain_start_def Let_def)
  have "container_turn ?t"
    unfolding container_turn_def by (auto intro!: exI [of _ "NewPlant zero_EnergyPlantsModel"])
  then have "list_all container_turn [?t]" by simp
  from every_handled_event_is_accounted_for [OF c this refl refl] show ?thesis using c by blast
qed

text \<open>
  C12. A shutdown commits nothing that was not accepted: once the consumer's context is
  cancelled and the writer is stopping, a message that is still handled leaves the writer as it
  is, and is committed only when it was rejected for good. Any other one is left to the next
  start of the service.
\<close>

theorem shutdown_leaves_event_uncommitted:
  assumes "ctxDone ks" "\<not> stopClosed ks" "stopping (st_writer (world (app ks)))" "t_poll t = Inr m"
    "t_gap t 0 = []" "t_gap t 1 = []" "map_of (topicHandlers ks) (km_Topic m) = Some (intake_handler L E)"
  shows "\<exists>e rest. calls (snd (consume_turn json_err t n ks)) =
      calls ks @ CRead (Inr m) # CHandle (km_Value m) (Some e) # rest
    \<and> (IsPermanent e \<or> rest = [CWait Second False])
    \<and> st_writer (world (app (snd (consume_turn json_err t n ks)))) = st_writer (world (app ks))"
proof -
  let ?h = "intake_handler L E (t_clock t 0) (value_bytes (km_Value m)) (app ks)"
  obtain e where e: "fst ?h = Some e"
    using handler_accepts [of L E "t_clock t 0" "value_bytes (km_Value m)" "app ks"] assms(3) by (cases "fst ?h") auto
  have w: "st_writer (world (snd ?h)) = st_writer (world (app ks))" by (rule handler_rejects [OF e])
  have d: "st_writer (world (app (sendToDLQWithCtx tx t ctx topic v reason mr ks'))) = st_writer (world (app ks'))"
    for tx ctx topic v reason mr and ks' :: "'a stores KafkaService"
    by (simp add: sendToDLQWithCtx_def SendMessage_def Let_def split: sum.split option.split prod.split)
  have r: "maxRetries = Suc (Suc (Suc 0))" by (simp add: maxRetries_def)
  have t: "consume_turn json_err t n ks =
      (case handleWithRetry json_err t (Some (t_id t)) (intake_handler L E) (km_Value m) (km_Topic m)
              (log_call (CRead (Inr m)) ks) of
         (True, ks) \<Rightarrow> (Some 0, commitOffset t m ks) | (False, ks) \<Rightarrow> (Some 0, ks))"
    using assms(2,4,5,7) by (simp add: consume_turn_def ReadMessage_def WithCorrelationID_def Let_def)
  show ?thesis
  proof (cases "IsPermanent e")
    case True
    then have "handleWithRetry json_err t (Some (t_id t)) (intake_handler L E) (km_Value m) (km_Topic m)
        (log_call (CRead (Inr m)) ks) = (True, sendToDLQWithCtx json_err t (Some (t_id t)) (km_Topic m) (km_Value m)
          (Error e) ''permanent'' (snd (call_handler t (intake_handler L E) 0 (km_Value m) (log_call (CRead (Inr m)) ks))))"
      using e by (simp add: handleWithRetry_def prod.case_eq_if)
    then show ?thesis
      using True e w by (simp add: t d commitOffset_def CommitMessage_def)
  next
    case False
    then show ?thesis
      using e w assms(1,6)
      by (simp add: t handleWithRetry_def call_handler_def prod.case_eq_if r wait_retry_def retry_backoff_def Let_def)
  qed
qed

theorem shutdown_leaves_event_uncommitted_witness:
  "\<exists>e rest. calls (snd (consume_turn (\<lambda>b. []) (plain_turn (Inr p5_message)) 0
        ((p5_service (on_writer Stop_flag plain_stores))\<lparr>ctxDone := True\<rparr>)))
      = CRead (Inr p5_message) # CHandle (Some p5_raw) (Some e) # rest
    \<and> (IsPermanent e \<or> rest = [CWait Second False])"
  using shutdown_leaves_event_uncommitted [of "(p5_service (on_writer Stop_flag plain_stores))\<lparr>ctxDone := True\<rparr>"
      "plain_turn (Inr p5_message)" p5_message plain_libs "\<lambda>ck. plain_env" "\<lambda>b. []" 0]
  by (auto simp: Stop_flag_def plain_turn_def)

text \<open>
  C23. The intake test answers 200 exactly for the messages whose plant the consumer accepts:
  for a message with the same \<open>plant_source_id\<close>, the test succeeds when the first two checks of
  \<open>ProcessEvent\<close> do, on the same stores.
\<close>

theorem intake_test_agrees_with_consumer:
  assumes "bind body = Inr req" "str_field data ''plant_source_id'' = Some (ti_PlantSourceID req)"
    "ps_uuid_Parse S = uuid_Parse L" "uuid_Parse L [] = Inl err"
  shows "fst (fst (TestIntake bind S stamp (plant_Exists P) body st n)) = 200 \<longleftrightarrow>
    (\<exists>pid et src. plant_info L data = Inr (pid, et, src) \<and> exists_error L P pid st = None)"
  using assms
  by (auto simp: TestIntake_def plant_info_def extractAndValidatePlantInfo_def exists_error_def go_defs Let_def
      prod.case_eq_if split: sum.split sum.splits bool.split option.splits if_splits)

theorem intake_test_agrees_with_consumer_witness:
  "fst (fst (TestIntake (\<lambda>b. Inr \<lparr>ti_EventType = [], ti_PlantName = [], ti_PlantSourceID = ''p''\<rparr>)
      \<lparr>ps_uuid_Parse = p5_Parse, ps_uuid_String = plain_uuid, ps_b64_err = TextError, ps_time_err = TextError\<rparr>
      [] (plant_Exists (unit_ports True)) [] () (NewNotifier [] [] False))) = 200"
proof -
  have "exists_error plain_libs (unit_ports True) 5 () = None"
    by (simp add: exists_error_def unit_ports_def)
  then show ?thesis
    using intake_test_agrees_with_consumer [of "\<lambda>b. Inr \<lparr>ti_EventType = [], ti_PlantName = [], ti_PlantSourceID = ''p''\<rparr>"
        "[]" "\<lparr>ti_EventType = [], ti_PlantName = [], ti_PlantSourceID = ''p''\<rparr>" p5_data
        "\<lparr>ps_uuid_Parse = p5_Parse, ps_uuid_String = plain_uuid, ps_b64_err = TextError, ps_time_err = TextError\<rparr>"
        plain_libs "TextError ''invalid UUID length''" "[]" "unit_ports True" "()" "NewNotifier [] [] False"] p5_info
    by (auto simp: p5_data_def str_field_def plain_libs_def p5_Parse_def)
qed

lemma those_None: "those xs = None \<longleftrightarrow> None \<in> set xs"
  by (induction xs) (auto split: option.split)

text \<open>
  C22. One event can stop the aggregation of every plant. A measurement that is not a number makes
  the decoding of the data fail, which the validation takes for valid, so the event is
  accepted and stored; while it is in the window, the cast of the aggregation fails, and the
  statement changes nothing for any plant.
\<close>

theorem ill_typed_event_blocks_aggregation:
  assumes "healthy P" "Unmarshal_map (json_txt L) raw = Inr (Some data)" "data \<noteq> []"
    "plant_info L data = Inr (pid, et, src)" "Option.bind (Marshal (GMap data)) Unmarshal_EventData = None"
    "pg_cast G raw ''power_generated_mw'' = None" "m \<in> set (events_ts d)" "anm_Data m = raw"
    "now - window div Minute * Minute \<le> anm_CreatedAt m"
  shows "fst (HandleMessage L P ck s raw st) = None
    \<and> (\<exists>err. RecalculateDirtyBuckets G fault now fresh window d = (Inl err, d))"
proof
  have "data_error L data = None" using assms(5) by (simp add: data_error_def)
  then show "fst (HandleMessage L P ck s raw st) = None"
    using healthy_result [OF assms(1,3), of L ck s raw st] assms(2,4) by (simp add: HandleMessage_def)
  have "None \<in> set (map (\<lambda>e. pg_cast G (anm_Data e) ''power_generated_mw'')
      (filter (\<lambda>e. event_key e = event_key m) (events_ts d)))"
    using assms(6-8) by force
  then have "calculated_stats G now d (event_key m) = None"
    by (simp add: calculated_stats_def avg_member_def Let_def those_None [THEN iffD2])
  moreover have "event_key m \<in> set (dirty_buckets now (window div Minute * Minute) (events_ts d))"
    using assms(7,9) by (auto simp: dirty_buckets_def)
  ultimately have "those (map (calculated_stats G now d)
      (dirty_buckets now (window div Minute * Minute) (events_ts d))) = None"
    unfolding those_None by force
  then show "\<exists>err. RecalculateDirtyBuckets G fault now fresh window d = (Inl err, d)"
    by (simp add: RecalculateDirtyBuckets_def Let_def split: option.split)
qed

definition abc_raw :: bytes where
  "abc_raw = ''{'' @ [CHR 0x22] @ ''plant_source_id'' @ [CHR 0x22] @ '':'' @ [CHR 0x22] @ ''p'' @ [CHR 0x22]
     @ '','' @ [CHR 0x22] @ ''power_generated_mw'' @ [CHR 0x22] @ '':'' @ [CHR 0x22] @ ''abc'' @ [CHR 0x22] @ ''}''"

definition abc_data :: gomap where
  "abc_data = [(''plant_source_id'', GString ''p''), (''power_generated_mw'', GString ''abc'')]"

lemma abc_facts:
  "Unmarshal_map txt abc_raw = Inr (Some abc_data)"
  "Option.bind (Marshal (GMap abc_data)) Unmarshal_EventData = None"
  "plant_info plain_libs abc_data = Inr (5, ''unknown'', ''kafka-intake'')"
proof -
  have p: "json_parse abc_raw = Some (JObject [(''plant_source_id'', JString ''p''), (''power_generated_mw'', JString ''abc'')])"
    unfolding abc_raw_def by code_simp
  then show "Unmarshal_map txt abc_raw = Inr (Some abc_data)"
    by (simp add: Unmarshal_map_def abc_data_def)
  have q: "json_quote ''abc'' = [CHR 0x22] @ ''abc'' @ [CHR 0x22]"
    by (rule json_quote_plain) (simp add: plain_char_def byte_in_def)
  have o: "''plant_source_id'' \<le> (''power_generated_mw'' :: string)" by code_simp
  have m: "Marshal (GMap abc_data) = Some abc_raw"
    by (simp add: abc_data_def abc_raw_def quoted_names q sort_key_def o del: Marshal.simps(3))
  show "Option.bind (Marshal (GMap abc_data)) Unmarshal_EventData = None"
    unfolding m using p by (simp add: Unmarshal_EventData_def set_member_def float_member_def Let_def folded_names)
  show "plant_info plain_libs abc_data = Inr (5, ''unknown'', ''kafka-intake'')"
    by (simp add: plant_info_def extractAndValidatePlantInfo_def abc_data_def str_field_def plain_libs_def p5_Parse_def)
qed

theorem ill_typed_event_blocks_aggregation_witness:
  "fst (HandleMessage plain_libs (unit_ports True) plain_clock (NewEventIngestionService None False) abc_raw plain_state) = None
    \<and> (\<exists>err. RecalculateDirtyBuckets (null_pg\<lparr>pg_cast := (\<lambda>b member. if b = abc_raw then None else Some None)\<rparr>)
        None 9 (\<lambda>k. 3) (10 * Minute) (one_event_db\<lparr>events_ts := [one_event\<lparr>anm_Data := abc_raw\<rparr>]\<rparr>)
        = (Inl err, one_event_db\<lparr>events_ts := [one_event\<lparr>anm_Data := abc_raw\<rparr>]\<rparr>))"
proof (rule ill_typed_event_blocks_aggregation [where m = "one_event\<lparr>anm_Data := abc_raw\<rparr>"])
  show "healthy (unit_ports True)" by (simp add: healthy_def unit_ports_def)
  show "9 - 10 * Minute div Minute * Minute \<le> anm_CreatedAt (one_event\<lparr>anm_Data := abc_raw\<rparr>)"
    by (simp add: Minute_def Second_def) (simp add: one_event_def)
qed (rule abc_facts | simp add: abc_data_def)+

end
