(* ===== verification/Router.thy ===== *)
theory Router
  imports Container
begin

text \<open>
  The HTTP interface: the route table of \<open>rest/router.go\<close>, the routes and the middleware
  \<open>main.go\<close> adds, and a request served on the state of the container. The handlers read the very
  tables, the plant cache and the notifier that the consumer and the writer change.

  The web framework is a parameter: \<open>wb_gin\<close> finds the route of a request, \<open>wb_cors\<close> is the CORS
  middleware on the program's test of origins. Logging and recovery are left out; no handler of the
  model panics.
\<close>

section \<open>Routes\<close>

datatype endpoint =
    EListExamples | ECreateExample | EGetExample | EUpdateExample | EDeleteExample
  | EListOperational | EGetOperational | EListAnalytical | EHourly | EDaily
  | EListStatus | EGetStatus | EFilterStatus | ETestIntake
  | EHealth | ESwagger | EMetrics

type_synonym route = "string \<times> string \<times> endpoint"

text \<open>How the framework joins the path of a group and a path below it.\<close>

definition joinPaths :: "string \<Rightarrow> string \<Rightarrow> string" where
  "joinPaths absolute relative =
     (if relative = [] then absolute else if absolute = ''/'' then relative else absolute @ relative)"

definition SetupRoutes :: "string \<Rightarrow> route list" where
  "SetupRoutes router =
     (let api = joinPaths router ''/api/v1'';
          examples = joinPaths api ''/examples'';
          events = joinPaths api ''/events'';
          operational = joinPaths events ''/operational'';
          analytical = joinPaths events ''/analytical'';
          plants = joinPaths api ''/plants'';
          test = joinPaths api ''/test''
      in [(''GET'', joinPaths examples [], EListExamples),
          (''POST'', joinPaths examples [], ECreateExample),
          (''GET'', joinPaths examples ''/:id'', EGetExample),
          (''PUT'', joinPaths examples ''/:id'', EUpdateExample),
          (''DELETE'', joinPaths examples ''/:id'', EDeleteExample),
          (''GET'', joinPaths operational [], EListOperational),
          (''GET'', joinPaths operational ''/:id'', EGetOperational),
          (''GET'', joinPaths analytical [], EListAnalytical),
          (''GET'', joinPaths analytical ''/hourly'', EHourly),
          (''GET'', joinPaths analytical ''/daily'', EDaily),
          (''GET'', joinPaths plants ''/status'', EListStatus),
          (''GET'', joinPaths plants ''/status/:id'', EGetStatus),
          (''GET'', joinPaths plants ''/status/filter/:status'', EFilterStatus),
          (''POST'', joinPaths test ''/intake'', ETestIntake)])"

definition server_routes :: "route list" where
  "server_routes = SetupRoutes ''/'' @
     [(''GET'', ''/swagger/*any'', ESwagger), (''GET'', ''/healthz'', EHealth), (''GET'', ''/readyz'', EHealth),
      (''GET'', ''/metrics'', EMetrics)]"

text \<open>The middleware of the group \<open>/api/v1\<close> is on the routes of \<open>SetupRoutes\<close> only.\<close>

definition api_endpoint :: "endpoint \<Rightarrow> bool" where
  "api_endpoint e \<longleftrightarrow> e \<notin> {EHealth, ESwagger, EMetrics}"

text \<open>
  The documented meaning of a pattern: \<open>:name\<close> stands for one non-empty segment, \<open>*name\<close> for the
  rest of the path with its slash.
\<close>

type_synonym params = "(string \<times> string) list"

fun match_segments :: "string list \<Rightarrow> string list \<Rightarrow> params option" where
  "match_segments [] [] = Some []"
| "match_segments (p # ps) (s # ss) =
     (if HasPrefix p '':'' then (if s = [] then None else map_option ((#) (tl p, s)) (match_segments ps ss))
      else if HasPrefix p ''*'' then Some [(tl p, CHR ''/'' # Join (s # ss) ''/'')]
      else if p = s then match_segments ps ss else None)"
| "match_segments ps ss = None"

definition match_pattern :: "string \<Rightarrow> string \<Rightarrow> params option" where
  "match_pattern pattern path = match_segments (Split pattern (CHR ''/'')) (Split path (CHR ''/''))"

text \<open>What the program relies on: a request goes to a route that matches, if there is one.\<close>

definition dispatches :: "(route list \<Rightarrow> string \<Rightarrow> string \<Rightarrow> (endpoint \<times> params) option) \<Rightarrow> bool" where
  "dispatches gin \<longleftrightarrow>
     (\<forall>rs m path. case gin rs m path of
        Some (e, ps) \<Rightarrow> \<exists>pat. (m, pat, e) \<in> set rs \<and> match_pattern pat path = Some ps
      | None \<Rightarrow> \<forall>pat e. (m, pat, e) \<in> set rs \<longrightarrow> match_pattern pat path = None)"

text \<open>The plainest such dispatcher: the first route that matches.\<close>

fun first_route :: "route list \<Rightarrow> string \<Rightarrow> string \<Rightarrow> (endpoint \<times> params) option" where
  "first_route [] m path = None"
| "first_route ((m', pat, e) # rs) m path =
     (case match_pattern pat path of
        Some ps \<Rightarrow> (if m' = m then Some (e, ps) else first_route rs m path)
      | None \<Rightarrow> first_route rs m path)"

lemma first_route_dispatches: "dispatches first_route"
proof -
  have "case first_route rs m path of
        Some (e, ps) \<Rightarrow> \<exists>pat. (m, pat, e) \<in> set rs \<and> match_pattern pat path = Some ps
      | None \<Rightarrow> \<forall>pat e. (m, pat, e) \<in> set rs \<longrightarrow> match_pattern pat path = None" for rs m path
    by (induction rs m path rule: first_route.induct) (fastforce split: option.splits)+
  then show ?thesis unfolding dispatches_def by blast
qed

section \<open>Requests\<close>

record request =
  rq_method :: string
  rq_path :: string
  rq_query :: "string \<Rightarrow> string"
  rq_request_id :: string
  rq_ip :: string
  rq_origin :: string
  rq_body :: bytes

datatype body =
    BError string | BText string | BEmpty
  | BExamples "ExampleEntity list" | BExample ExampleEntity
  | BPage "EventOperational Page" | BEvent EventOperational
  | BAnalytical "EventAnalytical list" | BAggregated "AggregatedEvent list"
  | BStatuses "PlantCurrentStatus list" | BStatus PlantCurrentStatus
  | BIntake TestIntakeResponse

record reply =
  rp_status :: int
  rp_request_id :: "string option"
  rp_body :: body

text \<open>Third-party code, and what a request finds of the world: the clock, fresh values, faults.\<close>

record 'l web =
  wb_gin :: "route list \<Rightarrow> string \<Rightarrow> string \<Rightarrow> (endpoint \<times> params) option"
  wb_cors :: "(string \<Rightarrow> bool) \<Rightarrow> request \<Rightarrow> int option"
  wb_rate :: "'l rate_pkg"
  wb_parsers :: parsers
  wb_create :: "bytes \<Rightarrow> goerr + CreateExampleRequest"
  wb_update :: "bytes \<Rightarrow> goerr + UpdateExampleRequest"
  wb_intake :: "bytes \<Rightarrow> goerr + TestIntakeRequest"
  wb_external :: "request \<Rightarrow> int \<times> string"   \<comment> \<open>documentation, metrics, unknown paths\<close>

record 'c moment =
  mo_now :: time
  mo_stamp :: string
  mo_uuid :: uuid
  mo_request_id :: string
  mo_fault :: "goerr option"
  mo_find_fault :: "goerr option"
  mo_duplicate :: goerr
  mo_stores :: "'c store_env"
  mo_sql_db :: "goerr option"
  mo_ping :: "goerr option"

record ('c, 'b, 'w, 'l) server =
  sv_container :: "('c, 'b, 'w) Container"
  sv_examples :: "ExampleModel list"
  sv_limiter :: "'l RateLimiter"

abbreviation sv_stores :: "('c, 'b, 'w, 'l) server \<Rightarrow> 'c stores" where
  "sv_stores sv \<equiv> world (app (kafka (sv_container sv)))"

definition Param :: "params \<Rightarrow> string \<Rightarrow> string" where
  "Param ps key = (case map_of ps key of Some v \<Rightarrow> v | None \<Rightarrow> [])"

definition rendered :: "('a \<Rightarrow> body) \<Rightarrow> 'a response \<Rightarrow> int \<times> body" where
  "rendered f r = (fst r, case snd r of Inl err \<Rightarrow> BError err | Inr v \<Rightarrow> f v)"

definition with_examples ::
  "(int \<times> body) \<times> ExampleModel list \<Rightarrow> ('c, 'b, 'w, 'l) server \<Rightarrow> (int \<times> body) \<times> ('c, 'b, 'w, 'l) server" where
  "with_examples r sv = (fst r, sv\<lparr>sv_examples := snd r\<rparr>)"

definition set_shared :: "'c stores ingest \<Rightarrow> ('c, 'b, 'w, 'l) server \<Rightarrow> ('c, 'b, 'w, 'l) server" where
  "set_shared st sv =
     (let c = sv_container sv in sv\<lparr>sv_container := c\<lparr>kafka := (kafka c)\<lparr>app := st\<rparr>\<rparr>\<rparr>)"

text \<open>The handler of an endpoint, with the repositories of the container.\<close>

fun handle ::
  "'l web \<Rightarrow> 'c moment \<Rightarrow> endpoint \<Rightarrow> params \<Rightarrow> request \<Rightarrow> ('c, 'b, 'w, 'l) server
   \<Rightarrow> (int \<times> body) \<times> ('c, 'b, 'w, 'l) server" where
  "handle W M EListExamples ps rq sv = (rendered BExamples (ListExamples (mo_fault M) (sv_examples sv)), sv)"
| "handle W M ECreateExample ps rq sv =
     (let (r, tbl) = CreateExample (wb_create W) (mo_fault M) (mo_duplicate M) (mo_now M) (mo_uuid M)
                       (rq_body rq) (sv_examples sv)
      in with_examples (rendered BExample r, tbl) sv)"
| "handle W M EGetExample ps rq sv =
     (rendered BExample (GetExample (ps_uuid_Parse (wb_parsers W)) (mo_fault M) (sv_examples sv) (Param ps ''id'')), sv)"
| "handle W M EUpdateExample ps rq sv =
     (let (r, tbl) = UpdateExample (ps_uuid_Parse (wb_parsers W)) (wb_update W) (mo_find_fault M) (mo_fault M)
                       (mo_now M) (mo_uuid M) (Param ps ''id'') (rq_body rq) (sv_examples sv)
      in with_examples (rendered BExample r, tbl) sv)"
| "handle W M EDeleteExample ps rq sv =
     (let (r, tbl) = DeleteExample (ps_uuid_Parse (wb_parsers W)) (mo_fault M) (Param ps ''id'') (sv_examples sv)
      in with_examples (rendered (\<lambda>_. BEmpty) r, tbl) sv)"
| "handle W M EListOperational ps rq sv =
     (rendered BPage (ListOperationalEvents (wb_parsers W) (mo_fault M)
        (p_table (op_pipe (st_writer (sv_stores sv)))) (rq_query rq)), sv)"
| "handle W M EGetOperational ps rq sv =
     (rendered BEvent (GetOperationalEvent (wb_parsers W) (mo_fault M)
        (p_table (op_pipe (st_writer (sv_stores sv)))) (Param ps ''id'')), sv)"
| "handle W M EListAnalytical ps rq sv =
     (rendered BAnalytical (ListAnalyticalEvents (mo_fault M)
        (p_table (an_pipe (st_writer (sv_stores sv)))) (rq_query rq)), sv)"
| "handle W M EHourly ps rq sv =
     (rendered BAggregated (GetHourlyAggregation_handler (wb_parsers W) (mo_fault M)
        (p_table (an_pipe (st_writer (sv_stores sv)))) (rq_query rq)), sv)"
| "handle W M EDaily ps rq sv =
     (rendered BAggregated (GetDailyAggregation_handler (wb_parsers W) (mo_fault M)
        (p_table (an_pipe (st_writer (sv_stores sv)))) (rq_query rq)), sv)"
| "handle W M EListStatus ps rq sv =
     (rendered BStatuses (ListPlantStatus (mo_fault M) (st_status (sv_stores sv))), sv)"
| "handle W M EGetStatus ps rq sv =
     (rendered BStatus (GetPlantStatus (ps_uuid_Parse (wb_parsers W)) (mo_fault M) (st_status (sv_stores sv))
        (Param ps ''id'')), sv)"
| "handle W M EFilterStatus ps rq sv =
     (rendered BStatuses (ListPlantStatusByStatus (mo_fault M) (st_status (sv_stores sv)) (Param ps ''status'')), sv)"
| "handle W M ETestIntake ps rq sv =
     (let st = app (kafka (sv_container sv));
          (r, w, n) = TestIntake (wb_intake W) (wb_parsers W) (mo_stamp M) (exists_in (mo_stores M))
                        (rq_body rq) (world st) (notifier st)
      in ((fst r, BIntake (snd r)), set_shared (st\<lparr>world := w, notifier := n\<rparr>) sv))"
| "handle W M EHealth ps rq sv =
     (let (status, text) = HealthCheck (mo_sql_db M) (mo_ping M) (sv_container sv) in ((status, BText text), sv))"
| "handle W M ESwagger ps rq sv = (let (status, text) = wb_external W rq in ((status, BText text), sv))"
| "handle W M EMetrics ps rq sv = (let (status, text) = wb_external W rq in ((status, BText text), sv))"

text \<open>A request: CORS on every path, then, below \<open>/api/v1\<close>, the request id and the rate limit.\<close>

definition ServeHTTP ::
  "'l web \<Rightarrow> 'c moment \<Rightarrow> request \<Rightarrow> ('c, 'b, 'w, 'l) server \<Rightarrow> reply \<times> ('c, 'b, 'w, 'l) server" where
  "ServeHTTP W M rq sv =
     (case wb_cors W (AllowOriginFunc (allowedSuffixes (cfg (sv_container sv)))) rq of
        Some status \<Rightarrow> (\<lparr>rp_status = status, rp_request_id = None, rp_body = BEmpty\<rparr>, sv)
      | None \<Rightarrow>
          (case wb_gin W server_routes (rq_method rq) (rq_path rq) of
             None \<Rightarrow>
               (let (status, text) = wb_external W rq
                in (\<lparr>rp_status = status, rp_request_id = None, rp_body = BText text\<rparr>, sv))
           | Some (e, ps) \<Rightarrow>
               (if api_endpoint e
                then
                  (let i = snd (RequestIDMiddleware (rq_request_id rq) (mo_request_id M));
                       (r, rl) = Middleware (wb_rate W) (mo_now M) (rq_ip rq) (sv_limiter sv);
                       sv = sv\<lparr>sv_limiter := rl\<rparr>
                   in case r of
                        Some refused \<Rightarrow>
                          (\<lparr>rp_status = fst refused, rp_request_id = Some i,
                            rp_body = snd (rendered (\<lambda>_. BEmpty) refused)\<rparr>, sv)
                      | None \<Rightarrow>
                          (let (r, sv) = handle W M e ps rq sv
                           in (\<lparr>rp_status = fst r, rp_request_id = Some i, rp_body = snd r\<rparr>, sv)))
                else
                  (let (r, sv) = handle W M e ps rq sv
                   in (\<lparr>rp_status = fst r, rp_request_id = None, rp_body = snd r\<rparr>, sv)))))"

section \<open>The table is unambiguous\<close>

text \<open>Whether two patterns can match one path; a parameter overlaps with everything.\<close>

fun overlap :: "string list \<Rightarrow> string list \<Rightarrow> bool" where
  "overlap [] [] \<longleftrightarrow> True"
| "overlap (p # ps) (q # qs) \<longleftrightarrow>
     HasPrefix p ''*'' \<or> HasPrefix q ''*''
     \<or> (HasPrefix p '':'' \<or> HasPrefix q '':'' \<or> p = q) \<and> overlap ps qs"
| "overlap ps qs \<longleftrightarrow> False"

lemma overlap_if_both_match:
  "match_segments ps ss \<noteq> None \<Longrightarrow> match_segments qs ss \<noteq> None \<Longrightarrow> overlap ps qs"
proof (induction ps ss arbitrary: qs rule: match_segments.induct)
  case (1 qs)
  then show ?case by (cases qs) auto
next
  case (2 p ps s ss qs)
  then show ?case by (cases qs) (auto split: if_splits)
qed auto

fun unambiguous :: "route list \<Rightarrow> bool" where
  "unambiguous [] \<longleftrightarrow> True"
| "unambiguous ((m, pat, e) # rs) \<longleftrightarrow>
     list_all (\<lambda>(m', pat', e'). m' = m \<longrightarrow> \<not> overlap (Split pat (CHR ''/'')) (Split pat' (CHR ''/''))) rs
     \<and> unambiguous rs"

lemma unambiguous_unique:
  assumes "unambiguous rs" "(m, pat, e) \<in> set rs" "(m, pat', e') \<in> set rs"
    "match_pattern pat path \<noteq> None" "match_pattern pat' path \<noteq> None"
  shows "pat' = pat \<and> e' = e"
proof -
  have o: "overlap (Split pat (CHR ''/'')) (Split pat' (CHR ''/''))" "overlap (Split pat' (CHR ''/'')) (Split pat (CHR ''/''))"
    using overlap_if_both_match assms(4,5) unfolding match_pattern_def by blast+
  show ?thesis
    using assms(1-3) o
  proof (induction rs)
    case (Cons r rs)
    obtain m0 pat0 e0 where r: "r = (m0, pat0, e0)" by (cases r) auto
    then show ?case using Cons by (auto simp: list_all_iff)
  qed simp
qed

lemma server_routes_unambiguous: "unambiguous server_routes"
  by (simp add: server_routes_def SetupRoutes_def joinPaths_def HasPrefix_def Let_def)

lemma dispatch_unique:
  assumes "dispatches gin" "unambiguous rs"
  shows "gin rs m path = first_route rs m path"
proof -
  have g: "case gin rs m path of
      Some (e, ps) \<Rightarrow> \<exists>pat. (m, pat, e) \<in> set rs \<and> match_pattern pat path = Some ps
    | None \<Rightarrow> \<forall>pat e. (m, pat, e) \<in> set rs \<longrightarrow> match_pattern pat path = None"
    using assms(1) by (simp add: dispatches_def)
  have f: "case first_route rs m path of
      Some (e, ps) \<Rightarrow> \<exists>pat. (m, pat, e) \<in> set rs \<and> match_pattern pat path = Some ps
    | None \<Rightarrow> \<forall>pat e. (m, pat, e) \<in> set rs \<longrightarrow> match_pattern pat path = None"
    using first_route_dispatches by (simp add: dispatches_def)
  show ?thesis
  proof (cases "first_route rs m path")
    case None
    then show ?thesis using f g by (auto split: option.splits)
  next
    case (Some x)
    then obtain e ps pat where x: "x = (e, ps)" "(m, pat, e) \<in> set rs" "match_pattern pat path = Some ps"
      using f by (cases x) auto
    then obtain e' ps' pat' where y: "gin rs m path = Some (e', ps')" "(m, pat', e') \<in> set rs"
        "match_pattern pat' path = Some ps'"
      using g by (fastforce split: option.splits)
    have "pat' = pat \<and> e' = e"
      by (rule unambiguous_unique [OF assms(2) x(2) y(2), of path]) (simp_all add: x(3) y(3))
    with x y Some show ?thesis by simp
  qed
qed

lemmas routed = dispatch_unique [OF _ server_routes_unambiguous]

section \<open>Paths of the API\<close>

lemma Split_append:
  "sep \<notin> set a \<Longrightarrow> Split (a @ sep # b) sep = a # Split b sep"
  by (induction a) auto

lemma Split_single: "sep \<notin> set a \<Longrightarrow> Split a sep = [a]"
  by (induction a) auto

definition one_segment :: "string \<Rightarrow> bool" where
  "one_segment s \<longleftrightarrow> s \<noteq> [] \<and> CHR ''/'' \<notin> set s"

lemma status_path:
  assumes "one_segment s"
  shows "first_route server_routes ''GET'' (''/api/v1/plants/status/'' @ s) = Some (EGetStatus, [(''id'', s)])"
  using assms
  by (simp add: server_routes_def SetupRoutes_def joinPaths_def match_pattern_def HasPrefix_def Split_single
      one_segment_def Let_def)

lemma operational_path:
  assumes "one_segment s"
  shows "first_route server_routes ''GET'' (''/api/v1/events/operational/'' @ s) = Some (EGetOperational, [(''id'', s)])"
  using assms
  by (simp add: server_routes_def SetupRoutes_def joinPaths_def match_pattern_def HasPrefix_def Split_single
      one_segment_def Let_def)

section \<open>Requests that reach their handler\<close>

definition admitted :: "'l web \<Rightarrow> 'c moment \<Rightarrow> request \<Rightarrow> ('c, 'b, 'w, 'l) server \<Rightarrow> bool" where
  "admitted W M rq sv \<longleftrightarrow>
     wb_cors W (AllowOriginFunc (allowedSuffixes (cfg (sv_container sv)))) rq = None
     \<and> fst (Middleware (wb_rate W) (mo_now M) (rq_ip rq) (sv_limiter sv)) = None"

lemma set_limiter_same [simp]:
  "sv_container (sv\<lparr>sv_limiter := rl\<rparr>) = sv_container sv" "sv_examples (sv\<lparr>sv_limiter := rl\<rparr>) = sv_examples sv"
  by simp_all

lemma Middleware_refusal: "fst (Middleware R now ip rl) = Some r \<Longrightarrow> fst r = 429"
  by (auto simp: Middleware_def Let_def prod.case_eq_if failure_def StatusTooManyRequests_def split: if_splits)

definition request_id :: "'c moment \<Rightarrow> request \<Rightarrow> string" where
  "request_id M rq = (if rq_request_id rq = [] then mo_request_id M else rq_request_id rq)"

definition reply_of :: "string option \<Rightarrow> int \<times> body \<Rightarrow> reply" where
  "reply_of i r = \<lparr>rp_status = fst r, rp_request_id = i, rp_body = snd r\<rparr>"

lemma reply_of_simps [simp]:
  "rp_status (reply_of i r) = fst r" "rp_request_id (reply_of i r) = i" "rp_body (reply_of i r) = snd r"
  by (simp_all add: reply_of_def)

text \<open>A request of an API route, and of another one, once CORS let it pass.\<close>

lemma ServeHTTP_api:
  assumes "dispatches (wb_gin W)" "first_route server_routes (rq_method rq) (rq_path rq) = Some (e, ps)"
    "wb_cors W (AllowOriginFunc (allowedSuffixes (cfg (sv_container sv)))) rq = None" "api_endpoint e"
  shows "ServeHTTP W M rq sv =
    (let mw = Middleware (wb_rate W) (mo_now M) (rq_ip rq) (sv_limiter sv);
         sv' = sv\<lparr>sv_limiter := snd mw\<rparr>
     in case fst mw of
          Some refused \<Rightarrow> (reply_of (Some (request_id M rq)) (rendered (\<lambda>_. BEmpty) refused), sv')
        | None \<Rightarrow> (reply_of (Some (request_id M rq)) (fst (handle W M e ps rq sv')), snd (handle W M e ps rq sv')))"
  using assms(2-4)
  by (auto simp: ServeHTTP_def routed [OF assms(1)] RequestIDMiddleware_def request_id_def reply_of_def Let_def
      prod.case_eq_if rendered_def split: option.split)

lemma ServeHTTP_other:
  assumes "dispatches (wb_gin W)" "first_route server_routes (rq_method rq) (rq_path rq) = Some (e, ps)"
    "wb_cors W (AllowOriginFunc (allowedSuffixes (cfg (sv_container sv)))) rq = None" "\<not> api_endpoint e"
  shows "ServeHTTP W M rq sv = (reply_of None (fst (handle W M e ps rq sv)), snd (handle W M e ps rq sv))"
  using assms(2-4)
  by (simp add: ServeHTTP_def routed [OF assms(1)] reply_of_def Let_def prod.case_eq_if)

lemma ServeHTTP_admitted:
  assumes "admitted W M rq sv" "dispatches (wb_gin W)"
    "first_route server_routes (rq_method rq) (rq_path rq) = Some (e, ps)" "api_endpoint e"
  shows "fst (ServeHTTP W M rq sv) = reply_of (Some (request_id M rq)) (fst (handle W M e ps rq
      (sv\<lparr>sv_limiter := snd (Middleware (wb_rate W) (mo_now M) (rq_ip rq) (sv_limiter sv))\<rparr>)))"
  using assms(1) ServeHTTP_api [OF assms(2,3) _ assms(4), of sv M] by (auto simp: admitted_def Let_def)

text \<open>No handler answers 429: that status is the limiter's.\<close>

lemmas statuses = StatusOK_def StatusCreated_def StatusNoContent_def StatusBadRequest_def StatusNotFound_def
  StatusInternalServerError_def ok_def failure_def server_error_def answer_def

lemma example_statuses:
  "fst (ListExamples fault tbl) \<noteq> 429" "fst (GetExample parse fault tbl idStr) \<noteq> 429"
  "fst (fst (CreateExample bind fault dup now fresh body tbl)) \<noteq> 429"
  "fst (fst (UpdateExample parse bind' fault' fault now fresh idStr body tbl)) \<noteq> 429"
  "fst (fst (DeleteExample parse fault idStr tbl)) \<noteq> 429"
  by (auto simp: ListExamples_def GetExample_def CreateExample_def UpdateExample_def DeleteExample_def find_example_def
      statuses Let_def split: sum.split option.split prod.split)

lemma event_statuses:
  "fst (ListOperationalEvents P fault ops query) \<noteq> 429" "fst (GetOperationalEvent P fault ops idStr) \<noteq> 429"
  "fst (ListAnalyticalEvents fault ans query) \<noteq> 429" "fst (GetHourlyAggregation_handler P fault ans query) \<noteq> 429"
  "fst (GetDailyAggregation_handler P fault ans query) \<noteq> 429"
  by (auto simp: ListOperationalEvents_def GetOperationalEvent_def ListAnalyticalEvents_def parse_range_def
      GetHourlyAggregation_handler_def GetDailyAggregation_handler_def aggregation_handler_def
      statuses Let_def split: sum.split option.split prod.split)

lemma status_statuses:
  "fst (ListPlantStatus fault tbl) \<noteq> 429" "fst (GetPlantStatus parse fault tbl idStr) \<noteq> 429"
  "fst (ListPlantStatusByStatus fault tbl status) \<noteq> 429"
  by (auto simp: ListPlantStatus_def GetPlantStatus_def ListPlantStatusByStatus_def statuses Let_def
      split: sum.split option.split prod.split)

lemma intake_status: "fst (fst (TestIntake bind P stamp ex body w n)) \<noteq> 429"
  by (auto simp: TestIntake_def statuses Let_def split: sum.split option.split prod.split bool.split)

lemma handle_status: "api_endpoint e \<Longrightarrow> fst (fst (handle W M e ps rq sv)) \<noteq> 429"
  using example_statuses event_statuses status_statuses intake_status
  by (cases e) (simp_all add: api_endpoint_def rendered_def with_examples_def Let_def prod.case_eq_if)

section \<open>What an accepted message leaves for the readers\<close>

lemma accepted_status:
  assumes "fst (intake_handler L E ck raw st) = None" "Unmarshal_map (json_txt L) raw = Inr (Some data)"
    "plant_info L data = Inr (pid, et, src)" "se_status_fault (E ck) = None"
  shows "\<exists>m. get_status pid (st_status (world (snd (intake_handler L E ck raw st)))) = Some m
    \<and> ToPlantCurrentStatusEntity m = (plant_status ck pid et raw data)\<lparr>ps_UpdatedAt := psm_UpdatedAt m\<rparr>"
proof -
  have d: "data \<noteq> []" using handled_data assms(1,2) unfolding intake_handler_def by fastforce
  have h: "intake_handler L E ck raw st =
      ProcessEvent L (container_ports (E ck)) ck (container_service (Some (st_alerts (world st)))) raw (Some data) st"
    using assms(2) by (simp add: intake_handler_def HandleMessage_def)
  have "\<exists>w. world (snd (intake_handler L E ck raw st)) =
      upserted (container_ports (E ck)) (plant_status ck pid et raw data) w"
    using assms(1,3) d unfolding h
    by (auto simp: ProcessEvent_result ProcessEvent_world Let_def split: option.splits)
  then obtain w where "world (snd (intake_handler L E ck raw st)) =
      upserted (container_ports (E ck)) (plant_status ck pid et raw data) w" ..
  then show ?thesis
    using assms(4)
    by (simp add: upserted_def upsert_in_def Upsert_status_def Let_def prod.case_eq_if status_store.get_put
        ToPlantCurrentStatusModel_def ToPlantCurrentStatusEntity_def plant_status_def)
qed

section \<open>Examples\<close>

definition plain_web :: "unit web" where
  "plain_web = \<lparr>wb_gin = first_route, wb_cors = (\<lambda>f rq. None),
     wb_rate = \<lparr>NewLimiter = (\<lambda>r b. ()), Allow = (\<lambda>now l. (True, ()))\<rparr>,
     wb_parsers = \<lparr>ps_uuid_Parse = p5_Parse, ps_uuid_String = plain_uuid, ps_b64_err = TextError, ps_time_err = TextError\<rparr>,
     wb_create = (\<lambda>b. Inl (TextError [])), wb_update = (\<lambda>b. Inl (TextError [])), wb_intake = (\<lambda>b. Inl (TextError [])),
     wb_external = (\<lambda>rq. (404, []))\<rparr>"

definition plain_moment :: "(uuid \<times> bool) list moment" where
  "plain_moment = \<lparr>mo_now = 1, mo_stamp = [], mo_uuid = 9, mo_request_id = ''r1'', mo_fault = None,
     mo_find_fault = None, mo_duplicate = TextError [], mo_stores = plain_env, mo_sql_db = None, mo_ping = None\<rparr>"

definition get_request :: "string \<Rightarrow> request" where
  "get_request path = \<lparr>rq_method = ''GET'', rq_path = path, rq_query = (\<lambda>k. []), rq_request_id = [],
     rq_ip = ''::1'', rq_origin = [], rq_body = []\<rparr>"

definition server_of :: "('c, 'b, 'w) Container \<Rightarrow> ('c, 'b, 'w, unit) server" where
  "server_of c = \<lparr>sv_container = c, sv_examples = [], sv_limiter = NewRateLimiter\<rparr>"

lemma plain_web_simps [simp]:
  "dispatches (wb_gin plain_web)" "admitted plain_web M rq sv"
  "wb_parsers plain_web = \<lparr>ps_uuid_Parse = p5_Parse, ps_uuid_String = plain_uuid, ps_b64_err = TextError, ps_time_err = TextError\<rparr>"
  by (simp_all add: plain_web_def first_route_dispatches admitted_def Middleware_def getLimiter_def Let_def
      split: option.split)

section \<open>Properties\<close>

text \<open>
  C13. Read your writes: once a message was handled without an error, and its status row was written,
  a request for the status of its plant is answered 200 with that message as the last event.
\<close>

theorem accepted_event_is_served:
  assumes "fst (intake_handler L E ck raw st) = None" "Unmarshal_map (json_txt L) raw = Inr (Some data)"
    "plant_info L data = Inr (pid, et, src)" "se_status_fault (E ck) = None"
    "app (kafka (sv_container sv)) = snd (intake_handler L E ck raw st)"
    "admitted W M rq sv" "dispatches (wb_gin W)" "mo_fault M = None"
    "rq_method rq = ''GET''" "rq_path rq = ''/api/v1/plants/status/'' @ idStr" "one_segment idStr"
    "ps_uuid_Parse (wb_parsers W) idStr = Inr pid"
  shows "\<exists>status. rp_status (fst (ServeHTTP W M rq sv)) = 200
    \<and> rp_body (fst (ServeHTTP W M rq sv)) = BStatus status
    \<and> ps_PlantID status = pid \<and> ps_LastEventData status = raw \<and> ps_LastEventType status = et
    \<and> ps_LastEventAt status = ck_event_at ck
    \<and> ps_CurrentStatus status =
        (case str_field data ''current_status'' of Some s \<Rightarrow> if s \<noteq> [] then s else ''ACTIVE'' | None \<Rightarrow> ''ACTIVE'')"
proof -
  obtain m where m: "get_status pid (st_status (sv_stores sv)) = Some m"
      "ToPlantCurrentStatusEntity m = (plant_status ck pid et raw data)\<lparr>ps_UpdatedAt := psm_UpdatedAt m\<rparr>"
    using accepted_status [OF assms(1-4)] assms(5) by auto
  have r: "first_route server_routes (rq_method rq) (rq_path rq) = Some (EGetStatus, [(''id'', idStr)])"
    using status_path [OF assms(11)] assms(9,10) by simp
  show ?thesis
    using m assms(8,12)
    by (simp add: ServeHTTP_admitted [OF assms(6,7) r] api_endpoint_def GetPlantStatus_def Param_def GetByPlantID_get
        rendered_def ok_def StatusOK_def plant_status_def)
qed

theorem accepted_event_is_served_witness:
  "rp_status (fst (ServeHTTP plain_web plain_moment (get_request ''/api/v1/plants/status/p'')
     (server_of \<lparr>cfg = plain_conf,
        kafka = NewKafkaService (snd (intake_handler plain_libs (\<lambda>ck. plain_env) plain_clock p5_raw plain_stores)),
        coordinator = (NewAnalyticsCoordinator (s_analytics plain_start) [] ((), ()) (coordinator_config plain_conf)),
        kafkaClosed = False, dbClosed = False\<rparr>))) = 200"
proof -
  have "has_p5 plain_stores"
    by (simp add: has_p5_def plain_stores_def idle_writer_def NewDualEventWriterWithConfig_def)
  then have h: "fst (intake_handler plain_libs (\<lambda>ck. plain_env) plain_clock p5_raw plain_stores) = None"
    using p5_stored [of plain_stores plain_clock "Some (st_alerts (world plain_stores))" p5_raw]
    by (auto simp: intake_handler_def HandleMessage_def p5_parsed plain_libs_def)
  show ?thesis
    using accepted_event_is_served [OF h, of p5_data 5 "''unknown''" "''kafka-intake''"
        "server_of \<lparr>cfg = plain_conf,
          kafka = NewKafkaService (snd (intake_handler plain_libs (\<lambda>ck. plain_env) plain_clock p5_raw plain_stores)),
          coordinator = NewAnalyticsCoordinator (s_analytics plain_start) [] ((), ()) (coordinator_config plain_conf),
          kafkaClosed = False, dbClosed = False\<rparr>" plain_web plain_moment
        "get_request ''/api/v1/plants/status/p''" "''p''"] p5_info
    by (auto simp: server_of_def NewKafkaService_def get_request_def one_segment_def plain_moment_def plain_env_def
        p5_Parse_def p5_parsed)
qed

text \<open>
  C14. What was written can be read: in a container started from any database, whatever it has
  consumed, every event of a batch that was written without an error (with an id and an instant of
  its own) is found by its id through the interface, with status 200.
\<close>

theorem written_event_is_served:
  assumes "NewContainer L E conf s = Inr c" "list_all container_turn ts"
    "kafka (sv_container sv) = snd (ConsumeEvents json_err sub ts (kafka c))"
    "m \<in> set (p_written (op_pipe (st_writer (sv_stores sv))))" "opm_ID m \<noteq> 0" "opm_CreatedAt m \<noteq> zero_time"
    "admitted W M rq sv" "dispatches (wb_gin W)" "mo_fault M = None"
    "rq_method rq = ''GET''" "rq_path rq = ''/api/v1/events/operational/'' @ idStr" "one_segment idStr"
    "ps_uuid_Parse (wb_parsers W) idStr = Inr (opm_ID m)"
  shows "\<exists>event. rp_status (fst (ServeHTTP W M rq sv)) = 200
    \<and> rp_body (fst (ServeHTTP W M rq sv)) = BEvent event \<and> op_ID event = opm_ID m"
proof -
  note start = NewContainer_start [OF assms(1)]
  have "list_all (quiet (\<lambda>st. writer_inv (st_writer (world st)) \<and> notifier_inv (notifier st))) ts"
    using assms(2) by (auto simp: list_all_iff container_turn_quiet)
  from wired.consumer_keeps [OF start(1) this start(3), of json_err sub]
  have "op_sink.stored (op_pipe (st_writer (sv_stores sv)))"
    by (simp add: assms(3) writer_inv_def)
  then obtain e where e: "get_operational (opm_ID m) (p_table (op_pipe (st_writer (sv_stores sv)))) = Some e"
    using assms(4-6) by (auto simp: op_sink.stored_def op_keyed_def)
  have r: "first_route server_routes (rq_method rq) (rq_path rq) = Some (EGetOperational, [(''id'', idStr)])"
    using operational_path [OF assms(12)] assms(10,11) by simp
  have "opm_ID e = opm_ID m" using e by (auto simp: get_operational_def find_Some_iff)
  then show ?thesis
    using e assms(9,13)
    by (simp add: ServeHTTP_admitted [OF assms(7,8) r] api_endpoint_def GetOperationalEvent_def Param_def FindByID_get
        rendered_def ok_def StatusOK_def ToEventOperationalEntity_def)
qed

definition write_one :: "(uuid \<times> bool) list stores poll_turn" where
  "write_one = (plain_turn (Inl (KafkaError ErrTimedOut [])))\<lparr>t_gap := (\<lambda>n. if n = 0
     then [Work (background_work (WriterTurn (OpTurn 0 (Recv quiet_env)))),
           Work (background_work (WriterTurn (OpTurn 0 (Tick quiet_env))))] else [])\<rparr>"

lemma write_one_container: "container_turn (plain_turn poll)" "container_turn write_one"
proof -
  have "\<exists>b. own_turn b \<and> background_work (WriterTurn (OpTurn i a)) = (background_work b :: (uuid \<times> bool) list stores ingest \<Rightarrow> _)" for i a
    by (rule exI [of _ "WriterTurn (OpTurn i a)"]) simp
  then show "container_turn write_one" by (auto simp: container_turn_def write_one_def split: if_splits)
qed (simp add: container_turn_def plain_turn_def)

theorem written_event_is_served_witness:
  "\<exists>c (m :: EventOperationalModel) event. NewContainer plain_libs (\<lambda>ck. plain_env) plain_conf
       (plain_start\<lparr>s_plants := [zero_EnergyPlantsModel\<lparr>epm_ID := 5\<rparr>]\<rparr>) = Inr c
    \<and> rp_body (fst (ServeHTTP (plain_web\<lparr>wb_parsers := (wb_parsers plain_web)\<lparr>ps_uuid_Parse := (\<lambda>s. Inr (opm_ID m))\<rparr>\<rparr>)
        plain_moment (get_request ''/api/v1/events/operational/e'')
        (server_of (c\<lparr>kafka := snd (ConsumeEvents (\<lambda>b. []) None
           [plain_turn (Inr (plain_message ''events.default'' p5_raw 7)), write_one] (kafka c))\<rparr>)))) = BEvent event"
proof -
  let ?s = "plain_start\<lparr>s_plants := [zero_EnergyPlantsModel\<lparr>epm_ID := 5\<rparr>]\<rparr>"
  let ?m = "plain_message ''events.default'' p5_raw 7" and ?h = "intake_handler plain_libs (\<lambda>ck. plain_env)"
  let ?t = "plain_turn (Inr ?m) :: (uuid \<times> bool) list stores poll_turn"
  obtain c where c: "NewContainer plain_libs (\<lambda>ck. plain_env) plain_conf ?s = Inr c"
      "topicHandlers (kafka c) = [(''events.default'', ?h)]" "\<not> stopClosed (kafka c)"
      "st_plants (world (app (kafka c))) = [zero_EnergyPlantsModel\<lparr>epm_ID := 5\<rparr>]"
      "st_cache (world (app (kafka c))) = Some []"
      "st_writer (world (app (kafka c))) = NewDualEventWriterWithConfig 2 2 True [] []"
    by (simp add: NewContainer_def plain_start_def plain_conf_def envDefaults_def RegisterHandler_def NewKafkaService_def Let_def)
  let ?ks = "log_call (CSubscribe [''events.default''] None) (kafka c)"
  have "fst (exists_in plain_env 5 (world (app (kafka c)))) = Inr True"
    by (simp add: exists_in_def Exists_plant_def plain_env_def list_Get_def plant_count_def zero_EnergyPlantsModel_def c Let_def)
  then have p: "fst (ProcessEvent plain_libs (container_ports plain_env) plain_clock
      (container_service (Some (st_alerts (world (app (kafka c)))))) p5_raw (Some p5_data) (app (kafka c))) = None"
    by (intro wired_accepts [OF p5_info]) (simp_all add: p5_ok c NewDualEventWriterWithConfig_def, simp add: p5_data_def)
  have h: "?h plain_clock p5_raw (app (kafka c)) = ProcessEvent plain_libs (container_ports plain_env) plain_clock
      (container_service (Some (st_alerts (world (app (kafka c)))))) p5_raw (Some p5_data) (app (kafka c))"
    by (simp add: intake_handler_def HandleMessage_def p5_parsed)
  obtain pid et src where w: "st_writer (world (snd (?h plain_clock p5_raw (app (kafka c))))) =
      case_prod enqueue_both (queued_events (buildEventEntities plain_libs plain_clock p5_raw p5_data pid et src))
        (NewDualEventWriterWithConfig 2 2 True [] [])"
    using accepted_is_enqueued [OF p] by (auto simp: h c(6) p5_data_def)
  obtain e1 e2 where e: "queued_events (buildEventEntities plain_libs plain_clock p5_raw p5_data pid et src) = (e1, e2)"
    by (cases "queued_events (buildEventEntities plain_libs plain_clock p5_raw p5_data pid et src)") auto
  have "event_id plain_libs p5_raw p5_data = 1"
    by (simp add: event_id_def p5_data_def str_field_def deterministicID_def plain_libs_def)
  then have "op_ID (oe_entity e1) = 1" "op_CreatedAt (oe_entity e1) = 1"
    using e by (auto simp: queued_events_def deterministic_events plain_clock_def)
  then have k: "op_keyed (op_model e1)"
    by (simp add: op_keyed_def op_model_def ToEventOperationalModel_def zero_time_def Second_def)
  have t: "fst (consume_turn (\<lambda>b. []) ?t 0 ?ks) = Some 0"
    "app (snd (consume_turn (\<lambda>b. []) ?t 0 ?ks)) = snd (?h plain_clock p5_raw (app (kafka c)))"
    "\<not> stopClosed (snd (consume_turn (\<lambda>b. []) ?t 0 ?ks))"
    using handled_turn [of ?t ?m ?ks ?h p5_raw "\<lambda>b. []" 0] p c(2,3)
    by (simp_all add: h plain_turn_def plain_message_def value_bytes_def)
  let ?sv = "server_of (c\<lparr>kafka := snd (ConsumeEvents (\<lambda>b. []) None [?t, write_one] (kafka c))\<rparr>)
      :: ((uuid \<times> bool) list, unit, unit, unit) server"
  have "p_written (op_pipe (st_writer (sv_stores ?sv))) = [op_model e1]"
    using t c(2) w
    by (simp add: ConsumeEvents_def server_of_def e)
      (simp add: consume_turn_def write_one_def plain_turn_def ReadMessage_def prod.case_eq_if on_writer_def run_defs
        copyOperationalBatch_def quiet_env_def Let_def numeral_2_eq_2)
  then have m: "op_model e1 \<in> set (p_written (op_pipe (st_writer (sv_stores ?sv))))" by simp
  let ?W = "plain_web\<lparr>wb_parsers := (wb_parsers plain_web)\<lparr>ps_uuid_Parse := (\<lambda>s. Inr (opm_ID (op_model e1)))\<rparr>\<rparr>"
  have "kafka (sv_container ?sv) = snd (ConsumeEvents (\<lambda>b. []) None [?t, write_one] (kafka c))"
    "list_all container_turn [?t, write_one]" "admitted ?W plain_moment rq ?sv" "dispatches (wb_gin ?W)" for rq
    using write_one_container
    by (simp_all add: server_of_def, simp_all add: admitted_def plain_web_def first_route_dispatches Middleware_def
        getLimiter_def Let_def split: option.split)
  from written_event_is_served [OF c(1) this(2,1) m _ _ this(3,4), where idStr = "''e''"
      and rq = "get_request ''/api/v1/events/operational/e''"] k
  have "\<exists>event. rp_body (fst (ServeHTTP ?W plain_moment (get_request ''/api/v1/events/operational/e'') ?sv)) = BEvent event"
    by (simp add: op_keyed_def get_request_def one_segment_def plain_moment_def) blast
  then show ?thesis using c(1) by (intro exI [of _ c] exI [of _ "op_model e1"]) blast
qed

text \<open>
  Requests are routed as the table says: no path of the API matches two routes, so the answer of
  a request is the same with every dispatcher that sends a request to a route that matches.
\<close>

theorem requests_routed_as_written:
  assumes "dispatches gin" "dispatches gin'"
  shows "ServeHTTP (W\<lparr>wb_gin := gin\<rparr>) M rq sv = ServeHTTP (W\<lparr>wb_gin := gin'\<rparr>) M rq sv"
proof -
  have h: "handle (W\<lparr>wb_gin := g\<rparr>) M e ps rq sv = handle W M e ps rq sv" for g e ps and sv :: "('a, 'b, 'c, 'd) server"
    by (cases e) simp_all
  show ?thesis
    by (auto simp: ServeHTTP_def routed [OF assms(1)] routed [OF assms(2)] h Let_def prod.case_eq_if split: option.split)
qed

text \<open>
  C15. The middleware of the API: an answer of an API route carries the client's request id, or a
  fresh one; its status is 429 exactly when the limiter of the address refuses, and then nothing but
  the limiter has changed; an admitted request is answered by the handler of its route, on the
  state with the updated limiter. The health check is neither limited nor given an id, and changes
  nothing.
\<close>

theorem api_requests_are_limited:
  assumes "dispatches (wb_gin W)" "first_route server_routes (rq_method rq) (rq_path rq) = Some (e, ps)"
    "wb_cors W (AllowOriginFunc (allowedSuffixes (cfg (sv_container sv)))) rq = None"
    "mw = Middleware (wb_rate W) (mo_now M) (rq_ip rq) (sv_limiter sv)"
  shows "(api_endpoint e \<longrightarrow>
      rp_request_id (fst (ServeHTTP W M rq sv)) = Some (if rq_request_id rq = [] then mo_request_id M else rq_request_id rq)
      \<and> sv_limiter (snd (ServeHTTP W M rq sv)) = snd mw
      \<and> (rp_status (fst (ServeHTTP W M rq sv)) = 429 \<longleftrightarrow> fst mw \<noteq> None)
      \<and> (fst mw \<noteq> None \<longrightarrow>
           sv_container (snd (ServeHTTP W M rq sv)) = sv_container sv
           \<and> sv_examples (snd (ServeHTTP W M rq sv)) = sv_examples sv)
      \<and> (fst mw = None \<longrightarrow>
           (rp_status (fst (ServeHTTP W M rq sv)), rp_body (fst (ServeHTTP W M rq sv))) =
             fst (handle W M e ps rq (sv\<lparr>sv_limiter := snd mw\<rparr>))
           \<and> snd (ServeHTTP W M rq sv) = snd (handle W M e ps rq (sv\<lparr>sv_limiter := snd mw\<rparr>))))
    \<and> (e = EHealth \<longrightarrow>
      ServeHTTP W M rq sv =
        (\<lparr>rp_status = fst (HealthCheck (mo_sql_db M) (mo_ping M) (sv_container sv)), rp_request_id = None,
          rp_body = BText (snd (HealthCheck (mo_sql_db M) (mo_ping M) (sv_container sv)))\<rparr>, sv))"
proof -
  have lim: "sv_limiter (snd (handle W M e ps rq sv')) = sv_limiter sv'" for sv' :: "('b, 'c, 'd, 'a) server"
    by (cases e) (simp_all add: Let_def prod.case_eq_if with_examples_def set_shared_def)
  have "ServeHTTP W M rq sv =
      (\<lparr>rp_status = fst (HealthCheck (mo_sql_db M) (mo_ping M) (sv_container sv)), rp_request_id = None,
        rp_body = BText (snd (HealthCheck (mo_sql_db M) (mo_ping M) (sv_container sv)))\<rparr>, sv)" if "e = EHealth"
    using ServeHTTP_other [OF assms(1-3)] that by (simp add: api_endpoint_def reply_of_def prod.case_eq_if)
  moreover have ?thesis if api: "api_endpoint e"
  proof (cases "fst mw")
    case None
    then show ?thesis
      using ServeHTTP_api [OF assms(1-3) api, of M] lim api
      by (auto simp: handle_status [OF api] Let_def request_id_def api_endpoint_def simp flip: assms(4) simp del: handle.simps)
  next
    case (Some r)
    then show ?thesis
      using ServeHTTP_api [OF assms(1-3) api, of M] Middleware_refusal [of "wb_rate W" "mo_now M" "rq_ip rq" "sv_limiter sv" r] api
      by (auto simp: Let_def request_id_def rendered_def api_endpoint_def simp flip: assms(4) simp del: handle.simps)
  qed
  ultimately show ?thesis by (cases "api_endpoint e") auto
qed

theorem api_requests_are_limited_witness:
  "\<forall>c :: ((uuid \<times> bool) list, unit, unit) Container.
     rp_request_id (fst (ServeHTTP plain_web plain_moment (get_request ''/api/v1/plants/status/p'') (server_of c))) = Some ''r1''"
proof
  fix c :: "((uuid \<times> bool) list, unit, unit) Container"
  show "rp_request_id (fst (ServeHTTP plain_web plain_moment (get_request ''/api/v1/plants/status/p'') (server_of c)))
      = Some ''r1''"
    using api_requests_are_limited [of plain_web "get_request ''/api/v1/plants/status/p''" EGetStatus "[(''id'', ''p'')]"
        "server_of c" _ plain_moment] status_path [of "''p''"]
    by (simp add: get_request_def one_segment_def api_endpoint_def plain_moment_def) (simp add: plain_web_def)
qed

end
