(* ===== verification/Service.thy ===== *)
theory Service
  imports Router
begin

text \<open>
  The whole program, \<open>main.go\<close>: the start, step by step with an exit at the first failure, and the
  running service as a system of steps in which the consumer, the goroutines, the HTTP requests, the
  coordinator's jobs and the shutdown interleave in any order.
\<close>

section \<open>Start\<close>

text \<open>
  What \<open>main\<close> finds when it starts: the environment, the database, the file system, and a
  database to construct the container on. The broker's clients are built from the settings.
\<close>

record ('c, 'b, 'w) host =
  h_config :: "goerr + Config"
  h_db_settings :: "goerr + DBSettings"
  h_open_db :: "string \<Rightarrow> goerr option"
  h_sql_db :: "goerr option"
  h_stat :: "string \<Rightarrow> stat_result"
  h_getwd :: "goerr + string list"
  h_dialect :: "goerr option"
  h_goose_up :: "string \<Rightarrow> goerr option"
  h_count_fault :: "goerr option"
  h_read_file :: "string \<Rightarrow> goerr + string"
  h_exec :: "string \<Rightarrow> EnergyPlantsModel list \<Rightarrow> goerr + EnergyPlantsModel list"
  h_producer :: "(string \<times> kafka_value) list \<Rightarrow> goerr option"
  h_consumer :: "(string \<times> kafka_value) list \<Rightarrow> goerr option"
  h_start :: "('c, 'b, 'w) start"

definition NewKafkaAdapter ::
  "((string \<times> kafka_value) list \<Rightarrow> goerr option) \<Rightarrow> ((string \<times> kafka_value) list \<Rightarrow> goerr option)
   \<Rightarrow> KafkaFactory \<Rightarrow> string \<Rightarrow> goerr option" where
  "NewKafkaAdapter NewProducer NewConsumer factory groupID =
     (case NewProducer (producer_config factory) of
        Some err \<Rightarrow> Some err
      | None \<Rightarrow> NewConsumer (consumer_config factory groupID))"

text \<open>The exit status, or the service that serves.\<close>

definition boot ::
  "libs \<Rightarrow> (clock \<Rightarrow> 'c store_env) \<Rightarrow> ('c, 'b, 'w) host \<Rightarrow> int + ('c, 'b, 'w, 'l) server" where
  "boot L E H =
     (case h_config H of
        Inl err \<Rightarrow> Inl 1
      | Inr conf \<Rightarrow>
          (case SetupDatabasePsql (h_db_settings H) (h_open_db H) (h_sql_db H) of
             Inl err \<Rightarrow> Inl 1
           | Inr dbConn \<Rightarrow>
               (if fst (PerformMigrations (h_stat H) (h_getwd H) (h_sql_db H) (h_dialect H) (h_goose_up H)) \<noteq> None
                then Inl 1
                else
                  (case SeedDB (h_count_fault H) (h_read_file H) (h_exec H) ''./db'' (s_plants (h_start H)) of
                     (Some err, plants) \<Rightarrow> Inl 1
                   | (None, plants) \<Rightarrow>
                       (let kafkaBrokers = Split (ListKafkaBrokers conf) (CHR '','');
                            broker = NewKafkaAdapter (h_producer H) (h_consumer H)
                                      (NewKafkaFactory kafkaBrokers ''latest'') (ConsumeGroup conf)
                        in case NewContainer L E conf ((h_start H)\<lparr>s_plants := plants, s_kafka := broker\<rparr>) of
                             Inl err \<Rightarrow> Inl 1
                           | Inr c \<Rightarrow>
                               Inr \<lparr>sv_container = c, sv_examples = [], sv_limiter = NewRateLimiter\<rparr>)))))"

section \<open>The running service\<close>

text \<open>
  \<open>main\<close> serves until a signal; then \<open>Shutdown\<close> stops the consumer and the writer and waits for the
  writer's workers, stops the alert rules and the notifier and waits for the notifier's worker,
  closes the database, and the HTTP server, which has served all the while, is closed last.
\<close>

datatype phase = Serving | StoppingWriter | StoppingNotifier | ClosingServer | Exited_main

record ('c, 'b, 'w, 'l) service =
  phase :: phase
  consumer :: "nat option"  \<comment> \<open>the connection errors so far, while the consumer's loop runs\<close>
  server :: "('c, 'b, 'w, 'l) server"

abbreviation set_container ::
  "('c, 'b, 'w) Container \<Rightarrow> ('c, 'b, 'w, 'l) service \<Rightarrow> ('c, 'b, 'w, 'l) service" where
  "set_container c s \<equiv> s\<lparr>server := (server s)\<lparr>sv_container := c\<rparr>\<rparr>"

abbreviation shared :: "('c, 'b, 'w, 'l) service \<Rightarrow> 'c stores ingest" where
  "shared s \<equiv> app (kafka (sv_container (server s)))"

definition set_app :: "'c stores ingest \<Rightarrow> ('c, 'b, 'w) Container \<Rightarrow> ('c, 'b, 'w) Container" where
  "set_app st c = c\<lparr>kafka := (kafka c)\<lparr>app := st\<rparr>\<rparr>"

definition start_service :: "('c, 'b, 'w, 'l) server \<Rightarrow> ('c, 'b, 'w, 'l) service" where
  "start_service sv = \<lparr>phase = Serving, consumer = Some 0, server = sv\<rparr>"

text \<open>
  The coordinator's jobs run on the tables of the service: the analytical events the writer's workers
  wrote, and the plants.
\<close>

abbreviation coordinator_of :: "('c, 'b, 'w, 'l) service \<Rightarrow> ('b, 'w) AnalyticsCoordinator" where
  "coordinator_of s \<equiv> coordinator (sv_container (server s))"

definition on_tables :: "'c stores \<Rightarrow> ('b, 'w) AnalyticsCoordinator \<Rightarrow> ('b, 'w) AnalyticsCoordinator" where
  "on_tables w c = c\<lparr>db := (db c)\<lparr>events_ts := p_table (an_pipe (st_writer w)), energy_plants := st_plants w\<rparr>\<rparr>"

text \<open>The goroutines; the steps of the writer's \<open>Stop\<close> belong to \<open>Shutdown\<close> here.\<close>

fun goroutine :: "background \<Rightarrow> bool" where
  "goroutine (WriterTurn (OpTurn i t)) \<longleftrightarrow> True"
| "goroutine (WriterTurn (AnTurn i t)) \<longleftrightarrow> True"
| "goroutine (WriterTurn a) \<longleftrightarrow> False"
| "goroutine _ \<longleftrightarrow> True"

definition service_turn :: "'c stores poll_turn \<Rightarrow> bool" where
  "service_turn t \<longleftrightarrow> (\<forall>n g. Work g \<in> set (t_gap t n) \<longrightarrow> (\<exists>b. goroutine b \<and> g = background_work b))"

inductive service_step ::
  "(bytes \<Rightarrow> string) \<Rightarrow> ('c, 'b, 'w, 'l) service \<Rightarrow> ('c, 'b, 'w, 'l) service \<Rightarrow> bool" for json_err where
  consume: "phase s \<noteq> Exited_main \<Longrightarrow> consumer s = Some n \<Longrightarrow> service_turn t
    \<Longrightarrow> consume_turn json_err t n (kafka (sv_container (server s))) = (n', ks)
    \<Longrightarrow> service_step json_err s (set_container ((sv_container (server s))\<lparr>kafka := ks\<rparr>) (s\<lparr>consumer := n'\<rparr>))"
| run: "phase s \<noteq> Exited_main \<Longrightarrow> goroutine b
    \<Longrightarrow> service_step json_err s
          (set_container (set_app (background_work b (shared s)) (sv_container (server s))) s)"
| request: "phase s \<noteq> Exited_main \<Longrightarrow> service_step json_err s (s\<lparr>server := snd (ServeHTTP W M rq (server s))\<rparr>)"
| aggregate: "phase s \<noteq> Exited_main \<Longrightarrow> \<not> AnalyticsCoordinator.stopChan_closed (coordinator_of s)
    \<Longrightarrow> c = doAggregation G cy (on_tables (world (shared s)) (coordinator_of s))
    \<Longrightarrow> distinct (map wqm_ID (webhook_queue (db c)))
    \<Longrightarrow> service_step json_err s (set_container ((sv_container (server s))\<lparr>coordinator := c\<rparr>) s)"
| dispatch: "phase s \<noteq> Exited_main \<Longrightarrow> \<not> AnalyticsCoordinator.stopChan_closed (coordinator_of s)
    \<Longrightarrow> doDispatch W us cy (on_tables (world (shared s)) (coordinator_of s)) = Some c
    \<Longrightarrow> \<forall>n. it_meanwhile (cy_items cy n) = with_primary_key
          (\<lambda>d. snd (RecalculateDirtyBuckets (G n) (fault n) (now n) (fresh n) (window n) d))
    \<Longrightarrow> service_step json_err s (set_container ((sv_container (server s))\<lparr>coordinator := c\<rparr>) s)"
| signal: "phase s = Serving \<Longrightarrow> Shutdown_begin (sv_container (server s)) = Some c
    \<Longrightarrow> service_step json_err s (set_container c (s\<lparr>phase := StoppingWriter\<rparr>))"
| writer_stopped: "phase s = StoppingWriter \<Longrightarrow> Stop_returned (st_writer (world (shared s)))
    \<Longrightarrow> Shutdown_rest (sv_container (server s)) = Some c
    \<Longrightarrow> service_step json_err s (set_container c (s\<lparr>phase := StoppingNotifier\<rparr>))"
| notifier_stopped: "phase s = StoppingNotifier \<Longrightarrow> n_workerDone (notifier (shared s))
    \<Longrightarrow> service_step json_err s
          (set_container (Shutdown_end sql_db (set_app ((shared s)\<lparr>notifier := (notifier (shared s))\<lparr>n_phase := Waited\<rparr>\<rparr>)
             (sv_container (server s)))) (s\<lparr>phase := ClosingServer\<rparr>))"
| closed: "phase s = ClosingServer \<Longrightarrow> service_step json_err s (s\<lparr>phase := Exited_main\<rparr>)"

inductive service_reach ::
  "(bytes \<Rightarrow> string) \<Rightarrow> ('c, 'b, 'w, 'l) server \<Rightarrow> ('c, 'b, 'w, 'l) service \<Rightarrow> bool" for json_err sv where
  started: "service_reach json_err sv (start_service sv)"
| stepped: "service_reach json_err sv s \<Longrightarrow> service_step json_err s s' \<Longrightarrow> service_reach json_err sv s'"

inductive_cases service_stepE: "service_step json_err s s'"
inductive_simps service_step_exited: "service_step json_err (s\<lparr>phase := Exited_main\<rparr>) s'"

section \<open>What each phase guarantees of the shared state\<close>

text \<open>The writer's workers are gone, and the rules and the notifier are stopped, once Shutdown waited for the writer.\<close>

definition late :: "phase \<Rightarrow> bool" where
  "late p \<longleftrightarrow> p \<notin> {Serving, StoppingWriter}"

definition writer_phase :: "phase \<Rightarrow> DualEventWriter \<Rightarrow> bool" where
  "writer_phase p w \<longleftrightarrow>
     writer_inv w \<and> workers_up w \<and> (stopping w \<longleftrightarrow> p \<noteq> Serving)
     \<and> (DualEventWriter.stopChan_closed w \<longleftrightarrow> p \<noteq> Serving) \<and> (late p \<longrightarrow> Stop_returned w)"

definition notifier_phase :: "phase \<Rightarrow> Notifier \<Rightarrow> bool" where
  "notifier_phase p n \<longleftrightarrow>
     notifier_inv n
     \<and> n_phase n = (if \<not> late p then NotStopped else if p = StoppingNotifier then Closed else Waited)"

definition phase_inv :: "phase \<Rightarrow> 'c stores ingest \<Rightarrow> bool" where
  "phase_inv p st \<longleftrightarrow>
     writer_phase p (st_writer (world st)) \<and> notifier_phase p (notifier st)
     \<and> (stopCh_closed (st_alerts (world st)) \<longleftrightarrow> late p)"

interpretation notifier_in: notifier_contract "notifier_phase p" for p
  by unfold_locales (auto simp: notifier_phase_def enqueue_inv phase_notifier.enqueue_keeps)

lemma handler_alerts:
  "st_alerts (world (snd (intake_handler L E ck raw st))) = st_alerts (world st)"
proof -
  have f: "st_alerts (snd (exists_in E uid w)) = st_alerts w" "st_alerts (snd (save_async_in E op an w)) = st_alerts w"
    "st_alerts (snd (upsert_in E status w)) = st_alerts w" for E :: "'a store_env" and uid w op an status
    by (simp_all add: exists_in_def save_async_in_def upsert_in_def Let_def prod.case_eq_if)
  have "st_alerts (world (snd (ProcessEvent L (container_ports E) ck (container_service ev) payload data st)))
      = st_alerts (world st)" for E :: "'a store_env" and ev payload data
  proof (cases "data = None \<or> data = Some []")
    case False
    then obtain d where d: "data = Some d" "d \<noteq> []" by auto
    show ?thesis
      using ProcessEvent_stages [OF d(2), of L "container_ports E" ck "container_service ev" payload st]
      by (auto simp: d(1) Let_def save_def upserted_def f split: sum.splits option.splits prod.splits)
  qed auto
  then show ?thesis by (auto simp: intake_handler_def HandleMessage_def split: sum.split)
qed

lemma enqueue_both_workers [simp]: "workers_up (enqueue_both e1 e2 w) = workers_up w"
  by (simp add: workers_up_def)

lemma handler_phase:
  assumes "phase_inv p st"
  shows "phase_inv p (snd (intake_handler L E ck raw st))"
proof -
  let ?w = "st_writer (world (snd (intake_handler L E ck raw st)))"
  have "writer_phase p ?w"
  proof (cases "fst (intake_handler L E ck raw st)")
    case None
    from handler_accepts [OF this] obtain e1 e2 where
        "\<not> stopping (st_writer (world st))" "?w = enqueue_both e1 e2 (st_writer (world st))"
      by blast
    then show ?thesis
      using assms enqueue_both_inv [of "st_writer (world st)" e1 e2]
      by (simp add: phase_inv_def writer_phase_def late_def)
  next
    case (Some e)
    from handler_rejects [OF this] show ?thesis using assms by (simp add: phase_inv_def)
  qed
  moreover have "notifier_phase p (notifier (snd (intake_handler L E ck raw st)))"
    using assms unfolding intake_handler_def by (intro notifier_in.HandleMessage_keeps) (simp add: phase_inv_def)
  ultimately show ?thesis using assms by (simp add: phase_inv_def handler_alerts)
qed

interpretation in_phase: message_handlers "[(topic, intake_handler L E)]" "phase_inv p"
  for topic :: string and L :: libs and E :: "clock \<Rightarrow> 'c store_env" and p :: phase
  by unfold_locales (auto intro: handler_phase, simp add: phase_inv_def Inc_def)

lemma writer_turn_phase:
  assumes "writer_phase p w" "act a w = Some w'" "goroutine (WriterTurn a)"
  shows "writer_phase p w'"
proof -
  have step: "writer_step w w'" by (rule act_step [OF assms(2)])
  have f: "stopping w' = stopping w" "DualEventWriter.stopChan_closed w' = DualEventWriter.stopChan_closed w"
    using assms(2,3) by (cases a; auto)+
  have r: "\<not> Stop_returned w"
    using assms(2,3)
    by (cases a) (auto simp: Stop_returned_def operationalWorker_def analyticalWorker_def exited_no_turn)
  have "workers_up w'"
    using writer_step_count [OF step] assms(1) unfolding writer_phase_def workers_up_def by (metis length_0_conv)
  then show ?thesis
    using assms(1) writer_step_inv [OF step] f r by (simp add: writer_phase_def)
qed

lemma background_phase:
  assumes "phase_inv p st" "goroutine b"
  shows "phase_inv p (background_work b st)"
proof (cases b)
  case (WriterTurn a)
  then show ?thesis
    using assms writer_turn_phase [of p "st_writer (world st)" a]
    by (auto simp: phase_inv_def on_writer_def split: option.split)
next
  case (NotifierTurn post)
  have "n_phase (snd (worker_turn post n)) = n_phase n" for n
    by (simp add: worker_turn_def split: list.split)
  then show ?thesis
    using assms worker_turn_inv by (auto simp: NotifierTurn phase_inv_def notifier_phase_def)
next
  case (Reload found)
  have "reload_turn found al = Some al' \<Longrightarrow> stopCh_closed al' = stopCh_closed al" for al al'
    by (auto simp: reload_turn_def split: if_splits sum.splits)
  then show ?thesis using assms by (auto simp: Reload phase_inv_def split: option.split)
qed (use assms in \<open>simp add: phase_inv_def add_plant_def\<close>)

lemma TestIntake_frame [simp]:
  "st_writer (fst (snd (TestIntake bind S stamp (exists_in E) body w n))) = st_writer w"
  "st_alerts (fst (snd (TestIntake bind S stamp (exists_in E) body w n))) = st_alerts w"
  by (auto simp: TestIntake_def Let_def prod.case_eq_if exists_in_def split: sum.split bool.split)

lemma request_phase:
  assumes "phase_inv p (app (kafka (sv_container sv)))"
  shows "phase_inv p (app (kafka (sv_container (snd (ServeHTTP W M rq sv)))))"
proof -
  have h: "phase_inv p (app (kafka (sv_container (snd (handle W M e ps rq sv')))))"
    if "sv_container sv' = sv_container sv" for e ps sv'
  proof (cases "e = ETestIntake")
    case True
    let ?t = "TestIntake (wb_intake W) (wb_parsers W) (mo_stamp M) (exists_in (mo_stores M)) (rq_body rq)
        (world (app (kafka (sv_container sv)))) (notifier (app (kafka (sv_container sv))))"
    have "notifier_phase p (snd (snd ?t))"
      using assms by (intro notifier_in.TestIntake_keeps) (simp add: phase_inv_def)
    then show ?thesis
      using assms that
      by (simp add: True set_shared_def Let_def prod.case_eq_if phase_inv_def)
  next
    case False
    have "sv_container (snd (handle W M e ps rq sv')) = sv_container sv'"
      using False by (cases e) (simp_all add: Let_def prod.case_eq_if with_examples_def)
    then show ?thesis using assms that by simp
  qed
  show ?thesis
    using assms h
    by (auto simp: ServeHTTP_def Let_def prod.case_eq_if split: option.split)
qed

section \<open>The service keeps its invariant\<close>

text \<open>Every accepted call is an accepted event, in both pipelines.\<close>

definition tallied :: "'c stores KafkaService \<Rightarrow> bool" where
  "tallied ks \<longleftrightarrow>
     accepted_calls ks = length (p_accepted (op_pipe (st_writer (world (app ks)))))
     \<and> accepted_calls ks = length (p_accepted (an_pipe (st_writer (world (app ks)))))"

definition service_inv :: "libs \<Rightarrow> (clock \<Rightarrow> 'c store_env) \<Rightarrow> ('c, 'b, 'w, 'l) service \<Rightarrow> bool" where
  "service_inv L E s \<longleftrightarrow>
     (\<exists>topic. topicHandlers (kafka (sv_container (server s))) = [(topic, intake_handler L E)])
     \<and> phase_inv (phase s) (shared s) \<and> tallied (kafka (sv_container (server s)))"

lemma service_turn_calm:
  assumes "service_turn t"
  shows "quiet (phase_inv p) t"
    "steady (\<lambda>st. length (p_accepted (op_pipe (st_writer (world st))))) t"
    "steady (\<lambda>st. length (p_accepted (an_pipe (st_writer (world st))))) t"
proof -
  have w: "\<exists>b. goroutine b \<and> own_turn b \<and> g = background_work b" if "Work g \<in> set (t_gap t n)" for g n
  proof -
    obtain b where "goroutine b" "g = background_work b" using assms \<open>Work g \<in> set (t_gap t n)\<close> unfolding service_turn_def by blast
    moreover from this(1) have "own_turn b" by (cases b rule: goroutine.cases) auto
    ultimately show ?thesis by blast
  qed
  show "quiet (phase_inv p) t" unfolding quiet_def using w background_phase by metis
  show "steady (\<lambda>st. length (p_accepted (op_pipe (st_writer (world st))))) t"
    unfolding steady_def using w background_accepted(1) by metis
  show "steady (\<lambda>st. length (p_accepted (an_pipe (st_writer (world st))))) t"
    unfolding steady_def using w background_accepted(2) by metis
qed

lemma request_tallied:
  "topicHandlers (kafka (sv_container (snd (ServeHTTP W M rq sv)))) = topicHandlers (kafka (sv_container sv))
   \<and> tallied (kafka (sv_container (snd (ServeHTTP W M rq sv)))) = tallied (kafka (sv_container sv))"
proof -
  have h: "topicHandlers (kafka (sv_container (snd (handle W M e ps rq sv')))) = topicHandlers (kafka (sv_container sv'))
      \<and> tallied (kafka (sv_container (snd (handle W M e ps rq sv')))) = tallied (kafka (sv_container sv'))"
    for e ps and sv' :: "('a, 'b, 'c, 'd) server"
    by (cases e) (simp_all add: Let_def prod.case_eq_if with_examples_def set_shared_def tallied_def accepted_calls_def)
  show ?thesis
    using h by (auto simp: ServeHTTP_def Let_def prod.case_eq_if split: option.split)
qed

lemma consume_inv:
  assumes "topicHandlers ks = [(topic, intake_handler L E)]" "service_turn t" "phase_inv p (app ks)" "tallied ks"
    "consume_turn json_err t n ks = (n', ks')"
  shows "topicHandlers ks' = [(topic, intake_handler L E)]" "phase_inv p (app ks')" "tallied ks'"
proof -
  have ks': "ks' = snd (consume_turn json_err t n ks)" using assms(5) by simp
  show "topicHandlers ks' = [(topic, intake_handler L E)]" using assms(1) by (simp add: ks')
  show "phase_inv p (app ks')"
    using in_phase.keeps.turn_related [OF assms(1) in_phase.quiet_calm [OF service_turn_calm(1) [OF assms(2)]],
        of p json_err n] assms(3)
    by (simp add: ks' in_phase.keeps.related_def)
  show "tallied ks'"
    using op_counted.counts.turn_related [OF assms(1) op_counted.steady_calm [OF service_turn_calm(2) [OF assms(2)]],
        of json_err n]
      an_counted.counts.turn_related [OF assms(1) an_counted.steady_calm [OF service_turn_calm(3) [OF assms(2)]],
        of json_err n]
      assms(4)
    by (simp add: ks' tallied_def accepted_calls_def op_counted.counts.related_def an_counted.counts.related_def
        op_counted.balance_def an_counted.balance_def)
qed

lemma StopConsuming_frame [simp, frame]:
  "app (StopConsuming ks) = app ks" "topicHandlers (StopConsuming ks) = topicHandlers ks"
  "calls (StopConsuming ks) = calls ks"
  by (simp_all add: StopConsuming_def StopConsuming_cancel_def StopConsuming_close_def)

lemma Shutdown_begin_inv:
  assumes "Shutdown_begin c = Some c'" "phase_inv Serving (app (kafka c))"
  shows "phase_inv StoppingWriter (app (kafka c'))" "topicHandlers (kafka c') = topicHandlers (kafka c)"
    "tallied (kafka c') = tallied (kafka c)"
proof -
  have i: "writer_inv w \<Longrightarrow> writer_inv (w\<lparr>stopping := True, DualEventWriter.stopChan_closed := True\<rparr>)" for w
    by (simp add: writer_inv_def)
  show "phase_inv StoppingWriter (app (kafka c'))"
    using assms i [of "st_writer (world (app (kafka c)))"]
    by (auto simp: Shutdown_begin_def Let_def Stop_close_def Stop_flag_def phase_inv_def writer_phase_def late_def
        notifier_phase_def workers_up_def on_writer_def split: option.splits if_splits)
  show "topicHandlers (kafka c') = topicHandlers (kafka c)" "tallied (kafka c') = tallied (kafka c)"
    using assms(1)
    by (auto simp: Shutdown_begin_def Let_def Stop_close_def Stop_flag_def tallied_def accepted_calls_def
        split: option.splits if_splits)
qed

lemma Shutdown_begin_runs: "phase_inv Serving (app (kafka c)) \<Longrightarrow> Shutdown_begin c \<noteq> None"
  by (auto simp: Shutdown_begin_def Let_def Stop_close_def Stop_flag_def phase_inv_def writer_phase_def)

lemma Shutdown_rest_inv:
  assumes "Shutdown_rest c = Some c'" "phase_inv StoppingWriter (app (kafka c))"
    "Stop_returned (st_writer (world (app (kafka c))))"
  shows "phase_inv StoppingNotifier (app (kafka c'))" "topicHandlers (kafka c') = topicHandlers (kafka c)"
    "tallied (kafka c') = tallied (kafka c)"
  using assms
  by (auto simp: Shutdown_rest_def Let_def Stop_alerts_def phase_inv_def writer_phase_def late_def notifier_phase_def
      notifier_inv_def tallied_def accepted_calls_def split: option.splits if_splits)

lemma service_step_inv:
  assumes "service_step json_err s s'" "service_inv L E s"
  shows "service_inv L E s'"
  using assms(1)
proof (cases rule: service_step.cases)
  case (consume n t n' ks)
  obtain topic where t: "topicHandlers (kafka (sv_container (server s))) = [(topic, intake_handler L E)]"
    using assms(2) by (auto simp: service_inv_def)
  have i: "phase_inv (phase s) (shared s)" "tallied (kafka (sv_container (server s)))"
    using assms(2) by (simp_all add: service_inv_def)
  show ?thesis
    using consume_inv [OF t consume(4) i consume(5)] by (simp add: consume(1) service_inv_def)
next
  case (run b)
  have "own_turn b" using run(3) by (cases b rule: goroutine.cases) auto
  then show ?thesis
    using assms(2) background_phase [OF _ run(3)] background_accepted [of b "shared s"]
    by (auto simp: run(1) service_inv_def set_app_def tallied_def accepted_calls_def)
next
  case (request W M rq)
  then show ?thesis
    using assms(2) request_phase [of "phase s" "server s" W M rq] request_tallied [of W M rq "server s"]
    by (auto simp: service_inv_def)
next
  case aggregate
  then show ?thesis using assms(2) by (simp add: service_inv_def)
next
  case dispatch
  then show ?thesis using assms(2) by (simp add: service_inv_def)
next
  case (signal c)
  then show ?thesis using assms(2) Shutdown_begin_inv [OF signal(3)] by (auto simp: service_inv_def)
next
  case (writer_stopped c)
  then show ?thesis using assms(2) Shutdown_rest_inv [OF writer_stopped(4)] by (auto simp: service_inv_def)
next
  case (notifier_stopped sql_db)
  have "n_phase (notifier (shared s)) = Closed" "notifier_inv (notifier (shared s))"
    using assms(2) notifier_stopped(2) by (auto simp: service_inv_def phase_inv_def notifier_phase_def late_def)
  then have "notifier_inv ((notifier (shared s))\<lparr>n_phase := Waited\<rparr>)"
    using notifier_stopped(3) by (simp add: notifier_inv_def)
  then show ?thesis
    using assms(2) notifier_stopped(2)
    by (auto simp: notifier_stopped(1) service_inv_def set_app_def Shutdown_end_def phase_inv_def writer_phase_def late_def
        notifier_phase_def tallied_def accepted_calls_def split: option.split)
next
  case closed
  then show ?thesis
    using assms(2) by (auto simp: service_inv_def phase_inv_def writer_phase_def late_def notifier_phase_def)
qed

lemma NewContainer_fresh:
  assumes "NewContainer L E conf st = Inr c"
  shows "workers_up (st_writer (world (app (kafka c))))" "\<not> stopping (st_writer (world (app (kafka c))))"
    "\<not> DualEventWriter.stopChan_closed (st_writer (world (app (kafka c))))"
    "\<not> stopCh_closed (st_alerts (world (app (kafka c))))" "n_phase (notifier (app (kafka c))) = NotStopped"
  using assms
  by (auto simp: NewContainer_def Let_def RegisterHandler_def NewKafkaService_def workers_up_def
      NewDualEventWriterWithConfig_def new_pipe_def NewAlertEvaluationService_def NewNotifier_def
      split: option.splits sum.splits)

lemma boot_inv:
  assumes "boot L E H = Inr sv"
  shows "service_inv L E (start_service sv)"
proof -
  obtain conf st where c: "NewContainer L E conf st = Inr (sv_container sv)"
    using assms by (auto simp: boot_def Let_def split: sum.splits prod.splits option.splits if_splits)
  note start = NewContainer_start [OF c]
  from NewContainer_fresh [OF c]
  show ?thesis
    using start
    by (simp add: service_inv_def start_service_def phase_inv_def writer_phase_def notifier_phase_def late_def
        tallied_def accepted_calls_def)
qed

lemma service_reach_inv:
  "service_reach json_err sv s \<Longrightarrow> boot L E H = Inr sv \<Longrightarrow> service_inv L E s"
  by (induction rule: service_reach.induct) (auto intro: boot_inv service_step_inv)

section \<open>The coordinator beside the service\<close>

definition coordinator_inv :: "('c, 'b, 'w, 'l) service \<Rightarrow> bool" where
  "coordinator_inv s \<longleftrightarrow>
     attempts_ok 5 [] (db (coordinator_of s)) \<and> distinct (map wqm_ID (webhook_queue (db (coordinator_of s))))
     \<and> MaxWebhookAttempts (config (coordinator_of s)) = 5 \<and> LookbackWindow (config (coordinator_of s)) = 10 * Minute
     \<and> (AnalyticsCoordinator.stopChan_closed (coordinator_of s) \<longleftrightarrow> phase s \<noteq> Serving)"

definition sound_queue :: "analytics_db \<Rightarrow> bool" where
  "sound_queue d \<longleftrightarrow> attempts_ok 5 [] d \<and> distinct (map wqm_ID (webhook_queue d))"

lemma on_tables_simps [simp]:
  "config (on_tables w c) = config c" "AnalyticsCoordinator.stopChan_closed (on_tables w c) = AnalyticsCoordinator.stopChan_closed c"
  "webhook_queue (db (on_tables w c)) = webhook_queue (db c)" "locks (on_tables w c) = locks c"
  "events_ts (db (on_tables w c)) = p_table (an_pipe (st_writer w))"
  "attempts_ok mx whs (db (on_tables w c)) = attempts_ok mx whs (db c)"
  by (simp_all add: on_tables_def attempts_ok_def)

lemma handle_coordinator: "coordinator (sv_container (snd (handle W M e ps rq sv))) = coordinator (sv_container sv)"
  by (cases e) (simp_all add: Let_def prod.case_eq_if with_examples_def set_shared_def)

lemma request_coordinator:
  "coordinator (sv_container (snd (ServeHTTP W M rq sv))) = coordinator (sv_container sv)"
  by (auto simp: ServeHTTP_def Let_def prod.case_eq_if handle_coordinator split: option.split)

lemma Shutdown_coordinator:
  "Shutdown_begin c = Some c' \<Longrightarrow> coordinator c' = Stop_coordinator (coordinator c)"
  "Shutdown_rest c = Some c' \<Longrightarrow> coordinator c' = coordinator c"
  "coordinator (Shutdown_end sql_db c) = coordinator c"
  by (auto simp: Shutdown_begin_def Shutdown_rest_def Shutdown_end_def Let_def split: option.splits)

lemma dispatch_runs:
  assumes "coordinator_inv s"
    "\<forall>n. it_meanwhile (cy_items cy n) = with_primary_key
          (\<lambda>d. snd (RecalculateDirtyBuckets (G n) (fault n) (now n) (fresh n) (window n) d))"
  shows "\<exists>c. doDispatch W us cy (on_tables w (coordinator_of s)) = Some c \<and> attempts_ok 5 [] (db c)"
proof -
  have "attempts_ok (MaxWebhookAttempts (config (on_tables w (coordinator_of s)))) [] (db (on_tables w (coordinator_of s)))"
    "0 \<le> MaxWebhookAttempts (config (on_tables w (coordinator_of s)))"
    "MaxWebhookAttempts (config (on_tables w (coordinator_of s))) \<le> 58"
    "distinct (map wqm_ID (webhook_queue (db (on_tables w (coordinator_of s)))))"
    using assms(1) by (simp_all add: coordinator_inv_def)
  from other_replicas.doDispatch_attempts [OF this assms(2)] show ?thesis
    using assms(1) by (simp add: coordinator_inv_def)
qed

lemma service_step_coordinator:
  assumes "service_step json_err s s'" "coordinator_inv s"
  shows "coordinator_inv s'"
  using assms(1)
proof (cases rule: service_step.cases)
  case (request W M rq)
  then show ?thesis using assms(2) request_coordinator [of W M rq "server s"] by (simp add: coordinator_inv_def)
next
  case (aggregate c G cy)
  then show ?thesis
    using assms(2) doAggregation_db(2,3) [of G cy "on_tables (world (shared s)) (coordinator_of s)"]
      doAggregation_attempts [of 5 "on_tables (world (shared s)) (coordinator_of s)" G cy]
    by (simp add: coordinator_inv_def)
next
  case (dispatch W us cy c G fault now fresh window)
  from dispatch_runs [OF assms(2) dispatch(5), of W us "world (shared s)"] dispatch(4) have "attempts_ok 5 [] (db c)" by simp
  moreover from other_replicas.doDispatch_same [OF dispatch(4,5)] have
      "config c = config (coordinator_of s)"
      "AnalyticsCoordinator.stopChan_closed c = AnalyticsCoordinator.stopChan_closed (coordinator_of s)"
      "distinct (map wqm_ID (webhook_queue (db (coordinator_of s)))) \<longrightarrow> distinct (map wqm_ID (webhook_queue (db c)))"
    by (simp_all add: other_replicas.same_run_def)
  ultimately show ?thesis using assms(2) by (simp add: coordinator_inv_def dispatch(1))
qed (use assms(2) in \<open>auto simp: coordinator_inv_def set_app_def Stop_coordinator_def Shutdown_coordinator\<close>)

lemma NewContainer_coordinator:
  "NewContainer L E conf st = Inr c \<Longrightarrow>
    coordinator c = NewAnalyticsCoordinator (s_analytics st) (s_locks st) (s_web st) (coordinator_config conf)"
  by (auto simp: NewContainer_def Let_def split: option.splits)

lemma boot_coordinator:
  assumes "boot L E H = Inr sv" "sound_queue (s_analytics (h_start H))"
  shows "coordinator_inv (start_service sv)"
proof -
  obtain conf st where c: "NewContainer L E conf st = Inr (sv_container sv)" "s_analytics st = s_analytics (h_start H)"
    using assms(1) by (auto simp: boot_def Let_def split: sum.splits prod.splits option.splits if_splits)
  then show ?thesis
    using assms(2) NewContainer_coordinator [OF c(1)]
    by (simp add: NewAnalyticsCoordinator_def Let_def coordinator_config_def coordinator_inv_def sound_queue_def start_service_def)
qed

lemma service_reach_coordinator:
  "service_reach json_err sv s \<Longrightarrow> boot L E H = Inr sv \<Longrightarrow> sound_queue (s_analytics (h_start H)) \<Longrightarrow> coordinator_inv s"
  by (induction rule: service_reach.induct) (auto intro: boot_coordinator service_step_coordinator)

section \<open>A shutdown can always go on\<close>

text \<open>Several turns of goroutines, in any phase but the last.\<close>

lemma goroutines_run:
  assumes "phase s \<noteq> Exited_main" "list_all goroutine bs"
  shows "\<exists>c. (service_step json_err)\<^sup>*\<^sup>* s (set_container c s)
    \<and> app (kafka c) = foldl (\<lambda>st b. background_work b st) (shared s) bs"
  using assms
proof (induction bs arbitrary: s)
  case Nil
  then show ?case by (intro exI [of _ "sv_container (server s)"]) simp
next
  case (Cons b bs)
  let ?s = "set_container (set_app (background_work b (shared s)) (sv_container (server s))) s"
  have "service_step json_err s ?s" using Cons.prems by (intro service_step.run) simp_all
  then show ?case
    using Cons.IH [of ?s] Cons.prems by (auto simp: set_app_def intro: converse_rtranclp_into_rtranclp)
qed

lemma reach_steps:
  "(service_step json_err)\<^sup>*\<^sup>* s s' \<Longrightarrow> service_reach json_err sv s \<Longrightarrow> service_reach json_err sv s'"
  by (induction rule: rtranclp_induct) (auto intro: service_reach.stepped)

lemma steps_inv:
  "(service_step json_err)\<^sup>*\<^sup>* s s' \<Longrightarrow> service_inv L E s \<Longrightarrow> service_inv L E s'"
  by (induction rule: rtranclp_induct) (auto intro: service_step_inv)

lemma writer_turns:
  "run_writer as (st_writer (world st)) = Some w
    \<Longrightarrow> foldl (\<lambda>st b. background_work b st) st (map WriterTurn as) = on_writer (\<lambda>_. w) st"
proof (induction as arbitrary: st)
  case Nil
  then show ?case by (simp add: on_writer_def)
next
  case (Cons a as)
  then obtain w1 where w1: "act a (st_writer (world st)) = Some w1" "run_writer as w1 = Some w"
    by (auto simp: bind_eq_Some_conv)
  then show ?case using Cons.IH [of "on_writer (\<lambda>_. w1) st"] by (simp add: on_writer_def)
qed

lemma not_exited:
  "\<not> all_exited p \<Longrightarrow> \<exists>i < length (p_workers p). w_mode (p_workers p ! i) \<noteq> Exited"
  by (auto simp: all_exited_def in_set_conv_nth)

lemma writer_can_stop:
  assumes "writer_phase StoppingWriter w"
  shows "\<exists>as w'. run_writer as w = Some w' \<and> list_all goroutine (map WriterTurn as) \<and> Stop_returned w'"
  using assms
proof (induction "drain_left (op_pipe w) + drain_left (an_pipe w)" arbitrary: w rule: less_induct)
  case less
  have closed: "DualEventWriter.stopChan_closed w" using less.prems by (simp add: writer_phase_def)
  show ?case
  proof (cases "Stop_returned w")
    case True
    then show ?thesis by (intro exI [of _ "[]"] exI [of _ w]) simp
  next
    case False
    have "\<exists>a w1. act a w = Some w1 \<and> goroutine (WriterTurn a)
        \<and> drain_left (op_pipe w1) + drain_left (an_pipe w1) < drain_left (op_pipe w) + drain_left (an_pipe w)"
    proof (cases "all_exited (op_pipe w)")
      case False
      from not_exited [OF this] stop_turn_enabled obtain i t q where
          "stop_turn t" "worker_loop op_model copyOperationalBatch True i t (op_pipe w) = Some q" by blast
      then show ?thesis
        using closed stop_turn_decreases
        by (intro exI [of _ "OpTurn i t"] exI [of _ "w\<lparr>op_pipe := q\<rparr>"]) (auto simp: operationalWorker_def)
    next
      case True
      then have "\<not> all_exited (an_pipe w)" using False closed by (simp add: Stop_returned_def)
      from not_exited [OF this] stop_turn_enabled obtain i t q where
          "stop_turn t" "worker_loop an_model copyAnalyticalBatch True i t (an_pipe w) = Some q" by blast
      then show ?thesis
        using closed stop_turn_decreases
        by (intro exI [of _ "AnTurn i t"] exI [of _ "w\<lparr>an_pipe := q\<rparr>"]) (auto simp: analyticalWorker_def)
    qed
    then obtain a w1 where a: "act a w = Some w1" "goroutine (WriterTurn a)"
        "drain_left (op_pipe w1) + drain_left (an_pipe w1) < drain_left (op_pipe w) + drain_left (an_pipe w)" by blast
    from less.hyps [OF a(3) writer_turn_phase [OF less.prems a(1,2)]] obtain as w' where
        "run_writer as w1 = Some w'" "list_all goroutine (map WriterTurn as)" "Stop_returned w'" by blast
    then show ?thesis using a(1,2) by (intro exI [of _ "a # as"] exI [of _ w']) simp
  qed
qed

lemma notifier_can_stop:
  assumes "n_closed n"
  shows "\<exists>posts. \<forall>st :: 'c stores ingest. notifier st = n \<longrightarrow>
    n_workerDone (notifier (foldl (\<lambda>st b. background_work b st) st (map NotifierTurn posts)))"
  using assms
proof (induction "length (alertChan n)" arbitrary: n rule: less_induct)
  case less
  let ?post = "\<lambda>url body. Inl ErrInternal"
  show ?case
  proof (cases "n_workerDone n")
    case True
    then show ?thesis by (intro exI [of _ "[]"]) simp
  next
    case False
    let ?n = "snd (worker_turn ?post n)"
    show ?thesis
    proof (cases "alertChan n")
      case Nil
      then show ?thesis
        using less.prems False by (intro exI [of _ "[?post]"]) (auto simp: worker_turn_def)
    next
      case (Cons t ts)
      have "length (alertChan ?n) < length (alertChan n)" "n_closed ?n"
        using Cons less.prems by (simp_all add: worker_turn_def)
      from less.hyps [OF this] obtain posts where
          "\<forall>st :: 'c stores ingest. notifier st = ?n \<longrightarrow>
            n_workerDone (notifier (foldl (\<lambda>st b. background_work b st) st (map NotifierTurn posts)))" by blast
      then show ?thesis using False by (intro exI [of _ "?post # posts"]) auto
    qed
  qed
qed

lemma writer_stage:
  assumes "service_inv L E s" "phase s = StoppingWriter"
  shows "\<exists>s'. (service_step json_err)\<^sup>*\<^sup>* s s' \<and> phase s' = StoppingNotifier"
proof -
  have p: "phase_inv StoppingWriter (shared s)" using assms by (simp add: service_inv_def)
  then obtain as w where w: "run_writer as (st_writer (world (shared s))) = Some w"
      "list_all goroutine (map WriterTurn as)" "Stop_returned w"
    using writer_can_stop unfolding phase_inv_def by blast
  obtain c where c: "(service_step json_err)\<^sup>*\<^sup>* s (set_container c s)" "app (kafka c) = on_writer (\<lambda>_. w) (shared s)"
    using goroutines_run [of s "map WriterTurn as"] assms(2) w(2) writer_turns [OF w(1)] by auto
  have "phase_inv StoppingWriter (app (kafka c))"
    using steps_inv [OF c(1) assms(1)] assms(2) by (simp add: service_inv_def)
  then obtain c' where c': "Shutdown_rest c = Some c'"
    by (auto simp: Shutdown_rest_def Let_def Stop_alerts_def phase_inv_def late_def)
  have "service_step json_err (set_container c s) (set_container c' ((set_container c s)\<lparr>phase := StoppingNotifier\<rparr>))"
    by (rule service_step.writer_stopped) (simp_all add: c(2) c' w(3) assms(2))
  with c(1) show ?thesis
    by (intro exI [of _ "set_container c' ((set_container c s)\<lparr>phase := StoppingNotifier\<rparr>)"]) simp
qed

lemma notifier_stage:
  assumes "service_inv L E s" "phase s = StoppingNotifier"
  shows "\<exists>s'. (service_step json_err)\<^sup>*\<^sup>* s s' \<and> phase s' = ClosingServer"
proof -
  have "n_closed (notifier (shared s))"
    using assms by (simp add: service_inv_def phase_inv_def notifier_phase_def notifier_inv_def late_def)
  then obtain posts where posts: "n_workerDone (notifier (foldl (\<lambda>st b. background_work b st) (shared s) (map NotifierTurn posts)))"
    using notifier_can_stop by blast
  have "list_all goroutine (map NotifierTurn posts)" by (simp add: list_all_iff)
  then obtain c where c: "(service_step json_err)\<^sup>*\<^sup>* s (set_container c s)" "n_workerDone (notifier (app (kafka c)))"
    using goroutines_run [of s "map NotifierTurn posts" json_err] assms(2) posts by auto
  have "\<exists>s'. service_step json_err (set_container c s) s' \<and> phase s' = ClosingServer"
    by (rule exI, rule conjI, rule service_step.notifier_stopped [where sql_db = None])
      (simp_all add: c(2) assms(2))
  with c(1) show ?thesis by (meson rtranclp.rtrancl_into_rtrancl)
qed

lemma last_stage:
  "phase s = ClosingServer \<Longrightarrow> (service_step json_err)\<^sup>*\<^sup>* s (s\<lparr>phase := Exited_main\<rparr>)"
  by (intro r_into_rtranclp service_step.closed)

section \<open>Examples\<close>

definition plain_host :: "((uuid \<times> bool) list, unit, unit) host" where
  "plain_host = \<lparr>h_config = Inr plain_conf,
     h_db_settings = Inr \<lparr>DbHost = ''db'', DbName = ''n'', DbPassword = ''s'', DbPort = ''5432'', DbUser = ''u'',
       DbMaxIdleConns = 50, DbMaxOpenConns = 50, DbConnMaxLifetime = 1, DbConnMaxIdleTime = 1, DbSchema = ''public''\<rparr>,
     h_open_db = (\<lambda>uri. None), h_sql_db = None, h_stat = (\<lambda>path. NotExist), h_getwd = Inr [], h_dialect = None,
     h_goose_up = (\<lambda>dir. None), h_count_fault = None, h_read_file = (\<lambda>name. Inr []),
     h_exec = (\<lambda>sql tbl. Inr [zero_EnergyPlantsModel\<lparr>epm_ID := 5\<rparr>]), h_producer = (\<lambda>conf. None),
     h_consumer = (\<lambda>conf. None), h_start = plain_start\<rparr>"

lemma plain_boot:
  "\<exists>sv :: ((uuid \<times> bool) list, unit, unit, unit) server.
     boot plain_libs (\<lambda>ck. plain_env) plain_host = Inr sv
     \<and> st_writer (sv_stores sv) = NewDualEventWriterWithConfig 2 2 True [] []
     \<and> notifier (app (kafka (sv_container sv))) = NewNotifier [] [] False
     \<and> st_plants (sv_stores sv) = [zero_EnergyPlantsModel\<lparr>epm_ID := 5\<rparr>]"
proof -
  have m: "fst (PerformMigrations (\<lambda>path. NotExist) (Inr []) None None (\<lambda>dir. None)) = None"
    by (simp add: PerformMigrations_def findProjectRoot_def)
  show ?thesis
    by (simp add: boot_def plain_host_def SetupDatabasePsql_def m)
      (simp add: SeedDB_def seedData_def plain_start_def plain_conf_def NewKafkaAdapter_def NewContainer_def
        RegisterHandler_def NewKafkaService_def envDefaults_def Let_def)
qed

text \<open>The same host, with an event of the last minutes and a webhook in the database.\<close>

definition hooked_host :: "((uuid \<times> bool) list, unit, (string \<times> bytes) list) host" where
  "hooked_host = \<lparr>h_config = h_config plain_host, h_db_settings = h_db_settings plain_host,
     h_open_db = h_open_db plain_host, h_sql_db = None, h_stat = h_stat plain_host, h_getwd = Inr [], h_dialect = None,
     h_goose_up = h_goose_up plain_host, h_count_fault = None, h_read_file = h_read_file plain_host,
     h_exec = h_exec plain_host, h_producer = (\<lambda>conf. None), h_consumer = (\<lambda>conf. None),
     h_start = \<lparr>s_operational = [], s_analytical = [one_event], s_plants = [], s_status = [],
       s_analytics = \<lparr>events_ts = [], energy_plants = [], hourly_plant_stats = [], webhook_queue = [one_hook]\<rparr>,
       s_locks = [], s_rules = Inr [], s_kafka = None, s_cache = Some [], s_web = ((), [])\<rparr>\<rparr>"

lemma hooked_boot:
  "\<exists>sv :: ((uuid \<times> bool) list, unit, (string \<times> bytes) list, unit) server.
     boot plain_libs (\<lambda>ck. plain_env) hooked_host = Inr sv
     \<and> p_table (an_pipe (st_writer (sv_stores sv))) = [one_event] \<and> locks (coordinator (sv_container sv)) = []
     \<and> webhook_queue (db (coordinator (sv_container sv))) = [one_hook]"
proof -
  have m: "fst (PerformMigrations (\<lambda>path. NotExist) (Inr []) None None (\<lambda>dir. None)) = None"
    by (simp add: PerformMigrations_def findProjectRoot_def)
  show ?thesis
    by (simp add: boot_def hooked_host_def plain_host_def SetupDatabasePsql_def m)
      (simp add: SeedDB_def seedData_def plain_conf_def NewKafkaAdapter_def NewContainer_def RegisterHandler_def
        NewKafkaService_def NewDualEventWriterWithConfig_def new_pipe_def NewAnalyticsCoordinator_def coordinator_config_def Let_def)
qed

definition drain_all :: "action list" where
  "drain_all = [OpTurn 0 SeeStop, OpTurn 1 SeeStop, AnTurn 0 SeeStop, AnTurn 1 SeeStop,
     OpTurn 0 (DrainEnd quiet_env), OpTurn 1 (DrainEnd quiet_env),
     AnTurn 0 (DrainEnd quiet_env), AnTurn 1 (DrainEnd quiet_env)]"

lemma drain_all_exits:
  "\<exists>w. run_writer drain_all ((NewDualEventWriterWithConfig 2 2 True [] [])
        \<lparr>stopping := True, DualEventWriter.stopChan_closed := True\<rparr>) = Some w
     \<and> Stop_returned w \<and> p_late (op_pipe w) = [] \<and> p_late (an_pipe w) = []"
  by (simp add: drain_all_def run_defs Let_def numeral_2_eq_2 Stop_returned_def all_exited_def)

text \<open>A service that is stopped while it is idle, up to the close of the HTTP server.\<close>

lemma idle_shutdown:
  assumes "st_writer (sv_stores sv) = NewDualEventWriterWithConfig 2 2 True [] []"
    "notifier (app (kafka (sv_container sv))) = NewNotifier [] [] False" "\<not> stopCh_closed (st_alerts (sv_stores sv))"
  shows "\<exists>s. service_reach json_err sv s \<and> phase s = ClosingServer
    \<and> p_late (op_pipe (st_writer (world (shared s)))) = [] \<and> p_late (an_pipe (st_writer (world (shared s)))) = []"
proof -
  let ?w1 = "(NewDualEventWriterWithConfig 2 2 True [] [])\<lparr>stopping := True, DualEventWriter.stopChan_closed := True\<rparr>"
  let ?st = "app (kafka (sv_container sv))"
  obtain c1 where c1: "Shutdown_begin (sv_container sv) = Some c1" "app (kafka c1) = on_writer (\<lambda>_. ?w1) ?st"
    using assms(1)
    by (simp add: Shutdown_begin_def Let_def Stop_close_def Stop_flag_def NewDualEventWriterWithConfig_def)
  let ?s1 = "set_container c1 ((start_service sv)\<lparr>phase := StoppingWriter\<rparr>)"
  have "service_step json_err (start_service sv) ?s1"
    by (rule service_step.signal) (simp_all add: start_service_def c1)
  with service_reach.started have r1: "service_reach json_err sv ?s1" by (rule service_reach.stepped)
  obtain w where w: "run_writer drain_all ?w1 = Some w" "Stop_returned w" "p_late (op_pipe w) = []" "p_late (an_pipe w) = []"
    using drain_all_exits by blast
  have "list_all goroutine (map WriterTurn drain_all)" by (simp add: drain_all_def)
  then obtain c2 where c2: "service_reach json_err sv (set_container c2 ?s1)"
      "app (kafka c2) = on_writer (\<lambda>_. w) (on_writer (\<lambda>_. ?w1) ?st)"
    using goroutines_run [of ?s1 "map WriterTurn drain_all" json_err] reach_steps [OF _ r1]
      writer_turns [of drain_all "on_writer (\<lambda>_. ?w1) ?st" w] w(1) c1(2) by auto
  obtain c3 where c3: "Shutdown_rest c2 = Some c3" "st_writer (world (app (kafka c3))) = w"
      "notifier (app (kafka c3)) = (NewNotifier [] [] False)\<lparr>n_stopped := True, n_closed := True, n_phase := Closed\<rparr>"
    using assms(2,3) c2(2) by (simp add: Shutdown_rest_def Let_def Stop_alerts_def on_writer_def)
  let ?s3 = "set_container c3 (?s1\<lparr>phase := StoppingNotifier\<rparr>)"
  have "service_step json_err (set_container c2 ?s1) (set_container c3 ((set_container c2 ?s1)\<lparr>phase := StoppingNotifier\<rparr>))"
    by (rule service_step.writer_stopped) (simp_all add: c2(2) c3(1) w(2))
  with c2(1) have "service_reach json_err sv (set_container c3 ((set_container c2 ?s1)\<lparr>phase := StoppingNotifier\<rparr>))"
    by (rule service_reach.stepped)
  then have r3: "service_reach json_err sv ?s3" by simp
  let ?post = "\<lambda>url body. Inl ErrInternal"
  obtain c4 where "(service_step json_err)\<^sup>*\<^sup>* ?s3 (set_container c4 ?s3)"
      "app (kafka c4) = background_work (NotifierTurn ?post) (app (kafka c3))"
    using goroutines_run [of ?s3 "[NotifierTurn ?post]" json_err] by auto
  then have c4: "service_reach json_err sv (set_container c4 ?s3)" "st_writer (world (app (kafka c4))) = w"
      "n_workerDone (notifier (app (kafka c4)))"
    using reach_steps [OF _ r3] c3 by (simp_all add: NewNotifier_def worker_turn_def)
  have "\<exists>s'. service_step json_err (set_container c4 ?s3) s' \<and> phase s' = ClosingServer \<and> st_writer (world (shared s')) = w"
    by (rule exI, rule conjI, rule service_step.notifier_stopped [where sql_db = None])
      (simp_all add: c4 Shutdown_end_def set_app_def)
  then show ?thesis using c4(1) w(3,4) service_reach.stepped by blast
qed

section \<open>Properties\<close>

text \<open>
  C1. The whole service: however the consumer, the goroutines, the requests and the shutdown of
  a service that booted interleave, the successful handlings are in each pipeline exactly the events
  in the channel, in a batch, written, failed with their batch or dropped; the queues keep their
  bounds; nothing is sent on a closed channel, and \<open>Shutdown\<close> closes no channel twice.
\<close>

theorem service_safe:
  assumes "boot L E H = Inr sv" "service_reach json_err sv s" "w = st_writer (world (shared s))"
  shows "accepted_calls (kafka (sv_container (server s))) = length (p_channel (op_pipe w)) + size (batched (op_pipe w))
      + length (p_written (op_pipe w)) + length (p_failed (op_pipe w)) + length (p_dropped (op_pipe w))
    \<and> accepted_calls (kafka (sv_container (server s))) = length (p_channel (an_pipe w)) + size (batched (an_pipe w))
      + length (p_written (an_pipe w)) + length (p_failed (an_pipe w)) + length (p_dropped (an_pipe w))
    \<and> length (p_channel (op_pipe w)) \<le> 1000 \<and> length (p_channel (an_pipe w)) \<le> 1000
    \<and> length (alertChan (notifier (shared s))) \<le> 100 \<and> \<not> n_panicked (notifier (shared s))
    \<and> (phase s = Serving \<longrightarrow> Shutdown_begin (sv_container (server s)) \<noteq> None)
    \<and> (phase s = StoppingWriter \<longrightarrow> Shutdown_rest (sv_container (server s)) \<noteq> None)"
proof -
  have inv: "service_inv L E s" by (rule service_reach_inv [OF assms(2,1)])
  then have p: "phase_inv (phase s) (shared s)" and t: "tallied (kafka (sv_container (server s)))"
    by (simp_all add: service_inv_def)
  then have acc: "accounted op_model (op_pipe w)" "accounted an_model (an_pipe w)"
    by (simp_all add: assms(3) phase_inv_def writer_phase_def writer_inv_def pipe_inv_def)
  have b: "phase s = Serving \<longrightarrow> Shutdown_begin (sv_container (server s)) \<noteq> None"
    using Shutdown_begin_runs p by metis
  have r: "phase s = StoppingWriter \<longrightarrow> Shutdown_rest (sv_container (server s)) \<noteq> None"
    using p by (auto simp: Shutdown_rest_def Let_def Stop_alerts_def phase_inv_def late_def)
  show ?thesis
    using p t b r accounted_length [OF acc(1)] accounted_length [OF acc(2)]
    by (simp add: assms(3) tallied_def phase_inv_def writer_phase_def notifier_phase_def writer_inv_def pipe_inv_def
        notifier_inv_def pipelineBufferSize_def alertCap_def)
qed

theorem service_safe_witness:
  "\<exists>sv :: ((uuid \<times> bool) list, unit, unit, unit) server. boot plain_libs (\<lambda>ck. plain_env) plain_host = Inr sv
    \<and> Shutdown_begin (sv_container sv) \<noteq> None"
proof -
  obtain sv :: "((uuid \<times> bool) list, unit, unit, unit) server" where b: "boot plain_libs (\<lambda>ck. plain_env) plain_host = Inr sv"
    using plain_boot by blast
  from service_safe [OF b service_reach.started refl] show ?thesis using b by (auto simp: start_service_def)
qed

text \<open>
  C7. A clean exit: once the database is closed and the HTTP server is about to be, nothing is
  under way any more. Every accepted text was handed to the Telegram API, and, if no event was sent
  after the stop signal, every successful handling is an event that was written, failed with its
  batch or was dropped at a full channel.
\<close>

theorem exit_drains_everything:
  assumes "boot L E H = Inr sv" "service_reach json_err sv s" "phase s \<in> {ClosingServer, Exited_main}"
    "w = st_writer (world (shared s))" "p_late (op_pipe w) = []" "p_late (an_pipe w) = []"
  shows "n_taken (notifier (shared s)) = n_accepted (notifier (shared s)) \<and> alertChan (notifier (shared s)) = []
    \<and> p_channel (op_pipe w) = [] \<and> p_channel (an_pipe w) = []
    \<and> accepted_calls (kafka (sv_container (server s))) =
        length (p_written (op_pipe w)) + length (p_failed (op_pipe w)) + length (p_dropped (op_pipe w))
    \<and> accepted_calls (kafka (sv_container (server s))) =
        length (p_written (an_pipe w)) + length (p_failed (an_pipe w)) + length (p_dropped (an_pipe w))"
proof -
  have inv: "service_inv L E s" by (rule service_reach_inv [OF assms(2,1)])
  then have t: "tallied (kafka (sv_container (server s)))"
    and n: "notifier_inv (notifier (shared s))" "n_phase (notifier (shared s)) = Waited"
    and x: "pipe_inv op_model (op_pipe w)" "pipe_inv an_model (an_pipe w)" "all_exited (op_pipe w)" "all_exited (an_pipe w)"
      "p_workers (op_pipe w) \<noteq> []" "p_workers (an_pipe w) \<noteq> []"
    using assms(3)
    by (auto simp: assms(4) service_inv_def phase_inv_def notifier_phase_def late_def writer_phase_def writer_inv_def
        workers_up_def Stop_returned_def)
  have e: "p_channel (op_pipe w) = []" "p_channel (an_pipe w) = []"
    using exited_channel [OF x(1,3,5) assms(5)] exited_channel [OF x(2,4,6) assms(6)] .
  note sums = arg_cong [OF accounted_done [OF x(1,3) e(1)], of size] arg_cong [OF accounted_done [OF x(2,4) e(2)], of size]
  show ?thesis
    using t n e sums by (auto simp: assms(4) tallied_def notifier_inv_def)
qed

theorem exit_drains_everything_witness:
  "\<exists>(sv :: ((uuid \<times> bool) list, unit, unit, unit) server) s. boot plain_libs (\<lambda>ck. plain_env) plain_host = Inr sv
    \<and> service_reach (\<lambda>b. []) sv s \<and> phase s = ClosingServer \<and> p_channel (op_pipe (st_writer (world (shared s)))) = []"
proof -
  obtain sv :: "((uuid \<times> bool) list, unit, unit, unit) server" where b: "boot plain_libs (\<lambda>ck. plain_env) plain_host = Inr sv"
      "st_writer (sv_stores sv) = NewDualEventWriterWithConfig 2 2 True [] []"
      "notifier (app (kafka (sv_container sv))) = NewNotifier [] [] False"
    using plain_boot by blast
  have "\<not> stopCh_closed (st_alerts (sv_stores sv))"
    using boot_inv [OF b(1)] by (simp add: service_inv_def start_service_def phase_inv_def late_def)
  from idle_shutdown [OF b(2,3) this, of "\<lambda>b. []"] obtain s where s: "service_reach (\<lambda>b. []) sv s" "phase s = ClosingServer"
      "p_late (op_pipe (st_writer (world (shared s)))) = []" "p_late (an_pipe (st_writer (world (shared s)))) = []"
    by blast
  from exit_drains_everything [OF b(1) s(1) _ refl s(3,4)] s(2) have "p_channel (op_pipe (st_writer (world (shared s)))) = []"
    by simp
  then show ?thesis using b(1) s(1,2) by blast
qed

text \<open>
  No dead end, waiting for the database left aside: whatever a service was doing when the signal
  came, and whatever is still under way at any later moment, there is a way on to the exit of the
  program; the workers empty their channels and return, \<open>Shutdown\<close> closes nothing twice, and the
  notifier empties its queue. \<open>Service_Pool\<close> has the service that waits for connections.
\<close>

theorem shutdown_completes:
  assumes "boot L E H = Inr sv" "service_reach json_err sv s" "phase s \<noteq> Serving"
  shows "\<exists>s'. (service_step json_err)\<^sup>*\<^sup>* s s' \<and> phase s' = Exited_main"
proof -
  have i: "service_inv L E s" by (rule service_reach_inv [OF assms(2,1)])
  have 3: "\<exists>s'. (service_step json_err)\<^sup>*\<^sup>* s s' \<and> phase s' = Exited_main"
    if "phase s = ClosingServer" for s :: "('a, 'b, 'c, 'd) service"
    using last_stage [OF that] by fastforce
  have 2: "\<exists>s'. (service_step json_err)\<^sup>*\<^sup>* s s' \<and> phase s' = Exited_main"
    if "service_inv L E s" "phase s = StoppingNotifier" for s :: "('a, 'b, 'c, 'd) service"
    using notifier_stage [OF that, of json_err] 3 by (meson rtranclp_trans)
  have 1: "\<exists>s'. (service_step json_err)\<^sup>*\<^sup>* s s' \<and> phase s' = Exited_main" if "phase s = StoppingWriter"
    using writer_stage [OF i that, of json_err] 2 steps_inv [OF _ i] by (meson rtranclp_trans)
  show ?thesis using 1 2 [OF i] 3 [of s] assms(3) by (cases "phase s") auto
qed

theorem shutdown_completes_witness:
  "\<exists>(sv :: ((uuid \<times> bool) list, unit, unit, unit) server) s s'. boot plain_libs (\<lambda>ck. plain_env) plain_host = Inr sv
    \<and> service_step (\<lambda>b. []) (start_service sv) s \<and> (service_step (\<lambda>b. []))\<^sup>*\<^sup>* s s' \<and> phase s' = Exited_main"
proof -
  obtain sv :: "((uuid \<times> bool) list, unit, unit, unit) server" where b: "boot plain_libs (\<lambda>ck. plain_env) plain_host = Inr sv"
      "st_writer (sv_stores sv) = NewDualEventWriterWithConfig 2 2 True [] []"
    using plain_boot by blast
  then obtain c where "Shutdown_begin (sv_container sv) = Some c"
    by (simp add: Shutdown_begin_def Let_def Stop_close_def Stop_flag_def NewDualEventWriterWithConfig_def)
  then have s: "service_step (\<lambda>b. []) (start_service sv) (set_container c ((start_service sv)\<lparr>phase := StoppingWriter\<rparr>))"
    by (intro service_step.signal) (simp_all add: start_service_def)
  from shutdown_completes [OF b(1) service_reach.stepped [OF service_reach.started s]] show ?thesis
    using b(1) s by fastforce
qed

text \<open>
  C10. The dispatcher never takes the service down: if the queue it starts on has unique ids and at
  most five attempts per webhook, then at every later moment a dispatch of the running service
  returns, and no webhook gets a sixth attempt, whatever the receiver answers, whichever statements
  fail, and with other replicas' aggregations in between.
\<close>

theorem service_dispatch_never_panics:
  assumes "boot L E H = Inr sv" "service_reach json_err sv s" "sound_queue (s_analytics (h_start H))"
    "\<forall>n. it_meanwhile (cy_items cy n) = with_primary_key
          (\<lambda>d. snd (RecalculateDirtyBuckets (G n) (fault n) (now n) (fresh n) (window n) d))"
  shows "\<exists>c. doDispatch W us cy (on_tables (world (shared s)) (coordinator_of s)) = Some c
    \<and> (\<forall>m \<in> set (webhook_queue (db c)). wqm_Attempts m \<le> 5)"
proof -
  have "coordinator_inv s" by (rule service_reach_coordinator [OF assms(2,1,3)])
  from dispatch_runs [OF this assms(4)] show ?thesis by (fastforce simp: attempts_ok_def)
qed

definition calm_cycle :: cycle where
  "calm_cycle = busy_cycle\<lparr>cy_items := (\<lambda>n. busy_item\<lparr>it_meanwhile := with_primary_key
     (\<lambda>d. snd (RecalculateDirtyBuckets null_pg None 9 (\<lambda>k. 4) (10 * Minute) d))\<rparr>)\<rparr>"

theorem service_dispatch_never_panics_witness:
  "\<exists>(sv :: ((uuid \<times> bool) list, unit, (string \<times> bytes) list, unit) server) c.
    boot plain_libs (\<lambda>ck. plain_env) hooked_host = Inr sv
    \<and> doDispatch (echo_web 500) plain_uuid calm_cycle (on_tables (sv_stores sv) (coordinator (sv_container sv))) = Some c"
proof -
  obtain sv :: "((uuid \<times> bool) list, unit, (string \<times> bytes) list, unit) server" where
      b: "boot plain_libs (\<lambda>ck. plain_env) hooked_host = Inr sv"
    using hooked_boot by blast
  have "sound_queue (s_analytics (h_start hooked_host))"
    by (simp add: hooked_host_def sound_queue_def attempts_ok_def one_hook_def)
  from service_dispatch_never_panics [OF b service_reach.started this, of calm_cycle "\<lambda>n. null_pg" "\<lambda>n. None" "\<lambda>n. 9"
      "\<lambda>n k. 4" "\<lambda>n. 10 * Minute" "echo_web 500" plain_uuid]
  show ?thesis using b by (auto simp: calm_cycle_def start_service_def)
qed

text \<open>
  C9. An event that was written is aggregated: while the service runs, each row of the analytical
  table of the last ten minutes is reached by the next aggregation that gets its lock, provided its
  statement succeeds and the measurements of every row of the table are numbers or NULL: a single
  other one makes the statement fail for all plants. Then the statistics of the row's hour and plant
  count all its events, and their webhook is pending with no attempt made.
\<close>

theorem written_event_is_aggregated:
  assumes "boot L E H = Inr sv" "service_reach json_err sv s" "sound_queue (s_analytics (h_start H))"
    "phase s = Serving" "w = world (shared s)" "e \<in> set (p_table (an_pipe (st_writer w)))"
    "cy_now cy - 10 * Minute \<le> anm_CreatedAt e"
    "cy_lock_fault cy = None" "advisoryLockAggregator \<notin> fst ` set (locks (coordinator_of s))"
    "cy_query_fault cy = None" "list_all (measured G) (p_table (an_pipe (st_writer w)))"
    "c = doAggregation G cy (on_tables w (coordinator_of s))" "distinct (map wqm_ID (webhook_queue (db c)))"
  shows "service_step json_err s (set_container ((sv_container (server s))\<lparr>coordinator := c\<rparr>) s)
    \<and> (\<exists>m q. get_stats (event_key e) (hourly_plant_stats (db c)) = Some m
        \<and> hsm_SampleCount m = int (length (filter (\<lambda>e'. event_key e' = event_key e) (p_table (an_pipe (st_writer w)))))
        \<and> 1 \<le> hsm_SampleCount m \<and> hsm_LastCalculatedAt m = cy_now cy
        \<and> get_queued (event_key e) (webhook_queue (db c)) = Some q
        \<and> wqm_Status q = WebhookStatusPending \<and> wqm_Attempts q = 0)"
proof -
  have i: "LookbackWindow (config (coordinator_of s)) = 10 * Minute"
      "\<not> AnalyticsCoordinator.stopChan_closed (coordinator_of s)"
    using service_reach_coordinator [OF assms(2,1,3)] assms(4) by (simp_all add: coordinator_inv_def)
  have step: "service_step json_err s (set_container ((sv_container (server s))\<lparr>coordinator := c\<rparr>) s)"
    using assms(4,5,12,13) i(2) by (intro service_step.aggregate) simp_all
  let ?d = "db (on_tables w (coordinator_of s))"
  obtain n d' where r: "RecalculateDirtyBuckets G (cy_query_fault cy) (cy_now cy) (cy_fresh cy) (10 * Minute) ?d = (Inr n, d')"
    using Recalculate_succeeds [OF assms(10)] assms(11) by (metis on_tables_simps(5))
  then have c: "db c = d'"
    using doAggregation_done [OF assms(8), of "on_tables w (coordinator_of s)"] assms(9) i(1) by (simp add: assms(12))
  have "event_key e \<in> {event_key e | e. e \<in> set (events_ts ?d) \<and> cy_now cy - 10 * Minute div Minute * Minute \<le> anm_CreatedAt e}"
    using assms(6,7) by (auto simp: Minute_def Second_def)
  with Recalculate_tables [OF r refl, of "event_key e"] obtain m where m:
      "get_stats (event_key e) (hourly_plant_stats d') = Some m" "calculated_stats G (cy_now cy) ?d (event_key e) = Some m"
      "hsm_SampleCount m = int (length (filter (\<lambda>e'. event_key e' = event_key e) (events_ts ?d)))"
      "get_queued (event_key e) (webhook_queue d') =
        Some (requeued (cy_now cy) (cy_fresh cy) (event_key e) (get_queued (event_key e) (webhook_queue ?d)))"
    by auto
  have "filter (\<lambda>e'. event_key e' = event_key e) (events_ts ?d) \<noteq> []" using assms(6) by (auto simp: filter_empty_conv)
  then have "1 \<le> hsm_SampleCount m" by (simp add: m(3) Suc_leI)
  moreover have "hsm_LastCalculatedAt m = cy_now cy"
    using m(2) by (auto simp: calculated_stats_def Let_def split: option.splits)
  ultimately show ?thesis
    using step m by (auto simp: c requeued_def split: option.split)
qed

theorem written_event_is_aggregated_witness:
  "\<exists>(sv :: ((uuid \<times> bool) list, unit, (string \<times> bytes) list, unit) server) m.
    boot plain_libs (\<lambda>ck. plain_env) hooked_host = Inr sv
    \<and> get_stats (0, 7) (hourly_plant_stats (db (doAggregation null_pg calm_cycle
        (on_tables (sv_stores sv) (coordinator (sv_container sv)))))) = Some m
    \<and> 1 \<le> hsm_SampleCount m"
proof -
  obtain sv :: "((uuid \<times> bool) list, unit, (string \<times> bytes) list, unit) server" where
      b: "boot plain_libs (\<lambda>ck. plain_env) hooked_host = Inr sv"
      "p_table (an_pipe (st_writer (sv_stores sv))) = [one_event]" "locks (coordinator (sv_container sv)) = []"
      "webhook_queue (db (coordinator (sv_container sv))) = [one_hook]"
    using hooked_boot by blast
  have sound: "sound_queue (s_analytics (h_start hooked_host))"
    by (simp add: hooked_host_def sound_queue_def attempts_ok_def one_hook_def)
  let ?c = "on_tables (sv_stores sv) (coordinator (sv_container sv))"
  have cy: "cy_now calm_cycle = 9" "cy_lock_fault calm_cycle = None" "cy_query_fault calm_cycle = None"
    by (simp_all add: calm_cycle_def busy_cycle_def)
  have one: "list_all (measured null_pg) [one_event]" "9 - 10 * Minute \<le> anm_CreatedAt one_event"
    by (simp_all add: measured_def null_pg_def Minute_def Second_def) (simp add: one_event_def)
  have w: "LookbackWindow (config ?c) = 10 * Minute"
    using boot_coordinator [OF b(1) sound] by (simp add: coordinator_inv_def start_service_def)
  have ks: "dirty_buckets 9 (10 * Minute div Minute * Minute) [one_event] = [(0, 7)]"
    using one(2) by (simp add: dirty_buckets_def Minute_def Second_def)
  have "webhook_queue (db (doAggregation null_pg calm_cycle ?c)) = fold (queue_webhook 9 (cy_fresh calm_cycle)) [(0, 7)] [one_hook]"
  proof -
    obtain n d' where r: "RecalculateDirtyBuckets null_pg None 9 (cy_fresh calm_cycle) (10 * Minute) (db ?c) = (Inr n, d')"
      using Recalculate_succeeds [of None null_pg "db ?c", where now = 9 and fresh = "cy_fresh calm_cycle" and w = "10 * Minute"]
        one(1) b(2) by auto
    then have "db (doAggregation null_pg calm_cycle ?c) = d'"
      using doAggregation_done [OF cy(2), of ?c] b(3) w cy by simp
    then show ?thesis using Recalculate_ok [OF r] b(2,4) ks by auto
  qed
  then have "distinct (map wqm_ID (webhook_queue (db (doAggregation null_pg calm_cycle ?c))))"
    by (simp add: queue_webhook_def queue_key_def one_hook_def)
  with written_event_is_aggregated [OF b(1) service_reach.started sound _ refl _ _ cy(2) _ cy(3) _ refl, of one_event null_pg]
    one b(2,3) cy(1) show ?thesis using b(1) by (auto simp: start_service_def)
qed

end
