(* ===== verification/Writer_Sessions.thy ===== *)
theory Writer_Sessions
  imports Dual_Event_Writer
begin

text \<open>
  The connections the writer's workers take from the database's pool
  (\<open>acquirePgxConn\<close>, \<open>copyOperationalBatch\<close> and \<open>copyAnalyticalBatch\<close> of \<open>dual_event_writer.go\<close>), the
  pool as a machine its clients compete for, and the metrics reporter of the same file.

  \<open>copyOperationalBatch\<close> holds its connection by \<open>defer sqlConn.Close()\<close>; when the transaction cannot be
  begun, it writes through gorm, which takes a second one while the first is still held.
\<close>

section \<open>The connections of a batch\<close>

datatype pool_op = Take | Give

text \<open>What the steps of \<open>acquirePgxConn\<close> meet; the type of a driver's connection that is not one of pgx.\<close>

record session_env =
  se_db :: "goerr option"
  se_conn :: "goerr option"
  se_driver :: "string option"

definition acquirePgxConn :: "session_env \<Rightarrow> pool_op list \<times> goerr option" where
  "acquirePgxConn S =
     (case se_db S of
        Some err \<Rightarrow> ([], Some err)
      | None \<Rightarrow>
          (case se_conn S of
             Some err \<Rightarrow> ([], Some err)
           | None \<Rightarrow>
               (case se_driver S of
                  Some type \<Rightarrow>
                    ([Take, Give], Some (TextError (''driver conn is '' @ type @ '', not a pgx conn'')))
                | None \<Rightarrow> ([Take], None))))"

text \<open>gorm's write takes a connection for its transaction and gives it back.\<close>

definition gorm_sessions :: "pool_op list" where
  "gorm_sessions = [Take, Give]"

definition batch_sessions :: "session_env \<Rightarrow> copy_env \<Rightarrow> nat \<Rightarrow> pool_op list" where
  "batch_sessions S env len_models =
     (if len_models = 0 then []
      else case acquirePgxConn S of
        (ops, Some err) \<Rightarrow> ops @ gorm_sessions
      | (ops, None) \<Rightarrow>
          ops @ (if ce_begin env \<noteq> None then gorm_sessions else []) @ [Give])"

section \<open>The pool\<close>

text \<open>
  A client holds some connections and has operations left. A take waits until fewer than the limit
  are in use. \<open>fits mx\<close>: a client that never holds more than \<open>mx\<close> and ends with none.
\<close>

type_synonym client = "nat \<times> pool_op list"

definition in_use :: "client list \<Rightarrow> nat" where
  "in_use cs = sum_list (map fst cs)"

fun client_turn :: "nat \<Rightarrow> nat \<Rightarrow> client \<Rightarrow> client option" where
  "client_turn lim used (h, []) = None"
| "client_turn lim used (h, Take # ops) = (if used < lim then Some (h + 1, ops) else None)"
| "client_turn lim used (h, Give # ops) = Some (h - 1, ops)"

inductive pool_step :: "nat \<Rightarrow> client list \<Rightarrow> client list \<Rightarrow> bool" for lim where
  "i < length cs \<Longrightarrow> client_turn lim (in_use cs) (cs ! i) = Some c \<Longrightarrow> pool_step lim cs (cs[i := c])"

inductive_cases pool_stepE: "pool_step lim cs cs'"

fun fits :: "nat \<Rightarrow> nat \<Rightarrow> pool_op list \<Rightarrow> bool" where
  "fits mx h [] \<longleftrightarrow> h = 0"
| "fits mx h (Take # ops) \<longleftrightarrow> h < mx \<and> fits mx (h + 1) ops"
| "fits mx h (Give # ops) \<longleftrightarrow> 0 < h \<and> fits mx (h - 1) ops"

lemma fits_append: "fits mx h xs \<Longrightarrow> fits mx 0 ys \<Longrightarrow> fits mx h (xs @ ys)"
  by (induction mx h xs rule: fits.induct) auto

lemma fits_concat: "list_all (fits mx 0) xss \<Longrightarrow> fits mx 0 (concat xss)"
  by (induction xss) (auto intro: fits_append)

text \<open>A batch holds at most two connections, one when the transaction is begun.\<close>

lemma batch_fits: "fits 2 0 (batch_sessions S env n)"
  by (auto simp: batch_sessions_def acquirePgxConn_def gorm_sessions_def split: option.split)

lemma batch_fits_one: "ce_begin env = None \<Longrightarrow> fits 1 0 (batch_sessions S env n)"
  by (auto simp: batch_sessions_def acquirePgxConn_def gorm_sessions_def split: option.split)

section \<open>Clients of the pool\<close>

text \<open>The bound of each client, and what all of them keep.\<close>

definition pool_inv :: "nat \<Rightarrow> nat list \<Rightarrow> client list \<Rightarrow> bool" where
  "pool_inv lim mxs cs \<longleftrightarrow> list_all2 (\<lambda>mx c. fits mx (fst c) (snd c)) mxs cs \<and> in_use cs \<le> lim"

lemma in_use_update:
  "i < length cs \<Longrightarrow> in_use (cs[i := c]) + fst (cs ! i) = in_use cs + fst c"
  unfolding in_use_def by (rule sum_list_update_comm)

lemma pool_step_inv:
  assumes "pool_step lim cs cs'" "pool_inv lim mxs cs"
  shows "pool_inv lim mxs cs'"
proof -
  obtain i c where i: "cs' = cs[i := c]" "i < length cs" "client_turn lim (in_use cs) (cs ! i) = Some c"
    using assms(1) by (rule pool_stepE)
  obtain h ops where hops: "cs ! i = (h, ops)" by (cases "cs ! i")
  have all: "list_all2 (\<lambda>mx c. fits mx (fst c) (snd c)) mxs cs" and "in_use cs \<le> lim"
    using assms(2) by (simp_all add: pool_inv_def)
  from list_all2_nthD2 [OF all i(2)] have f: "fits (mxs ! i) h ops" by (simp add: hops)
  then have c: "fits (mxs ! i) (fst c) (snd c)" "in_use cs' \<le> lim"
    using i(3) in_use_update [OF i(2), of c] \<open>in_use cs \<le> lim\<close>
    by (auto simp: hops i(1) elim!: client_turn.elims split: if_splits)
  have "list_all2 (\<lambda>mx c. fits mx (fst c) (snd c)) (mxs[i := mxs ! i]) (cs[i := c])"
    by (rule list_all2_update_cong [OF all]) (use c(1) in simp)
  then show ?thesis using c(2) by (simp add: pool_inv_def i(1))
qed

lemma pool_steps_inv: "(pool_step lim)\<^sup>*\<^sup>* cs cs' \<Longrightarrow> pool_inv lim mxs cs \<Longrightarrow> pool_inv lim mxs cs'"
  by (induction rule: rtranclp_induct) (auto intro: pool_step_inv)

lemma waiting_holds_less:
  assumes "list_all2 (\<lambda>mx c. fits mx (fst c) (snd c)) mxs cs" "\<forall>c \<in> set cs. client_turn lim lim c = None"
  shows "in_use cs \<le> sum_list (map (\<lambda>mx. mx - 1) mxs)"
  using assms
proof (induction mxs cs rule: list_all2_induct)
  case (Cons mx mxs c cs)
  have "client_turn lim lim c = None" using Cons.prems by simp
  then have "fst c \<le> mx - 1" using Cons.hyps(1) by (cases "(lim, lim, c)" rule: client_turn.cases) auto
  then show ?case using Cons by (simp add: in_use_def)
qed (simp add: in_use_def)

text \<open>Enough connections: as long as a client has something left, a client can go on.\<close>

lemma pool_progress:
  assumes "pool_inv lim mxs cs" "sum_list (map (\<lambda>mx. mx - 1) mxs) < lim" "\<exists>c \<in> set cs. snd c \<noteq> []"
  shows "\<exists>cs'. pool_step lim cs cs'"
proof (rule ccontr)
  assume stuck: "\<nexists>cs'. pool_step lim cs cs'"
  then have none: "client_turn lim (in_use cs) c = None" if "c \<in> set cs" for c
    using that by (metis in_set_conv_nth not_None_eq pool_step.intros)
  obtain h op ops where c: "(h, op # ops) \<in> set cs" using assms(3) by (auto simp: neq_Nil_conv)
  then have "\<not> in_use cs < lim" using none [OF c] by (cases op) auto
  then have u: "in_use cs = lim" using assms(1) by (simp add: pool_inv_def)
  then have "in_use cs \<le> sum_list (map (\<lambda>mx. mx - 1) mxs)"
    using none assms(1) by (intro waiting_holds_less) (auto simp: pool_inv_def)
  then show False using u assms(2) by simp
qed

text \<open>Every step uses up an operation, so the clients get to their end.\<close>

definition ops_left :: "client list \<Rightarrow> nat" where
  "ops_left cs = sum_list (map (\<lambda>c. length (snd c)) cs)"

lemma pool_step_left: "pool_step lim cs cs' \<Longrightarrow> ops_left cs' < ops_left cs"
proof -
  assume "pool_step lim cs cs'"
  then obtain i c where i: "cs' = cs[i := c]" "i < length cs" "client_turn lim (in_use cs) (cs ! i) = Some c"
    by (rule pool_stepE)
  have "ops_left (cs[i := c]) + length (snd (cs ! i)) = ops_left cs + length (snd c)"
    unfolding ops_left_def by (rule sum_list_update_comm [OF i(2)])
  moreover have "length (snd c) < length (snd (cs ! i))"
    using i(3) by (cases "(lim, in_use cs, cs ! i)" rule: client_turn.cases) (auto split: if_splits)
  ultimately show ?thesis by (simp add: i(1))
qed

lemma pool_completes:
  assumes "pool_inv lim mxs cs" "sum_list (map (\<lambda>mx. mx - 1) mxs) < lim"
  shows "\<exists>cs'. (pool_step lim)\<^sup>*\<^sup>* cs cs' \<and> (\<forall>c \<in> set cs'. c = (0, []))"
  using assms(1)
proof (induction "ops_left cs" arbitrary: cs rule: less_induct)
  case less
  show ?case
  proof (cases "\<exists>c \<in> set cs. snd c \<noteq> []")
    case True
    from pool_progress [OF less.prems assms(2) this] obtain cs1 where s: "pool_step lim cs cs1" by blast
    from less.hyps [OF pool_step_left [OF s] pool_step_inv [OF s less.prems]] s show ?thesis
      by (meson converse_rtranclp_into_rtranclp)
  next
    case False
    have "c = (0, [])" if c: "c \<in> set cs" for c
    proof -
      obtain i where i: "i < length cs" "c = cs ! i" using c by (auto simp: in_set_conv_nth)
      then have "fits (mxs ! i) (fst c) (snd c)"
        using less.prems list_all2_nthD2 [of _ mxs cs i] unfolding pool_inv_def by blast
      then show ?thesis using False c by (cases c) auto
    qed
    then show ?thesis by blast
  qed
qed

section \<open>The metrics reporter\<close>

record writer_report =
  op_total :: int
  an_total :: int
  op_last_30s :: int
  an_last_30s :: int
  op_channel_len :: nat
  an_channel_len :: nat

definition writer_report_of :: "int \<times> int \<Rightarrow> DualEventWriter \<Rightarrow> writer_report" where
  "writer_report_of prev w =
     (let opCount = p_processed (op_pipe w); anCount = p_processed (an_pipe w)
      in \<lparr>op_total = opCount, an_total = anCount, op_last_30s = opCount - fst prev, an_last_30s = anCount - snd prev,
          op_channel_len = length (p_channel (op_pipe w)), an_channel_len = length (p_channel (an_pipe w))\<rparr>)"

text \<open>The writer at each tick, \<^const>\<open>None\<close> where the closed stop channel is seen; what is logged.\<close>

fun metrics_loop :: "int \<times> int \<Rightarrow> DualEventWriter option list \<Rightarrow> writer_report list" where
  "metrics_loop prev [] = []"
| "metrics_loop prev (None # ts) = []"
| "metrics_loop prev (Some w # ts) =
     writer_report_of prev w # metrics_loop (p_processed (op_pipe w), p_processed (an_pipe w)) ts"

definition metricsReporter :: "DualEventWriter option list \<Rightarrow> writer_report list" where
  "metricsReporter ts = metrics_loop (0, 0) ts"

lemma metrics_loop_deltas:
  "map op_last_30s (metrics_loop prev ts) = deltas (fst prev) (map op_total (metrics_loop prev ts))"
  "map an_last_30s (metrics_loop prev ts) = deltas (snd prev) (map an_total (metrics_loop prev ts))"
  by (induction prev ts rule: metrics_loop.induct) (simp_all add: writer_report_of_def Let_def)

section \<open>Properties\<close>

text \<open>The clients of the pool: workers with the batches they write, and others, which run statements one at a time.\<close>

definition pool_clients :: "(session_env \<times> copy_env \<times> nat) list list \<Rightarrow> nat list \<Rightarrow> client list" where
  "pool_clients workers others =
     map (\<lambda>bs. (0, concat (map (\<lambda>(S, env, n). batch_sessions S env n) bs))) workers
     @ map (\<lambda>n. (0, concat (replicate n gorm_sessions))) others"

lemma pool_clients_inv:
  "pool_inv lim (replicate (length workers) 2 @ replicate (length others) 1) (pool_clients workers others)"
proof -
  have w: "fits 2 0 (concat (map (\<lambda>(S, env, n). batch_sessions S env n) bs))" for bs
    by (rule fits_concat) (auto simp: list_all_iff batch_fits)
  have o: "fits 1 0 (concat (replicate n gorm_sessions))" for n
    by (rule fits_concat) (auto simp: list_all_iff gorm_sessions_def)
  have "list_all2 (\<lambda>mx c. fits mx (fst c) (snd c)) (replicate (length workers) 2)
      (map (\<lambda>bs. (0, concat (map (\<lambda>(S, env, n). batch_sessions S env n) bs))) workers)"
    by (induction workers) (auto simp: w)
  moreover have "list_all2 (\<lambda>mx c. fits mx (fst c) (snd c)) (replicate (length others) 1)
      (map (\<lambda>n. (0, concat (replicate n gorm_sessions))) others)"
    by (induction others) (use o in auto)
  moreover have "in_use (pool_clients workers others) = 0"
    by (simp add: in_use_def pool_clients_def o_def)
  ultimately show ?thesis unfolding pool_inv_def pool_clients_def by (simp add: list_all2_appendI)
qed

text \<open>
  C11. The workers never wait for each other forever: if the pool has more connections than there are
  workers, then whatever fails, and however workers and other users of the database interleave, the
  pool's limit is kept, the only state without a next step is the one where everybody is through
  and every connection is given back, and that state is reached.
\<close>

theorem pool_never_deadlocks:
  assumes "length workers < lim" "(pool_step lim)\<^sup>*\<^sup>* (pool_clients workers others) cs"
  shows "in_use cs \<le> lim
    \<and> ((\<nexists>cs'. pool_step lim cs cs') \<longleftrightarrow> (\<forall>c \<in> set cs. c = (0, [])))
    \<and> (\<exists>cs'. (pool_step lim)\<^sup>*\<^sup>* cs cs' \<and> (\<forall>c \<in> set cs'. c = (0, [])))"
proof -
  let ?mxs = "replicate (length workers) 2 @ replicate (length others) (1::nat)"
  have i: "pool_inv lim ?mxs cs" by (rule pool_steps_inv [OF assms(2) pool_clients_inv])
  have m: "sum_list (map (\<lambda>mx. mx - 1) ?mxs) < lim" using assms(1) by (simp add: sum_list_replicate)
  obtain cs' where fin: "(pool_step lim)\<^sup>*\<^sup>* cs cs'" "\<forall>c \<in> set cs'. c = (0, [])"
    using pool_completes [OF i m] by blast
  have "\<not> pool_step lim cs cs''" if "\<forall>c \<in> set cs. c = (0, [])" for cs''
  proof
    assume "pool_step lim cs cs''"
    then obtain i c where "i < length cs" "client_turn lim (in_use cs) (cs ! i) = Some c" by (rule pool_stepE)
    moreover from this(1) have "cs ! i = (0, [])" using that nth_mem by blast
    ultimately show False by simp
  qed
  moreover have "\<exists>cs'. pool_step lim cs cs'" if "\<not> (\<forall>c \<in> set cs. c = (0, []))"
    using fin that by (metis converse_rtranclpE)
  moreover have "in_use cs \<le> lim" using i by (simp add: pool_inv_def)
  ultimately show ?thesis using fin by blast
qed

definition healthy_session :: session_env where
  "healthy_session = \<lparr>se_db = None, se_conn = None, se_driver = None\<rparr>"

definition no_begin :: copy_env where
  "no_begin = quiet_env\<lparr>ce_begin := Some ErrInternal\<rparr>"

lemma no_begin_sessions: "0 < n \<Longrightarrow> batch_sessions healthy_session no_begin n = [Take, Take, Give, Give]"
  by (simp add: batch_sessions_def acquirePgxConn_def healthy_session_def no_begin_def gorm_sessions_def)

theorem pool_never_deadlocks_witness:
  "\<exists>cs. (pool_step 3)\<^sup>*\<^sup>* (pool_clients [[(healthy_session, no_begin, 1)], [(healthy_session, no_begin, 500)]] [2]) cs
    \<and> (\<forall>c \<in> set cs. c = (0, []))"
  using pool_never_deadlocks [of "[[(healthy_session, no_begin, 1)], [(healthy_session, no_begin, 500)]]" 3
      "[2]" "pool_clients [[(healthy_session, no_begin, 1)], [(healthy_session, no_begin, 500)]] [2]"]
  by simp

text \<open>
  With no more connections than workers it can happen: every worker holds the connection whose
  transaction it could not begin, and waits for another one to write through gorm.
\<close>

lemma takes_first:
  "m \<le> n \<Longrightarrow> (pool_step n)\<^sup>*\<^sup>* (replicate n (0, Take # ops)) (replicate m (1, ops) @ replicate (n - m) (0, Take # ops))"
proof (induction m)
  case (Suc m)
  let ?cs = "replicate m (1, ops) @ replicate (n - m) (0, Take # ops)"
  have n: "n - m = Suc (n - Suc m)" using Suc.prems by simp
  have u: "in_use ?cs = m" by (simp add: in_use_def sum_list_replicate)
  have "client_turn n (in_use ?cs) (?cs ! m) = Some (1, ops)"
    unfolding u using Suc.prems n by (simp add: nth_append)
  then have step: "pool_step n ?cs (?cs[m := (1, ops)])" using Suc.prems by (intro pool_step.intros) simp_all
  have eq: "?cs[m := (1, ops)] = replicate (Suc m) (1, ops) @ replicate (n - Suc m) (0, Take # ops)"
    by (simp add: n list_update_append replicate_append_same)
  have "m \<le> n" using Suc.prems by simp
  from rtranclp.rtrancl_into_rtrancl [OF Suc.IH [OF this] step] show ?case unfolding eq .
qed simp

theorem small_pool_deadlocks:
  assumes "0 < n" "snd (acquirePgxConn S) = None" "ce_begin env \<noteq> None" "0 < k"
  shows "\<exists>cs. (pool_step n)\<^sup>*\<^sup>* (pool_clients (replicate n [(S, env, k)]) []) cs
    \<and> (\<nexists>cs'. pool_step n cs cs') \<and> (\<forall>c \<in> set cs. fst c = 1 \<and> snd c \<noteq> [])"
proof -
  have b: "batch_sessions S env k = [Take, Take, Give, Give]"
    using assms(2-4)
    by (auto simp: batch_sessions_def acquirePgxConn_def gorm_sessions_def split: option.splits)
  let ?cs = "replicate n (1 :: nat, [Take, Give, Give])"
  have "pool_clients (replicate n [(S, env, k)]) [] = replicate n (0, [Take, Take, Give, Give])"
    by (simp add: pool_clients_def b)
  then have "(pool_step n)\<^sup>*\<^sup>* (pool_clients (replicate n [(S, env, k)]) []) ?cs"
    using takes_first [of n n "[Take, Give, Give]"] by simp
  moreover have "in_use ?cs = n" by (simp add: in_use_def sum_list_replicate)
  then have "\<not> pool_step n ?cs cs'" for cs' by (auto elim!: pool_stepE)
  ultimately show ?thesis by (intro exI [of _ ?cs]) simp
qed

theorem small_pool_deadlocks_witness:
  "\<exists>cs. (pool_step 4)\<^sup>*\<^sup>* (pool_clients (replicate 4 [(healthy_session, no_begin, 500)]) []) cs
    \<and> (\<nexists>cs'. pool_step 4 cs cs')"
  using small_pool_deadlocks [of 4 healthy_session no_begin 500]
  by (auto simp: acquirePgxConn_def healthy_session_def no_begin_def)

text \<open>The reported intervals add up to the last reported total: no written batch is reported twice or left out.\<close>

theorem reports_add_up:
  "sum_list (map op_last_30s (metricsReporter ts)) = last (0 # map op_total (metricsReporter ts))
   \<and> sum_list (map an_last_30s (metricsReporter ts)) = last (0 # map an_total (metricsReporter ts))"
  by (simp add: metricsReporter_def metrics_loop_deltas sum_deltas)

end
