(* ===== verification/Service_Pool.thy ===== *)
theory Service_Pool
  imports Service Writer_Sessions
begin

text \<open>
  The running service together with the connection pool of its database. A goroutine that uses the
  database is not through with its turn before it has given its connections back: a worker of the
  writer takes no further turn and has not returned until then, and neither has a job of the
  coordinator, so \<open>DualEventWriter.Stop\<close> and \<open>AnalyticsCoordinator.Stop\<close>, which wait for them
  (\<open>wg.Wait\<close>), wait for connections too. A connection is waited for as long as all are in use.
\<close>

section \<open>The service and its pool\<close>

abbreviation writer_of :: "('c, 'b, 'w, 'l) service \<Rightarrow> DualEventWriter" where
  "writer_of s \<equiv> st_writer (world (shared s))"

definition workers_of :: "('c, 'b, 'w, 'l) service \<Rightarrow> nat" where
  "workers_of s = length (p_workers (op_pipe (writer_of s))) + length (p_workers (an_pipe (writer_of s)))"

text \<open>
  The clients of the pool: the operational workers, the analytical workers, the aggregator, the
  dispatcher, and then everything else. Of these only the workers ever hold two connections.
\<close>

fun slot :: "DualEventWriter \<Rightarrow> action \<Rightarrow> nat" where
  "slot w (OpTurn i t) = i"
| "slot w (AnTurn i t) = length (p_workers (op_pipe w)) + i"
| "slot w _ = 0"

text \<open>The connections of a worker's turn: those of the batch it tried to write, if any.\<close>

definition tried :: "('e, 'm) pipe \<Rightarrow> nat" where
  "tried p = length (p_written p) + length (p_failed p)"

fun turn_env :: "turn \<Rightarrow> copy_env option" where
  "turn_env SeeStop = None"
| "turn_env (Tick env) = Some env"
| "turn_env (Recv env) = Some env"
| "turn_env (DrainOne env) = Some env"
| "turn_env (DrainEnd env) = Some env"

definition turn_sessions :: "session_env \<Rightarrow> turn \<Rightarrow> nat \<Rightarrow> pool_op list" where
  "turn_sessions S t len_models =
     (case turn_env t of None \<Rightarrow> [] | Some env \<Rightarrow> batch_sessions S env len_models)"

fun action_sessions :: "session_env \<Rightarrow> action \<Rightarrow> DualEventWriter \<Rightarrow> DualEventWriter \<Rightarrow> pool_op list" where
  "action_sessions S (OpTurn i t) w w' = turn_sessions S t (tried (op_pipe w') - tried (op_pipe w))"
| "action_sessions S (AnTurn i t) w w' = turn_sessions S t (tried (an_pipe w') - tried (an_pipe w))"
| "action_sessions S _ w w' = []"

text \<open>What acquiring the connection gave is what the turn goes on with.\<close>

fun acquires :: "session_env \<Rightarrow> action \<Rightarrow> bool" where
  "acquires S (OpTurn i t) = (\<forall>env \<in> set_option (turn_env t). snd (acquirePgxConn S) = ce_acquire env)"
| "acquires S (AnTurn i t) = (\<forall>env \<in> set_option (turn_env t). snd (acquirePgxConn S) = ce_acquire env)"
| "acquires S _ = True"

text \<open>Statements one after the other.\<close>

definition statements :: "nat \<Rightarrow> pool_op list" where
  "statements n = concat (replicate n gorm_sessions)"

definition same_work :: "('c, 'b, 'w, 'l) service \<Rightarrow> ('c, 'b, 'w, 'l) service \<Rightarrow> bool" where
  "same_work s s' \<longleftrightarrow>
     p_workers (op_pipe (writer_of s')) = p_workers (op_pipe (writer_of s))
     \<and> p_workers (an_pipe (writer_of s')) = p_workers (an_pipe (writer_of s))
     \<and> tried (op_pipe (writer_of s')) = tried (op_pipe (writer_of s))
     \<and> tried (an_pipe (writer_of s')) = tried (an_pipe (writer_of s))
     \<and> coordinator_of s' = coordinator_of s"

text \<open>
  \<open>connection\<close>: some client takes or gives back a connection. \<open>worker\<close>: a worker that is through
  with its last turn takes one. \<open>aggregate\<close>, \<open>dispatch\<close>: so do the coordinator's jobs. \<open>other\<close>: the
  consumer, a request, the notifier, the reload of the rules; the workers' turns are steps of
  their own, between those of the consumer. \<open>signal\<close> waits for the coordinator's jobs,
  \<open>writer_stopped\<close> for the workers. The flush of the producer, which ends after 30 seconds, is not
  waited for.
\<close>

inductive pooled_step ::
  "(bytes \<Rightarrow> string) \<Rightarrow> nat \<Rightarrow> ('c, 'b, 'w, 'l) service \<times> client list
   \<Rightarrow> ('c, 'b, 'w, 'l) service \<times> client list \<Rightarrow> bool" for json_err lim where
  connection: "pool_step lim cs cs' \<Longrightarrow> pooled_step json_err lim (s, cs) (s, cs')"
| worker: "phase s \<noteq> Exited_main \<Longrightarrow> goroutine (WriterTurn a) \<Longrightarrow> act a (writer_of s) = Some w
    \<Longrightarrow> cs ! slot (writer_of s) a = (0, []) \<Longrightarrow> acquires S a
    \<Longrightarrow> pooled_step json_err lim (s, cs)
          (set_container (set_app (background_work (WriterTurn a) (shared s)) (sv_container (server s))) s,
           cs[slot (writer_of s) a := (0, action_sessions S a (writer_of s) w)])"
| aggregate: "phase s \<noteq> Exited_main \<Longrightarrow> \<not> AnalyticsCoordinator.stopChan_closed (coordinator_of s)
    \<Longrightarrow> cs ! workers_of s = (0, [])
    \<Longrightarrow> c = doAggregation G cy (on_tables (world (shared s)) (coordinator_of s))
    \<Longrightarrow> distinct (map wqm_ID (webhook_queue (db c)))
    \<Longrightarrow> pooled_step json_err lim (s, cs)
          (set_container ((sv_container (server s))\<lparr>coordinator := c\<rparr>) s, cs[workers_of s := (0, statements n)])"
| dispatch: "phase s \<noteq> Exited_main \<Longrightarrow> \<not> AnalyticsCoordinator.stopChan_closed (coordinator_of s)
    \<Longrightarrow> cs ! Suc (workers_of s) = (0, [])
    \<Longrightarrow> doDispatch W us cy (on_tables (world (shared s)) (coordinator_of s)) = Some c
    \<Longrightarrow> \<forall>n. it_meanwhile (cy_items cy n) = with_primary_key
          (\<lambda>d. snd (RecalculateDirtyBuckets (G n) (fault n) (now n) (fresh n) (window n) d))
    \<Longrightarrow> pooled_step json_err lim (s, cs)
          (set_container ((sv_container (server s))\<lparr>coordinator := c\<rparr>) s, cs[Suc (workers_of s) := (0, statements n)])"
| other: "service_step json_err s s' \<Longrightarrow> phase s' = phase s \<Longrightarrow> same_work s s'
    \<Longrightarrow> pooled_step json_err lim (s, cs) (s', cs @ [(0, statements n)])"
| signal: "service_step json_err s s' \<Longrightarrow> phase s = Serving \<Longrightarrow> phase s' = StoppingWriter
    \<Longrightarrow> cs ! workers_of s = (0, []) \<Longrightarrow> cs ! Suc (workers_of s) = (0, [])
    \<Longrightarrow> pooled_step json_err lim (s, cs) (s', cs)"
| writer_stopped: "service_step json_err s s' \<Longrightarrow> phase s = StoppingWriter \<Longrightarrow> phase s' = StoppingNotifier
    \<Longrightarrow> \<forall>k < workers_of s. cs ! k = (0, [])
    \<Longrightarrow> pooled_step json_err lim (s, cs) (s', cs)"
| ending: "service_step json_err s s' \<Longrightarrow> phase s \<in> {StoppingNotifier, ClosingServer} \<Longrightarrow> phase s' \<noteq> phase s
    \<Longrightarrow> pooled_step json_err lim (s, cs) (s', cs)"

definition start_pooled :: "('c, 'b, 'w, 'l) server \<Rightarrow> ('c, 'b, 'w, 'l) service \<times> client list" where
  "start_pooled sv = (start_service sv, replicate (workers_of (start_service sv) + 2) (0, []))"

section \<open>What the service and its pool keep\<close>

lemma pool_inv_start:
  assumes "pool_inv lim mxs cs" "k < length cs" "cs ! k = (0, [])" "fits (mxs ! k) 0 ops"
  shows "pool_inv lim mxs (cs[k := (0, ops)])"
proof -
  have all: "list_all2 (\<lambda>mx c. fits mx (fst c) (snd c)) mxs cs" and "in_use cs \<le> lim"
    using assms(1) by (simp_all add: pool_inv_def)
  have "list_all2 (\<lambda>mx c. fits mx (fst c) (snd c)) (mxs[k := mxs ! k]) (cs[k := (0, ops)])"
    by (rule list_all2_update_cong [OF all]) (use assms(4) in simp)
  moreover have "in_use (cs[k := (0, ops)]) = in_use cs"
    using in_use_update [OF assms(2), of "(0, ops)"] assms(3) by simp
  ultimately show ?thesis using \<open>in_use cs \<le> lim\<close> by (simp add: pool_inv_def)
qed

lemma pool_inv_join:
  "pool_inv lim mxs cs \<Longrightarrow> fits mx 0 ops \<Longrightarrow> pool_inv lim (mxs @ [mx]) (cs @ [(0, ops)])"
  by (simp add: pool_inv_def list_all2_appendI in_use_def)

lemma statements_fits: "fits 1 0 (statements n)"
  unfolding statements_def by (rule fits_concat) (auto simp: list_all_iff gorm_sessions_def)

lemma action_sessions_fits: "fits 2 0 (action_sessions S a w w')"
  by (cases "(S, a, w, w')" rule: action_sessions.cases) (auto simp: turn_sessions_def batch_fits split: option.split)

definition pool_bounds :: "nat \<Rightarrow> client list \<Rightarrow> nat list" where
  "pool_bounds n cs = replicate n 2 @ replicate (length cs - n) 1"

lemma pool_bounds_nth: "k < length cs \<Longrightarrow> n \<le> length cs \<Longrightarrow> pool_bounds n cs ! k = (if k < n then 2 else 1)"
  by (simp add: pool_bounds_def nth_append)

lemma pool_bounds_join: "n \<le> length cs \<Longrightarrow> pool_bounds n (cs @ [c]) = pool_bounds n cs @ [1]"
  by (simp add: pool_bounds_def Suc_diff_le replicate_append_same)

definition pooled_inv ::
  "libs \<Rightarrow> (clock \<Rightarrow> 'c store_env) \<Rightarrow> nat \<Rightarrow> nat \<Rightarrow> ('c, 'b, 'w, 'l) service \<times> client list \<Rightarrow> bool" where
  "pooled_inv L E lim n sc \<longleftrightarrow>
     service_inv L E (fst sc) \<and> workers_of (fst sc) = n \<and> n + 2 \<le> length (snd sc)
     \<and> pool_inv lim (pool_bounds n (snd sc)) (snd sc)"

lemma slot_worker:
  "act a w = Some w' \<Longrightarrow> goroutine (WriterTurn a) \<Longrightarrow>
    slot w a < length (p_workers (op_pipe w)) + length (p_workers (an_pipe w))"
  by (cases a) (auto simp: operationalWorker_def analyticalWorker_def worker_loop_def split: if_splits)

lemma worker_turn_service:
  assumes "act a (writer_of s) = Some w" "phase s \<noteq> Exited_main" "goroutine (WriterTurn a)"
  shows "service_step json_err s
      (set_container (set_app (background_work (WriterTurn a) (shared s)) (sv_container (server s))) s)"
    "workers_of (set_container (set_app (background_work (WriterTurn a) (shared s)) (sv_container (server s))) s) = workers_of s"
proof -
  show "service_step json_err s
      (set_container (set_app (background_work (WriterTurn a) (shared s)) (sv_container (server s))) s)"
    by (rule service_step.run) (use assms in auto)
  show "workers_of (set_container (set_app (background_work (WriterTurn a) (shared s)) (sv_container (server s))) s) = workers_of s"
    using writer_step_count [OF act_step [OF assms(1)]] assms(1) by (simp add: workers_of_def set_app_def on_writer_def)
qed

lemma phase_change_workers:
  assumes "service_step json_err s s'" "phase s' \<noteq> phase s"
  shows "workers_of s' = workers_of s"
  using assms(1)
proof (cases rule: service_step.cases)
  case (signal c)
  then show ?thesis
    by (auto simp: workers_of_def Shutdown_begin_def Let_def Stop_close_def Stop_flag_def on_writer_def split: option.splits if_splits)
next
  case (writer_stopped c)
  then show ?thesis
    by (auto simp: workers_of_def Shutdown_rest_def Let_def Stop_alerts_def split: option.splits if_splits)
qed (use assms(2) in \<open>auto simp: workers_of_def Shutdown_end_def set_app_def split: option.split\<close>)

lemma pooled_step_inv:
  assumes "pooled_step json_err lim sc sc'" "pooled_inv L E lim n sc"
  shows "pooled_inv L E lim n sc'"
  using assms(1)
proof (cases rule: pooled_step.cases)
  case (connection cs cs' s)
  have "length cs' = length cs" using connection(3) by (auto elim!: pool_stepE)
  then show ?thesis
    using assms(2) pool_step_inv [OF connection(3)] by (simp add: connection(1,2) pooled_inv_def pool_bounds_def)
next
  case (worker s a w cs S)
  have k: "slot (writer_of s) a < n" using assms(2) slot_worker [OF worker(5,4)] by (simp add: worker(1) pooled_inv_def workers_of_def)
  have i: "service_inv L E s" "workers_of s = n" "n + 2 \<le> length cs" "pool_inv lim (pool_bounds n cs) cs"
    using assms(2) by (simp_all add: worker(1) pooled_inv_def)
  have "pool_bounds n cs ! slot (writer_of s) a = 2" using k i(3) by (simp add: pool_bounds_nth)
  then have "pool_inv lim (pool_bounds n cs) (cs[slot (writer_of s) a := (0, action_sessions S a (writer_of s) w)])"
    using k i(3) action_sessions_fits by (intro pool_inv_start [OF i(4) _ worker(6)]) simp_all
  then show ?thesis
    using i service_step_inv [OF worker_turn_service(1) [OF worker(5,3,4)] i(1)] worker_turn_service(2) [OF worker(5,3,4)]
    by (simp add: worker(2) pooled_inv_def pool_bounds_def del: background_work.simps)
next
  case (aggregate s cs c G cy k)
  have "service_step json_err s (set_container ((sv_container (server s))\<lparr>coordinator := c\<rparr>) s)"
    using aggregate(3-7) by (intro service_step.aggregate)
  from service_step_inv [OF this] show ?thesis
    using assms(2) pool_inv_start [of lim "pool_bounds n cs" cs n "statements k"] aggregate(5) statements_fits
    by (auto simp: aggregate(1,2) pooled_inv_def pool_bounds_nth workers_of_def pool_bounds_def nth_append)
next
  case (dispatch s cs W us cy c G fault now fresh window k)
  have "service_step json_err s (set_container ((sv_container (server s))\<lparr>coordinator := c\<rparr>) s)"
    using dispatch(3-7) by (intro service_step.dispatch)
  from service_step_inv [OF this] show ?thesis
    using assms(2) pool_inv_start [of lim "pool_bounds n cs" cs "Suc n" "statements k"] dispatch(5) statements_fits
    by (auto simp: dispatch(1,2) pooled_inv_def pool_bounds_nth workers_of_def pool_bounds_def nth_append)
next
  case (other s s' cs k)
  then show ?thesis
    using assms(2) service_step_inv [OF other(3)] pool_inv_join [OF _ statements_fits]
    by (auto simp: pooled_inv_def pool_bounds_join workers_of_def same_work_def)
next
  case (signal s s' cs)
  then show ?thesis
    using assms(2) service_step_inv [OF signal(3)] phase_change_workers [OF signal(3)] by (simp add: pooled_inv_def)
next
  case (writer_stopped s s' cs)
  then show ?thesis
    using assms(2) service_step_inv [OF writer_stopped(3)] phase_change_workers [OF writer_stopped(3)] by (simp add: pooled_inv_def)
next
  case (ending s s' cs)
  then show ?thesis
    using assms(2) service_step_inv [OF ending(3)] phase_change_workers [OF ending(3)] by (simp add: pooled_inv_def)
qed

lemma pooled_steps_inv:
  "(pooled_step json_err lim)\<^sup>*\<^sup>* sc sc' \<Longrightarrow> pooled_inv L E lim n sc \<Longrightarrow> pooled_inv L E lim n sc'"
  by (induction rule: rtranclp_induct) (auto intro: pooled_step_inv)

section \<open>Waiting for connections ends\<close>

lemma pool_run: "(pool_step lim)\<^sup>*\<^sup>* cs cs' \<Longrightarrow> (pooled_step json_err lim)\<^sup>*\<^sup>* (s, cs) (s, cs')"
  by (induction rule: rtranclp_induct) (auto intro: rtranclp.rtrancl_into_rtrancl pooled_step.connection)

text \<open>With more connections than workers everybody gets through, at any moment.\<close>

lemma settle:
  assumes "pooled_inv L E lim n (s, cs)" "n < lim"
  shows "\<exists>cs'. (pooled_step json_err lim)\<^sup>*\<^sup>* (s, cs) (s, cs') \<and> pooled_inv L E lim n (s, cs') \<and> (\<forall>c \<in> set cs'. c = (0, []))"
proof -
  have i: "pool_inv lim (pool_bounds n cs) cs" using assms(1) by (simp add: pooled_inv_def)
  have "sum_list (map (\<lambda>mx. mx - 1) (pool_bounds n cs)) < lim"
    using assms(2) by (simp add: pool_bounds_def sum_list_replicate)
  from pool_completes [OF i this] obtain cs' where cs': "(pool_step lim)\<^sup>*\<^sup>* cs cs'" "\<forall>c \<in> set cs'. c = (0, [])"
    by blast
  from pool_run [OF cs'(1)] pooled_steps_inv [OF pool_run [OF cs'(1)] assms(1)] cs'(2) show ?thesis by blast
qed

lemma idle_slots:
  assumes "pooled_inv L E lim n (s, cs)" "\<forall>c \<in> set cs. c = (0, [])" "k < n + 2"
  shows "cs ! k = (0, [])"
  using assms nth_mem [of k cs] by (auto simp: pooled_inv_def)

text \<open>The workers' turns of a run of the writer, each after the connections of the turns before.\<close>

definition matching_session :: "goerr option \<Rightarrow> session_env" where
  "matching_session r = \<lparr>se_db = r, se_conn = None, se_driver = None\<rparr>"

lemma acquires_some: "\<exists>S. acquires S a"
proof -
  have m: "snd (acquirePgxConn (matching_session r)) = r" for r
    by (cases r) (simp_all add: acquirePgxConn_def matching_session_def)
  show ?thesis
  proof (cases a)
    case (OpTurn i t)
    then show ?thesis using m by (cases "turn_env t") auto
  next
    case (AnTurn i t)
    then show ?thesis using m by (cases "turn_env t") auto
  qed auto
qed

lemma writer_runs_pooled:
  assumes "pooled_inv L E lim n (s, cs)" "n < lim" "phase s \<noteq> Exited_main"
    "run_writer as (writer_of s) = Some w" "list_all goroutine (map WriterTurn as)"
  shows "\<exists>c cs'. (pooled_step json_err lim)\<^sup>*\<^sup>* (s, cs) (set_container c s, cs')
    \<and> app (kafka c) = on_writer (\<lambda>_. w) (shared s)"
  using assms
proof (induction as arbitrary: s cs)
  case Nil
  then show ?case
    by (intro exI [of _ "sv_container (server s)"] exI [of _ cs]) (simp add: on_writer_def)
next
  case (Cons a as)
  obtain cs1 where 1: "(pooled_step json_err lim)\<^sup>*\<^sup>* (s, cs) (s, cs1)" "pooled_inv L E lim n (s, cs1)"
      "\<forall>c \<in> set cs1. c = (0, [])"
    using settle [OF Cons.prems(1,2)] by blast
  obtain w1 where w1: "act a (writer_of s) = Some w1" "run_writer as w1 = Some w"
    using Cons.prems(4) by (auto simp: bind_eq_Some_conv)
  have g: "goroutine (WriterTurn a)" "list_all goroutine (map WriterTurn as)" using Cons.prems(5) by simp_all
  obtain S where S: "acquires S a" using acquires_some by blast
  have "slot (writer_of s) a < n + 2"
    using slot_worker [OF w1(1) g(1)] Cons.prems(1) by (simp add: pooled_inv_def workers_of_def)
  note idle = idle_slots [OF 1(2,3) this]
  let ?s = "set_container (set_app (background_work (WriterTurn a) (shared s)) (sv_container (server s))) s"
  note step = pooled_step.worker [OF Cons.prems(3) g(1) w1(1) idle S, of json_err lim]
  have sh: "shared ?s = on_writer (\<lambda>_. w1) (shared s)" using w1(1) by (simp add: set_app_def)
  have "\<exists>c cs'. (pooled_step json_err lim)\<^sup>*\<^sup>* (?s, cs1[slot (writer_of s) a := (0, action_sessions S a (writer_of s) w1)])
      (set_container c ?s, cs') \<and> app (kafka c) = on_writer (\<lambda>_. w) (shared ?s)"
  proof (rule Cons.IH [OF pooled_step_inv [OF step 1(2)] Cons.prems(2)])
    show "run_writer as (writer_of ?s) = Some w" unfolding sh using w1(2) by (simp add: on_writer_def)
  qed (use Cons.prems(3) g(2) in simp_all)
  then obtain c cs' where
      "(pooled_step json_err lim)\<^sup>*\<^sup>* (?s, cs1[slot (writer_of s) a := (0, action_sessions S a (writer_of s) w1)]) (set_container c s, cs')"
      "app (kafka c) = on_writer (\<lambda>_. w) (on_writer (\<lambda>_. w1) (shared s))"
    unfolding sh by auto
  moreover have "on_writer (\<lambda>_. w) (on_writer (\<lambda>_. w1) (shared s)) = on_writer (\<lambda>_. w) (shared s)"
    by (simp add: on_writer_def)
  ultimately show ?case using 1(1) step by (metis (no_types, lifting) converse_rtranclp_into_rtranclp rtranclp_trans)
qed

text \<open>The turns of the notifier's worker.\<close>

lemma notifier_runs_pooled:
  assumes "phase s \<noteq> Exited_main"
  shows "\<exists>c cs'. (pooled_step json_err lim)\<^sup>*\<^sup>* (s, cs) (set_container c s, cs')
    \<and> app (kafka c) = foldl (\<lambda>st b. background_work b st) (shared s) (map NotifierTurn posts)"
  using assms
proof (induction posts arbitrary: s cs)
  case Nil
  then show ?case by (intro exI [of _ "sv_container (server s)"] exI [of _ cs]) simp
next
  case (Cons post posts)
  let ?s = "set_container (set_app (background_work (NotifierTurn post) (shared s)) (sv_container (server s))) s"
  have "service_step json_err s ?s" using Cons.prems by (intro service_step.run) simp_all
  then have step: "pooled_step json_err lim (s, cs) (?s, cs @ [(0, statements 0)])"
    by (rule pooled_step.other) (simp_all add: same_work_def set_app_def)
  obtain c cs' where "(pooled_step json_err lim)\<^sup>*\<^sup>* (?s, cs @ [(0, statements 0)]) (set_container c ?s, cs')"
      "app (kafka c) = foldl (\<lambda>st b. background_work b st) (shared ?s) (map NotifierTurn posts)"
    using Cons.IH [of ?s "cs @ [(0, statements 0)]"] Cons.prems by auto
  then show ?case
    using step by (intro exI [of _ c] exI [of _ cs']) (auto simp: set_app_def intro: converse_rtranclp_into_rtranclp)
qed

section \<open>The stages of a shutdown\<close>

abbreviation reaches ::
  "(bytes \<Rightarrow> string) \<Rightarrow> nat \<Rightarrow> ('c, 'b, 'w, 'l) service \<times> client list \<Rightarrow> phase \<Rightarrow> bool" where
  "reaches json_err lim sc p \<equiv> \<exists>sc'. (pooled_step json_err lim)\<^sup>*\<^sup>* sc sc' \<and> phase (fst sc') = p"

lemma reachesI:
  "(pooled_step json_err lim)\<^sup>*\<^sup>* sc sc' \<Longrightarrow> phase (fst sc') = p \<Longrightarrow> reaches json_err lim sc p"
  by blast

lemma reaches_trans:
  fixes sc :: "('c, 'b, 'w, 'l) service \<times> client list"
  assumes "reaches json_err lim sc p" "pooled_inv L E lim n sc"
    "\<And>sc' :: ('c, 'b, 'w, 'l) service \<times> client list. pooled_inv L E lim n sc' \<Longrightarrow> phase (fst sc') = p \<Longrightarrow> reaches json_err lim sc' q"
  shows "reaches json_err lim sc q"
proof -
  obtain sc1 where 1: "(pooled_step json_err lim)\<^sup>*\<^sup>* sc sc1" "phase (fst sc1) = p" using assms(1) by blast
  obtain sc2 where "(pooled_step json_err lim)\<^sup>*\<^sup>* sc1 sc2" "phase (fst sc2) = q"
    using assms(3) pooled_steps_inv [OF 1(1) assms(2)] 1(2) by blast
  then show ?thesis by (rule reachesI [OF rtranclp_trans [OF 1(1)]])
qed

lemma signal_stage:
  assumes "pooled_inv L E lim n (s, cs)" "n < lim" "phase s = Serving"
  shows "reaches json_err lim (s, cs) StoppingWriter"
proof -
  obtain cs1 where 1: "(pooled_step json_err lim)\<^sup>*\<^sup>* (s, cs) (s, cs1)" "pooled_inv L E lim n (s, cs1)"
      "\<forall>c \<in> set cs1. c = (0, [])"
    using settle [OF assms(1,2)] by blast
  have "phase_inv Serving (shared s)" using assms(1,3) by (simp add: pooled_inv_def service_inv_def)
  from Shutdown_begin_runs [OF this] obtain c where "Shutdown_begin (sv_container (server s)) = Some c" by blast
  then have "service_step json_err s (set_container c (s\<lparr>phase := StoppingWriter\<rparr>))"
    using assms(3) by (intro service_step.signal)
  moreover have "workers_of s = n" using assms(1) by (simp add: pooled_inv_def)
  ultimately have "pooled_step json_err lim (s, cs1) (set_container c (s\<lparr>phase := StoppingWriter\<rparr>), cs1)"
    using assms(3) idle_slots [OF 1(2,3)] by (intro pooled_step.signal) simp_all
  with 1(1) have "(pooled_step json_err lim)\<^sup>*\<^sup>* (s, cs) (set_container c (s\<lparr>phase := StoppingWriter\<rparr>), cs1)"
    by (rule rtranclp.rtrancl_into_rtrancl)
  then show ?thesis by (rule reachesI) simp
qed

lemma writer_stage_pooled:
  assumes "pooled_inv L E lim n (s, cs)" "n < lim" "phase s = StoppingWriter"
  shows "reaches json_err lim (s, cs) StoppingNotifier"
proof -
  have p: "phase_inv StoppingWriter (shared s)" using assms(1,3) by (simp add: pooled_inv_def service_inv_def)
  then obtain as w where w: "run_writer as (writer_of s) = Some w" "list_all goroutine (map WriterTurn as)" "Stop_returned w"
    using writer_can_stop unfolding phase_inv_def by blast
  obtain c cs1 where c: "(pooled_step json_err lim)\<^sup>*\<^sup>* (s, cs) (set_container c s, cs1)"
      "app (kafka c) = on_writer (\<lambda>_. w) (shared s)"
    using writer_runs_pooled [OF assms(1,2) _ w(1,2), of json_err] assms(3) by auto
  note i1 = pooled_steps_inv [OF c(1) assms(1)]
  obtain cs2 where 2: "(pooled_step json_err lim)\<^sup>*\<^sup>* (set_container c s, cs1) (set_container c s, cs2)"
      "pooled_inv L E lim n (set_container c s, cs2)" "\<forall>c \<in> set cs2. c = (0, [])"
    using settle [OF i1 assms(2)] by blast
  have "phase_inv StoppingWriter (app (kafka c))" using i1 assms(3) by (simp add: pooled_inv_def service_inv_def)
  then obtain c' where c': "Shutdown_rest c = Some c'"
    by (auto simp: Shutdown_rest_def Let_def Stop_alerts_def phase_inv_def late_def)
  let ?s = "set_container c' ((set_container c s)\<lparr>phase := StoppingNotifier\<rparr>)"
  have "service_step json_err (set_container c s) ?s"
    by (rule service_step.writer_stopped) (simp_all add: c(2) c' w(3) assms(3))
  moreover have "workers_of (set_container c s) = n" using 2(2) by (simp add: pooled_inv_def)
  ultimately have "pooled_step json_err lim (set_container c s, cs2) (?s, cs2)"
    using assms(3) idle_slots [OF 2(2,3)] by (intro pooled_step.writer_stopped) simp_all
  with c(1) 2(1) have "(pooled_step json_err lim)\<^sup>*\<^sup>* (s, cs) (?s, cs2)" by (meson rtranclp.rtrancl_into_rtrancl rtranclp_trans)
  then show ?thesis by (rule reachesI) simp
qed

lemma notifier_stage_pooled:
  assumes "service_inv L E s" "phase s = StoppingNotifier"
  shows "reaches json_err lim (s, cs) ClosingServer"
proof -
  have "n_closed (notifier (shared s))"
    using assms by (simp add: service_inv_def phase_inv_def notifier_phase_def notifier_inv_def late_def)
  then obtain posts where posts: "n_workerDone (notifier (foldl (\<lambda>st b. background_work b st) (shared s) (map NotifierTurn posts)))"
    using notifier_can_stop by blast
  obtain c cs1 where c: "(pooled_step json_err lim)\<^sup>*\<^sup>* (s, cs) (set_container c s, cs1)" "n_workerDone (notifier (app (kafka c)))"
    using notifier_runs_pooled [of s json_err lim cs posts] assms(2) posts by auto
  have "\<exists>s'. service_step json_err (set_container c s) s' \<and> phase s' = ClosingServer"
    by (rule exI, rule conjI, rule service_step.notifier_stopped [where sql_db = None])
      (simp_all add: c(2) assms(2))
  then obtain s' where s': "service_step json_err (set_container c s) s'" "phase s' = ClosingServer" by blast
  have "pooled_step json_err lim (set_container c s, cs1) (s', cs1)"
    by (rule pooled_step.ending [OF s'(1)]) (simp_all add: assms(2) s'(2))
  with c(1) have "(pooled_step json_err lim)\<^sup>*\<^sup>* (s, cs) (s', cs1)" by (rule rtranclp.rtrancl_into_rtrancl)
  then show ?thesis by (rule reachesI) (simp add: s'(2))
qed

lemma last_stage_pooled: "phase s = ClosingServer \<Longrightarrow> reaches json_err lim (s, cs) Exited_main"
proof -
  assume p: "phase s = ClosingServer"
  have "pooled_step json_err lim (s, cs) (s\<lparr>phase := Exited_main\<rparr>, cs)"
    by (rule pooled_step.ending [OF service_step.closed [OF p]]) (simp_all add: p)
  then have "(pooled_step json_err lim)\<^sup>*\<^sup>* (s, cs) (s\<lparr>phase := Exited_main\<rparr>, cs)" by (rule r_into_rtranclp)
  then show ?thesis by (rule reachesI) simp
qed

lemma exit_from_notifier:
  assumes "pooled_inv L E lim n (s, cs)" "phase s = StoppingNotifier"
  shows "reaches json_err lim (s, cs) Exited_main"
proof (rule reaches_trans [OF _ assms(1)])
  show "reaches json_err lim (s, cs) ClosingServer"
    using assms by (intro notifier_stage_pooled [of L E]) (simp_all add: pooled_inv_def)
  show "reaches json_err lim sc' Exited_main" if "phase (fst sc') = ClosingServer" for sc' :: "('a, 'b, 'c, 'd) service \<times> client list"
    using last_stage_pooled [OF that, of json_err lim "snd sc'"] by simp
qed

lemma exit_from_writer:
  assumes "pooled_inv L E lim n (s, cs)" "n < lim" "phase s = StoppingWriter"
  shows "reaches json_err lim (s, cs) Exited_main"
proof (rule reaches_trans [OF writer_stage_pooled [OF assms] assms(1)])
  show "reaches json_err lim sc' Exited_main" if "pooled_inv L E lim n sc'" "phase (fst sc') = StoppingNotifier"
    for sc' :: "('a, 'b, 'c, 'd) service \<times> client list"
    using exit_from_notifier [of L E lim n "fst sc'" "snd sc'"] that by simp
qed

lemma exit_reached:
  assumes "pooled_inv L E lim n (s, cs)" "n < lim"
  shows "reaches json_err lim (s, cs) Exited_main"
proof (cases "phase s")
  case Serving
  show ?thesis
  proof (rule reaches_trans [OF signal_stage [OF assms Serving] assms(1)])
    show "reaches json_err lim sc' Exited_main" if "pooled_inv L E lim n sc'" "phase (fst sc') = StoppingWriter"
      for sc' :: "('a, 'b, 'c, 'd) service \<times> client list"
      using exit_from_writer [of L E lim n "fst sc'" "snd sc'"] that assms(2) by simp
  qed
next
  case Exited_main
  then show ?thesis by (intro reachesI [OF rtranclp.rtrancl_refl]) simp
qed (use assms exit_from_writer exit_from_notifier last_stage_pooled in blast)+

lemma pooled_boot:
  assumes "boot L E H = Inr sv"
  shows "pooled_inv L E lim (workers_of (start_service sv)) (start_pooled sv)"
proof -
  let ?n = "workers_of (start_service sv)"
  have "list_all2 (\<lambda>mx c. fits mx (fst c) (snd c)) (replicate ?n 2 @ replicate 2 1) (replicate (?n + 2) (0, []))"
    unfolding replicate_add by (intro list_all2_appendI) (simp_all only: list_all2_conv_all_nth length_replicate, simp_all)
  then show ?thesis
    using boot_inv [OF assms]
    by (simp add: pooled_inv_def start_pooled_def pool_inv_def pool_bounds_def in_use_def sum_list_replicate)
qed

section \<open>Properties\<close>

text \<open>
  C8. The service can always be stopped, if the database's pool has more connections than the
  writer has workers: whatever a booted service is doing, and whoever holds or waits for
  connections, there is a way on to the exit of the program. The coordinator's jobs and the workers
  get their connections and return, the workers empty their channels, \<open>Shutdown\<close> closes
  nothing twice, the notifier empties its queue. The pool's limit is kept throughout.
\<close>

theorem shutdown_gets_through:
  assumes "boot L E H = Inr sv" "h_db_settings H = Inr d"
    "int (workers_of (start_service sv)) < DbMaxOpenConns d" "lim = nat (DbMaxOpenConns d)"
    "(pooled_step json_err lim)\<^sup>*\<^sup>* (start_pooled sv) (s, cs)"
  shows "in_use cs \<le> lim
    \<and> (\<exists>s' cs'. (pooled_step json_err lim)\<^sup>*\<^sup>* (s, cs) (s', cs') \<and> phase s' = Exited_main)"
proof -
  let ?n = "workers_of (start_service sv)"
  have lim: "?n < lim" using assms(3,4) by simp
  have inv: "pooled_inv L E lim ?n (s, cs)" by (rule pooled_steps_inv [OF assms(5) pooled_boot [OF assms(1)]])
  have "reaches json_err lim (s, cs) Exited_main" by (rule exit_reached [OF inv lim])
  moreover have "in_use cs \<le> lim" using inv by (simp add: pooled_inv_def pool_inv_def)
  ultimately show ?thesis by auto
qed

theorem shutdown_gets_through_witness:
  "\<exists>(sv :: ((uuid \<times> bool) list, unit, unit, unit) server) s' cs'.
    boot plain_libs (\<lambda>ck. plain_env) plain_host = Inr sv \<and> workers_of (start_service sv) = 4
    \<and> (pooled_step (\<lambda>b. []) 50)\<^sup>*\<^sup>* (start_pooled sv) (s', cs') \<and> phase s' = Exited_main"
proof -
  obtain sv :: "((uuid \<times> bool) list, unit, unit, unit) server" where b: "boot plain_libs (\<lambda>ck. plain_env) plain_host = Inr sv"
      "st_writer (sv_stores sv) = NewDualEventWriterWithConfig 2 2 True [] []"
    using plain_boot by blast
  have n: "workers_of (start_service sv) = 4"
    using b(2) by (simp add: workers_of_def start_service_def NewDualEventWriterWithConfig_def new_pipe_def)
  obtain d where d: "h_db_settings plain_host = Inr d" "DbMaxOpenConns d = 50" by (auto simp: plain_host_def)
  have "(pooled_step (\<lambda>b. []) 50)\<^sup>*\<^sup>* (start_pooled sv)
      (fst (start_pooled sv), snd (start_pooled sv))"
    by simp
  from shutdown_gets_through [OF b(1) d(1) _ _ this] d(2) n b(1) show ?thesis by auto
qed

end
