(* ===== verification/Webhook_Receiver.thy ===== *)
theory Webhook_Receiver
  imports Event_Ingestion
begin

text \<open>
  The receiver of the webhooks, \<open>cmd/webhook-receiver/main.go\<close>: a store with the latest payload
  of every plant, the request handlers that fill and read it, and the decoding of a payload. What
  the receiver prints on its console is left out, as is the encoding of its answers.
\<close>

section \<open>Payloads\<close>

record WebhookPayload =
  wp_Bucket :: time
  wp_PlantSourceId :: string
  wp_PlantName :: string
  wp_PlantType :: string
  wp_Latitude :: "float64 option"
  wp_Longitude :: "float64 option"
  wp_AvgPowerGen :: "float64 option"
  wp_AvgPowerCon :: "float64 option"
  wp_AvgEfficiency :: "float64 option"
  wp_AvgTemp :: "float64 option"
  wp_SampleCount :: int
  wp_CalculatedAt :: time

definition zero_payload :: WebhookPayload where
  "zero_payload = \<lparr>wp_Bucket = zero_time, wp_PlantSourceId = [], wp_PlantName = [], wp_PlantType = [],
     wp_Latitude = None, wp_Longitude = None, wp_AvgPowerGen = None, wp_AvgPowerCon = None,
     wp_AvgEfficiency = None, wp_AvgTemp = None, wp_SampleCount = 0, wp_CalculatedAt = zero_time\<rparr>"

text \<open>
  \<open>time.Time\<close> decodes the bytes between the quotes as they are, escapes included: the bodies of
  the values of the outermost object that are strings, in the order of its members.
\<close>

fun raw_values :: "nat \<Rightarrow> token list \<Rightarrow> string option list" where
  "raw_values d [] = []"
| "raw_values d (t # ts) =
     (if t = TColon \<and> d = 1 then [case ts of TString b # _ \<Rightarrow> Some b | _ \<Rightarrow> None] else [])
     @ raw_values (if t = TLBrace \<or> t = TLBrack then Suc d
                   else if t = TRBrace \<or> t = TRBrack then d - 1 else d) ts"

definition time_member :: "json \<Rightarrow> string option \<Rightarrow> time \<Rightarrow> time option" where
  "time_member v raw old =
     (case v of
        JNull \<Rightarrow> Some old
      | JString s \<Rightarrow> Option.bind raw Parse_RFC3339Nano
      | _ \<Rightarrow> None)"

definition string_member :: "json \<Rightarrow> string \<Rightarrow> string option" where
  "string_member v old = (case v of JNull \<Rightarrow> Some old | JString s \<Rightarrow> Some s | _ \<Rightarrow> None)"

definition int_member :: "json \<Rightarrow> int \<Rightarrow> int option" where
  "int_member v old =
     (case v of
        JNull \<Rightarrow> Some old
      | JNumber n \<Rightarrow>
          (let ds = drop_sign n; i = (if ds = n then digits_val ds else - digits_val ds)
           in if list_all is_digit ds \<and> - (2 ^ 63) \<le> i \<and> i < 2 ^ 63 then Some i else None)
      | _ \<Rightarrow> None)"

definition set_payload_member ::
  "WebhookPayload \<Rightarrow> (string \<times> json) \<times> string option \<Rightarrow> WebhookPayload option" where
  "set_payload_member p m =
     (let k = fold_name (fst (fst m)); v = snd (fst m); f = float_member v
      in if k = ''BUCKET'' then map_option (\<lambda>x. p\<lparr>wp_Bucket := x\<rparr>) (time_member v (snd m) (wp_Bucket p))
         else if k = ''PLANT_SOURCE_ID''
           then map_option (\<lambda>x. p\<lparr>wp_PlantSourceId := x\<rparr>) (string_member v (wp_PlantSourceId p))
         else if k = ''PLANT_NAME'' then map_option (\<lambda>x. p\<lparr>wp_PlantName := x\<rparr>) (string_member v (wp_PlantName p))
         else if k = ''PLANT_TYPE'' then map_option (\<lambda>x. p\<lparr>wp_PlantType := x\<rparr>) (string_member v (wp_PlantType p))
         else if k = ''LATITUDE'' then map_option (\<lambda>x. p\<lparr>wp_Latitude := x\<rparr>) f
         else if k = ''LONGITUDE'' then map_option (\<lambda>x. p\<lparr>wp_Longitude := x\<rparr>) f
         else if k = ''AVG_POWER_GEN'' then map_option (\<lambda>x. p\<lparr>wp_AvgPowerGen := x\<rparr>) f
         else if k = ''AVG_POWER_CON'' then map_option (\<lambda>x. p\<lparr>wp_AvgPowerCon := x\<rparr>) f
         else if k = ''AVG_EFFICIENCY'' then map_option (\<lambda>x. p\<lparr>wp_AvgEfficiency := x\<rparr>) f
         else if k = ''AVG_TEMP'' then map_option (\<lambda>x. p\<lparr>wp_AvgTemp := x\<rparr>) f
         else if k = ''SAMPLE_COUNT'' then map_option (\<lambda>x. p\<lparr>wp_SampleCount := x\<rparr>) (int_member v (wp_SampleCount p))
         else if k = ''CALCULATED_AT''
           then map_option (\<lambda>x. p\<lparr>wp_CalculatedAt := x\<rparr>) (time_member v (snd m) (wp_CalculatedAt p))
         else Some p)"

fun set_payload_members ::
  "WebhookPayload \<Rightarrow> ((string \<times> json) \<times> string option) list \<Rightarrow> WebhookPayload option" where
  "set_payload_members p [] = Some p"
| "set_payload_members p (m # ms) = Option.bind (set_payload_member p m) (\<lambda>p. set_payload_members p ms)"

text \<open>\<open>json.Unmarshal(body, &payload)\<close>; \<^const>\<open>None\<close> is an error.\<close>

definition Unmarshal_payload :: "bytes \<Rightarrow> WebhookPayload option" where
  "Unmarshal_payload body =
     (case (scan SNormal body, json_parse body) of
        (Some ts, Some (JObject ms)) \<Rightarrow> set_payload_members zero_payload (zip ms (raw_values 0 ts))
      | (Some ts, Some JNull) \<Rightarrow> Some zero_payload
      | _ \<Rightarrow> None)"

section \<open>The store\<close>

record WebhookStore =
  data :: "string \<rightharpoonup> WebhookPayload"
  order :: "string list"

definition store_init :: WebhookStore where
  "store_init = \<lparr>data = Map.empty, order = []\<rparr>"

definition Add :: "WebhookPayload \<Rightarrow> WebhookStore \<Rightarrow> WebhookStore" where
  "Add payload s =
     (let s = (if data s (wp_PlantSourceId payload) = None
               then s\<lparr>order := order s @ [wp_PlantSourceId payload]\<rparr> else s)
      in s\<lparr>data := (data s)(wp_PlantSourceId payload \<mapsto> payload)\<rparr>)"

definition GetAll :: "WebhookStore \<Rightarrow> WebhookPayload list" where
  "GetAll s = List.map_filter (data s) (order s)"

section \<open>Requests\<close>

text \<open>A response: the status and its text.\<close>

definition handleWebhook ::
  "string \<Rightarrow> goerr + bytes \<Rightarrow> WebhookStore \<Rightarrow> (int \<times> string) \<times> WebhookStore" where
  "handleWebhook httpMethod read s =
     (if httpMethod \<noteq> ''POST'' then ((405, ''Method not allowed''), s)
      else case read of
        Inl err \<Rightarrow> ((400, ''Error reading body''), s)
      | Inr body \<Rightarrow>
          (case Unmarshal_payload body of
             None \<Rightarrow> ((400, ''Invalid JSON''), s)
           | Some payload \<Rightarrow> ((200, ''Webhook processed successfully''), Add payload s)))"

definition handleGetPlants :: "WebhookStore \<Rightarrow> int \<times> WebhookPayload list" where
  "handleGetPlants s = (200, GetAll s)"

definition handleHealth :: "int \<times> string" where
  "handleHealth = (200, ''ok'')"

text \<open>The status, the content type set, and the bytes sent; \<open>readFile\<close> reads the embedded files.\<close>

definition handleStatic :: "(string \<Rightarrow> bytes option) \<Rightarrow> string \<Rightarrow> int \<times> string option \<times> bytes" where
  "handleStatic readFile path =
     (let path = (if path = ''/'' then ''/index.html'' else path)
      in case readFile (''static'' @ path) of
           None \<Rightarrow> (404, None, [])
         | Some content \<Rightarrow>
             (200,
              if length path > 5 \<and> HasSuffix path ''.html'' then Some ''text/html''
              else if length path > 3 \<and> HasSuffix path ''.js'' then Some ''application/javascript''
              else if length path > 4 \<and> HasSuffix path ''.css'' then Some ''text/css''
              else None,
              content))"

section \<open>What the store holds\<close>

interpretation receiver_store: last_wins Add "\<lambda>k s. data s k" wp_PlantSourceId
  by unfold_locales (simp add: Add_def Let_def)

definition store_inv :: "WebhookStore \<Rightarrow> bool" where
  "store_inv s \<longleftrightarrow> distinct (order s) \<and> set (order s) = dom (data s)"

lemma Add_inv: "store_inv s \<Longrightarrow> store_inv (Add p s)"
  by (auto simp: store_inv_def Add_def Let_def)

text \<open>Every key once, at its first occurrence.\<close>

fun first_seen :: "'a list \<Rightarrow> 'a list" where
  "first_seen [] = []"
| "first_seen (x # xs) = x # filter (\<lambda>y. y \<noteq> x) (first_seen xs)"

lemma set_first_seen [simp]: "set (first_seen xs) = set xs"
  by (induction xs) auto

lemma order_fold:
  "store_inv s \<Longrightarrow> order (fold Add ps s) =
    order s @ filter (\<lambda>i. i \<notin> set (order s)) (first_seen (map wp_PlantSourceId ps))"
proof (induction ps arbitrary: s)
  case (Cons p ps)
  have "order (Add p s) = (if wp_PlantSourceId p \<in> set (order s) then order s else order s @ [wp_PlantSourceId p])"
    using Cons.prems by (auto simp: Add_def Let_def store_inv_def)
  then show ?case
    using Cons.IH [OF Add_inv [OF Cons.prems]] by (auto intro!: filter_cong)
qed simp

lemma map_filter_total:
  "(\<And>x. x \<in> set xs \<Longrightarrow> f x = Some (g x)) \<Longrightarrow> List.map_filter f xs = map g xs"
  by (induction xs) (auto simp: List.map_filter_def)

lemma GetAll_fold:
  "GetAll (fold Add ps store_init) =
    map (\<lambda>i. last (filter (\<lambda>p. wp_PlantSourceId p = i) ps)) (first_seen (map wp_PlantSourceId ps))"
proof -
  have d: "data (fold Add ps store_init) i = Some (last (filter (\<lambda>p. wp_PlantSourceId p = i) ps))"
    if "i \<in> set (first_seen (map wp_PlantSourceId ps))" for i
  proof -
    from that have "filter (\<lambda>p. wp_PlantSourceId p = i) ps \<noteq> []" by (auto simp: filter_empty_conv)
    then show ?thesis by (auto simp: receiver_store.get_fold split: list.split)
  qed
  have o: "order (fold Add ps store_init) = first_seen (map wp_PlantSourceId ps)"
    by (subst order_fold) (simp_all add: store_init_def store_inv_def)
  show ?thesis unfolding GetAll_def o by (rule map_filter_total) (rule d)
qed

text \<open>The payloads of the requests that were answered with 200.\<close>

definition accepted_payload :: "string \<times> (goerr + bytes) \<Rightarrow> WebhookPayload option" where
  "accepted_payload r =
     (case r of (m, Inr body) \<Rightarrow> if m = ''POST'' then Unmarshal_payload body else None | _ \<Rightarrow> None)"

lemma handleWebhook_store:
  "snd (handleWebhook m b s) = (case accepted_payload (m, b) of Some p \<Rightarrow> Add p s | None \<Rightarrow> s)"
  "fst (fst (handleWebhook m b s)) = 200 \<longleftrightarrow> accepted_payload (m, b) \<noteq> None"
  by (auto simp: handleWebhook_def accepted_payload_def split: sum.splits option.splits)

lemma requests_fold:
  "fold (\<lambda>(m, b) s. snd (handleWebhook m b s)) reqs s = fold Add (List.map_filter accepted_payload reqs) s"
  by (induction reqs arbitrary: s) (auto simp: handleWebhook_store List.map_filter_def split: option.split)

section \<open>Properties\<close>

text \<open>
  C38. Whatever the requests, the receiver shows every plant of an accepted webhook once, in the
  order of the first arrivals, with the payload that arrived last; requests that are answered
  with an error leave no trace.
\<close>

theorem receiver_shows_latest:
  "snd (handleGetPlants (fold (\<lambda>(m, b) s. snd (handleWebhook m b s)) reqs store_init)) =
    (let ps = List.map_filter accepted_payload reqs
     in map (\<lambda>i. last (filter (\<lambda>p. wp_PlantSourceId p = i) ps)) (first_seen (map wp_PlantSourceId ps)))"
  by (simp add: handleGetPlants_def requests_fold GetAll_fold Let_def)

end
