(* ===== verification/Go_Float_Back.thy ===== *)
theory Go_Float_Back
  imports Go_Scan Complex_Main
begin

text \<open>
  The shortest decimal of a finite \<open>float64\<close> reads back as the same float: seventeen digits always
  do, so the search of \<^const>\<open>shortest_from\<close> ends, and the number \<open>json.Marshal\<close> prints is a valid JSON
  number whose value is the float it was printed from.
\<close>

section \<open>Rounding\<close>

lemma round_half_even_near:
  assumes "0 < d"
  shows "\<bar>real_of_int (round_half_even n d) - real_of_int n / real_of_int d\<bar> \<le> 1 / 2"
proof -
  let ?q = "n div d" and ?r = "n mod d"
  have n: "real_of_int n = real_of_int ?q * real_of_int d + real_of_int ?r"
    by (metis div_mult_mod_eq of_int_add of_int_mult)
  have r: "0 \<le> ?r" "?r < d" using assms by simp_all
  have x: "real_of_int n / real_of_int d = real_of_int ?q + real_of_int ?r / real_of_int d"
    using assms by (simp add: n add_divide_distrib)
  consider "2 * ?r < d" | "2 * ?r = d" | "d < 2 * ?r" by linarith
  then have "2 * ?r \<le> d \<and> round_half_even n d = ?q \<or> d \<le> 2 * ?r \<and> round_half_even n d = ?q + 1"
    by cases (auto simp: round_half_even_def Let_def)
  moreover have "real_of_int ?r / real_of_int d \<le> 1 / 2" if "2 * ?r \<le> d"
    using that assms by (simp add: field_simps)
  moreover have "1 / 2 \<le> real_of_int ?r / real_of_int d" if "d \<le> 2 * ?r"
    using that assms by (simp add: field_simps)
  moreover have "0 \<le> real_of_int ?r / real_of_int d" "real_of_int ?r / real_of_int d < 1" using r assms by simp_all
  ultimately show ?thesis unfolding x by (auto simp: abs_if)
qed

lemma round_half_even_unique:
  assumes "0 < d" "\<bar>real_of_int n / real_of_int d - real_of_int m\<bar> < 1 / 2"
  shows "round_half_even n d = m"
proof -
  have "\<bar>real_of_int (round_half_even n d) - real_of_int m\<bar> < 1"
    using round_half_even_near [OF assms(1), of n] assms(2) by linarith
  then have "\<bar>round_half_even n d - m\<bar> < 1" by linarith
  then show ?thesis by simp
qed

lemma bit_len_unique: "2 ^ j \<le> n \<Longrightarrow> n < 2 ^ Suc j \<Longrightarrow> bit_len n = Suc j"
proof (induction j arbitrary: n)
  case 0
  then have "n = 1" by simp
  then show ?case by simp
next
  case (Suc j)
  then have "bit_len (n div 2) = Suc j" by simp
  moreover have "0 < n" using Suc.prems(1) by (smt (verit) zero_less_power)
  ultimately show ?case by (subst bit_len.simps) simp
qed

lemma bit_len_le: "n < 2 ^ j \<Longrightarrow> bit_len n \<le> j"
proof (induction j arbitrary: n)
  case 0
  then show ?case by (subst bit_len.simps) simp
next
  case (Suc j)
  then have "bit_len (n div 2) \<le> j" by simp
  then show ?case by (subst bit_len.simps) simp
qed

text \<open>
  A fraction near a float: within half a unit of its last place, or a quarter where the unit below
  is smaller.
\<close>

lemma round_bits_near:
  assumes "0 < D" "0 \<le> N" "0 \<le> m" "m < 2 ^ 53" "0 < t \<Longrightarrow> 2 ^ 52 \<le> m" "int t * 2 ^ 52 + m < infm"
    and near: "\<bar>real_of_int (N * 2 ^ 1074) / real_of_int D - real_of_int m * 2 ^ t\<bar> < 2 ^ t / 2"
    and tight: "0 < t \<Longrightarrow> m = 2 ^ 52 \<Longrightarrow>
      \<bar>real_of_int (N * 2 ^ 1074) / real_of_int D - real_of_int m * 2 ^ t\<bar> < 2 ^ t / 4"
  shows "round_bits 52 1074 infm N D = Some (int t * 2 ^ 52 + m)"
proof -
  define X where "X = N * 2 ^ 1074"
  define y where "y = real_of_int X / real_of_int D"
  have X: "0 \<le> X" using assms(2) by (simp add: X_def)
  have fl: "X div D = \<lfloor>y\<rfloor>" unfolding y_def by (rule floor_divide_of_int_eq [symmetric])
  have y: "\<bar>y - real_of_int m * 2 ^ t\<bar> < 2 ^ t / 2" using near by (simp add: y_def X_def)
  have scale: "real_of_int X / real_of_int (D * 2 ^ s) = y / 2 ^ s" for s by (simp add: y_def)
  have half: "\<bar>y / 2 ^ t - real_of_int m\<bar> < 1 / 2"
  proof -
    have "\<bar>y / 2 ^ t - real_of_int m\<bar> = \<bar>y - real_of_int m * 2 ^ t\<bar> / 2 ^ t" by (simp add: field_simps)
    also have "\<dots> < 1 / 2" using y by (simp add: field_simps)
    finally show ?thesis .
  qed
  have top: "y < 2 ^ (53 + t)"
  proof -
    have "real_of_int m \<le> real_of_int (2 ^ 53 - 1)" using assms(4) by (simp only: of_int_le_iff)
    then have "real_of_int m \<le> 2 ^ 53 - 1" by simp
    then have "y / 2 ^ t < 2 ^ 53" using half by linarith
    then show ?thesis by (simp add: field_simps power_add)
  qed
  have unit: "round_half_even X (D * 2 ^ t) = m"
    using assms(1) half unfolding scale [symmetric] by (intro round_half_even_unique) simp_all
  have "0 \<le> int t * 2 ^ 52 + m" using assms(3) by simp
  show ?thesis
  proof (cases "t = 0 \<or> 2 ^ (52 + t) \<le> y")
    case True
    have "bit_len (X div D) - 53 = t"
    proof (cases "t = 0")
      case True
      then have "X div D < 2 ^ 53" unfolding fl using top by (simp add: floor_less_iff)
      then show ?thesis using bit_len_le [of "X div D" 53] True by simp
    next
      case False
      then have "2 ^ (52 + t) \<le> X div D" "X div D < 2 ^ Suc (52 + t)"
        unfolding fl using True top by (simp_all add: le_floor_iff floor_less_iff)
      from bit_len_unique [OF this] show ?thesis by simp
    qed
    then show ?thesis using unit assms(6) by (simp add: round_bits_def Let_def X_def)
  next
    case False
    then have t: "0 < t" "y < 2 ^ (52 + t)" by simp_all
    have m: "m = 2 ^ 52"
    proof -
      have "y / 2 ^ t < 2 ^ 52" using t(2) by (simp add: field_simps power_add)
      then have "real_of_int m < 2 ^ 52 + 1" using half by linarith
      then have "real_of_int m < real_of_int (2 ^ 52 + 1)" by simp
      then have "m < 2 ^ 52 + 1" by (simp only: of_int_less_iff)
      then show ?thesis using assms(5) [OF t(1)] by linarith
    qed
    obtain t' where t': "t = Suc t'" using t(1) by (cases t) auto
    have q: "\<bar>y - real_of_int m * 2 ^ t\<bar> < 2 ^ t / 4" using tight [OF t(1) m] by (simp add: y_def X_def)
    have half': "\<bar>y / 2 ^ t' - real_of_int (2 ^ 53)\<bar> < 1 / 2"
    proof -
      have "\<bar>y / 2 ^ t' - real_of_int (2 ^ 53)\<bar> = \<bar>y - real_of_int m * 2 ^ t\<bar> / 2 ^ t'"
        by (simp add: m t' field_simps)
      also have "\<dots> < 1 / 2" using q by (simp add: t' field_simps)
      finally show ?thesis .
    qed
    moreover have "4503599627370496 \<le> z" if "\<bar>z - 9007199254740992\<bar> < 1 / 2" for z :: real using that by linarith
    ultimately have "2 ^ 52 \<le> y / 2 ^ t'" by simp
    then have "2 ^ (52 + t') \<le> y" by (simp add: field_simps power_add)
    then have "2 ^ (52 + t') \<le> X div D" "X div D < 2 ^ Suc (52 + t')"
      unfolding fl using t(2) by (simp_all add: le_floor_iff floor_less_iff t')
    from bit_len_unique [OF this] have s: "bit_len (X div D) - 53 = t'" by simp
    have "round_half_even X (D * 2 ^ t') = 2 ^ 53"
      using assms(1) half' unfolding scale [symmetric] by (intro round_half_even_unique) simp_all
    then show ?thesis using s assms(6) by (simp add: round_bits_def Let_def X_def m t')
  qed
qed

section \<open>Decimal digits\<close>

lemma digits_val_snoc: "digits_val (s @ [c]) = digits_val s * 10 + int (of_char c - 48)"
  by (simp add: digits_val_def)

lemma digits_val_Nil [simp]: "digits_val [] = 0"
  by (simp add: digits_val_def)

lemma digits_val_append: "digits_val (s @ t) = digits_val s * 10 ^ length t + digits_val t"
proof (induction t rule: rev_induct)
  case (snoc c t)
  have "digits_val (s @ t @ [c]) = digits_val (s @ t) * 10 + int (of_char c - 48)"
    using digits_val_snoc [of "s @ t" c] by simp
  then show ?case using snoc by (simp add: digits_val_snoc algebra_simps)
qed simp

lemma digits_val_zeros: "digits_val (replicate k CHR ''0'') = 0"
  by (induction k) (use digits_val_snoc in \<open>simp_all flip: replicate_append_same\<close>)

lemma digit_of [simp]:
  "n < 10 \<Longrightarrow> is_digit (char_of (48 + n :: nat))" "n < 10 \<Longrightarrow> of_char (char_of (48 + n :: nat)) = (48 + n :: nat)"
  by (simp_all add: is_digit_def byte_in_def of_char_of)

lemma digit_of_zero [simp]: "n < 10 \<Longrightarrow> char_of (48 + n :: nat) = CHR ''0'' \<longleftrightarrow> n = 0"
proof -
  assume "n < 10"
  have "char_of (48 + n :: nat) = CHR ''0'' \<longleftrightarrow> (of_char (char_of (48 + n :: nat)) :: nat) = of_char CHR ''0''"
    by (simp only: of_char_eq_iff)
  then show ?thesis using \<open>n < 10\<close> by simp
qed

lemma nat_digits_props:
  "nat_digits n \<noteq> [] \<and> list_all is_digit (nat_digits n) \<and> digits_val (nat_digits n) = int n
   \<and> n < 10 ^ length (nat_digits n) \<and> (0 < n \<longrightarrow> 10 ^ (length (nat_digits n) - 1) \<le> n \<and> hd (nat_digits n) \<noteq> CHR ''0'')"
proof (induction n rule: nat_digits.induct)
  case (1 n)
  show ?case
  proof (cases "n < 10")
    case True
    then have "nat_digits n = [char_of (48 + n)]" by (subst nat_digits.simps) simp
    then show ?thesis using True by (simp add: digits_val_def)
  next
    case False
    let ?q = "n div 10"
    have n: "nat_digits n = nat_digits ?q @ [char_of (48 + n mod 10)]"
      using False by (subst nat_digits.simps) simp
    have IH: "nat_digits ?q \<noteq> []" "list_all is_digit (nat_digits ?q)" "digits_val (nat_digits ?q) = int ?q"
        "?q < 10 ^ length (nat_digits ?q)" "10 ^ (length (nat_digits ?q) - 1) \<le> ?q" "hd (nat_digits ?q) \<noteq> CHR ''0''"
      using 1 [OF False] False by auto
    obtain l where l: "length (nat_digits ?q) = Suc l" using IH(1) by (cases "nat_digits ?q") auto
    have "n < 10 ^ Suc (Suc l)" "10 ^ Suc l \<le> n" using IH(4,5) by (auto simp: l)
    moreover have "int ?q * 10 + int (n mod 10) = int n" by presburger
    ultimately show ?thesis using IH by (simp add: n l digits_val_snoc del: of_nat_mod)
  qed
qed

lemma dec_point_below:
  assumes "0 < n" "n < d" "d \<le> 10 ^ fuel * n"
  shows "\<exists>j. dec_point_below fuel n d = - int j \<and> d \<le> 10 ^ Suc j * n \<and> 10 ^ j * n < d"
  using assms
proof (induction fuel arbitrary: n)
  case (Suc fuel)
  show ?case
  proof (cases "d \<le> 10 * n")
    case True
    then show ?thesis using Suc.prems by (intro exI [of _ 0]) simp
  next
    case False
    then obtain j where "dec_point_below fuel (10 * n) d = - int j" "d \<le> 10 ^ Suc j * (10 * n)" "10 ^ j * (10 * n) < d"
      using Suc.IH [of "10 * n"] Suc.prems by auto
    then show ?thesis using False by (intro exI [of _ "Suc j"]) (simp add: algebra_simps)
  qed
qed simp

lemma dec_point_bounds:
  assumes "0 < n" "0 < d" "d \<le> 10 ^ 400 * n"
  shows "10 powi (dec_point n d - 1) \<le> real_of_int n / real_of_int d" "real_of_int n / real_of_int d < 10 powi (dec_point n d)"
proof -
  have "10 powi (dec_point n d - 1) \<le> real_of_int n / real_of_int d \<and> real_of_int n / real_of_int d < 10 powi (dec_point n d)"
  proof (cases "d \<le> n")
    case True
    let ?q = "n div d" and ?l = "length (nat_digits (nat (n div d)))"
    have q: "0 < ?q" using True assms(2) by (simp add: pos_imp_zdiv_pos_iff)
    have "10 ^ (?l - 1) \<le> nat ?q" "nat ?q < 10 ^ ?l" using nat_digits_props [of "nat ?q"] q by auto
    then have b: "10 ^ (?l - 1) \<le> ?q" "?q < 10 ^ ?l" using q by (simp_all add: nat_less_iff le_nat_iff)
    have l: "0 < ?l" using nat_digits_props [of "nat ?q"] by simp
    have fl: "?q = \<lfloor>real_of_int n / real_of_int d\<rfloor>" by (rule floor_divide_of_int_eq [symmetric])
    have "10 ^ (?l - 1) \<le> real_of_int n / real_of_int d" "real_of_int n / real_of_int d < 10 ^ ?l"
      using b unfolding fl by (simp_all add: le_floor_iff floor_less_iff)
    moreover have "(10::real) powi (int ?l - 1) = 10 ^ (?l - 1)"
      using l power_int_of_nat [of "10::real" "?l - 1"] by (simp add: of_nat_diff Suc_leI)
    ultimately show ?thesis using True by (simp add: dec_point_def power_int_of_nat)
  next
    case False
    then obtain j where j: "dec_point n d = - int j" "d \<le> 10 ^ Suc j * n" "10 ^ j * n < d"
      using dec_point_below [OF assms(1) _ assms(3)] by (auto simp: dec_point_def)
    have "real_of_int d \<le> real_of_int (10 ^ Suc j * n)" "real_of_int (10 ^ j * n) < real_of_int d"
      using j(2,3) by (simp_all only: of_int_le_iff of_int_less_iff)
    then have r: "real_of_int d \<le> 10 ^ Suc j * real_of_int n" "10 ^ j * real_of_int n < real_of_int d"
      by (simp_all only: of_int_mult of_int_power of_int_numeral)
    have p: "(10::real) powi (- int j - 1) = 1 / 10 ^ Suc j" "(10::real) powi (- int j) = 1 / 10 ^ j"
      by (simp_all add: power_int_minus power_int_diff power_int_of_nat field_simps)
    show ?thesis using r assms(2) unfolding j(1) p by (simp add: field_simps)
  qed
  then show "10 powi (dec_point n d - 1) \<le> real_of_int n / real_of_int d"
    "real_of_int n / real_of_int d < 10 powi (dec_point n d)" by simp_all
qed

section \<open>Seventeen digits read back\<close>

text \<open>A finite magnitude as \<open>m * 2 ^ t\<close> units of the smallest denormal.\<close>

definition f64_shift :: "float64 \<Rightarrow> nat" where
  "f64_shift f = nat (f64_exp f + 1074)"

lemma f64_parts:
  "f64_exp f = int (f64_shift f) - 1074" "f64_mag f = int (f64_shift f) * 2 ^ 52 + f64_mant f"
  "0 \<le> f64_mant f" "f64_mant f < 2 ^ 53" "0 < f64_shift f \<Longrightarrow> 2 ^ 52 \<le> f64_mant f"
proof -
  let ?E = "f64_mag f div 2 ^ 52" and ?r = "f64_mag f mod 2 ^ 52"
  have mag: "0 \<le> f64_mag f" by (simp add: f64_mag_def)
  then have E: "0 \<le> ?E" by (simp add: pos_imp_zdiv_nonneg_iff)
  have r: "0 \<le> ?r" "?r < 2 ^ 52" by simp_all
  have d: "f64_mag f = ?E * 2 ^ 52 + ?r" by (rule div_mult_mod_eq [symmetric])
  show "f64_exp f = int (f64_shift f) - 1074" by (simp add: f64_shift_def f64_exp_def)
  have s: "int (f64_shift f) = max 1 ?E - 1" by (simp add: f64_shift_def f64_exp_def)
  show "f64_mag f = int (f64_shift f) * 2 ^ 52 + f64_mant f"
  proof (cases "?E = 0")
    case True
    then show ?thesis using d s by (simp add: f64_mant_def)
  next
    case False
    then have "max 1 ?E = ?E" using E by linarith
    then have "int (f64_shift f) * 2 ^ 52 + f64_mant f = ?E * 2 ^ 52 + ?r"
      unfolding s using False by (simp add: f64_mant_def algebra_simps)
    then show ?thesis using d by simp
  qed
  have "f64_mant f = ?r \<or> f64_mant f = ?r + 2 ^ 52"
    unfolding f64_mant_def by (cases "?E = 0") (simp_all only: if_True if_False simp_thms)
  then show "0 \<le> f64_mant f" "f64_mant f < 2 ^ 53" using r power_add [of "2::int" 52 1] by auto
  show "2 ^ 52 \<le> f64_mant f" if "0 < f64_shift f"
  proof -
    have "?E \<noteq> 0" using that s by (cases "?E = 0") auto
    then show ?thesis using r(1) by (simp add: f64_mant_def)
  qed
qed

lemma f64_pattern: "word_of_int (f64_mag f + (if f64_neg f then 2 ^ 63 else 0)) = f"
proof -
  have u: "0 \<le> uint f" "uint f < 2 ^ 64" using uint_bounded [of f] by simp_all
  have "f64_mag f + (if f64_neg f then 2 ^ 63 else 0) = uint f"
  proof (cases "f64_neg f")
    case True
    then have "2 ^ 63 \<le> uint f" by (simp add: f64_neg_def)
    then have "uint f mod 2 ^ 63 = (uint f - 2 ^ 63) mod 2 ^ 63" by (intro mod_pos_geq) simp_all
    also have "\<dots> = uint f - 2 ^ 63" using \<open>2 ^ 63 \<le> uint f\<close> u(2) by (intro mod_pos_pos_trivial) simp_all
    finally have "uint f mod 2 ^ 63 = uint f - 2 ^ 63" .
    then show ?thesis using True by (simp add: f64_mag_def)
  next
    case False
    then show ?thesis using u(1) by (simp add: f64_mag_def f64_neg_def)
  qed
  then show ?thesis by simp
qed

text \<open>The fraction \<open>f64_of_scaled\<close> hands on.\<close>

definition scaled_frac :: "int \<Rightarrow> int \<Rightarrow> int \<times> int" where
  "scaled_frac c x = (if 0 \<le> x then (c * 10 ^ nat x, 1) else (c, 10 ^ nat (- x)))"

lemma f64_of_scaled_frac: "f64_of_scaled neg c 10 x = f64_of_frac neg (fst (scaled_frac c x)) (snd (scaled_frac c x))"
  by (simp add: f64_of_scaled_def scaled_frac_def)

lemma scaled_frac_value:
  "0 < snd (scaled_frac c x)"
  "real_of_int (fst (scaled_frac c x)) / real_of_int (snd (scaled_frac c x)) = real_of_int c * 10 powi x"
proof -
  show "0 < snd (scaled_frac c x)" by (simp add: scaled_frac_def)
  show "real_of_int (fst (scaled_frac c x)) / real_of_int (snd (scaled_frac c x)) = real_of_int c * 10 powi x"
    by (cases "0 \<le> x") (simp_all only: scaled_frac_def power_int_def if_True if_False fst_conv snd_conv of_int_mult
        of_int_power of_int_numeral of_int_1 divide_inverse inverse_1 mult_1_right power_inverse)
qed

lemma reads_back:
  assumes "f64_mag f < f64_inf_mag" "0 \<le> c"
    "\<bar>real_of_int c * 10 powi x * 2 ^ 1074 - real_of_int (f64_mant f) * 2 ^ f64_shift f\<bar>
      \<le> real_of_int (f64_mant f) * 2 ^ f64_shift f / (2 * 10 ^ 16)"
    "0 < f64_mant f"
  shows "f64_of_scaled (f64_neg f) c 10 x = Some f"
proof -
  let ?m = "f64_mant f" and ?t = "f64_shift f"
  let ?N = "fst (scaled_frac c x)" and ?D = "snd (scaled_frac c x)"
  have y: "real_of_int (?N * 2 ^ 1074) / real_of_int ?D = real_of_int c * 10 powi x * 2 ^ 1074"
    using scaled_frac_value(2) [of c x] by (simp only: of_int_mult of_int_power of_int_numeral times_divide_eq_left [symmetric])
  have N: "0 \<le> ?N" using assms(2) by (simp add: scaled_frac_def)
  have "real_of_int ?m < 10 ^ 16"
  proof -
    have "?m < 10 ^ 16" using f64_parts(4) [of f] by simp
    then have "real_of_int ?m < real_of_int (10 ^ 16)" by (simp only: of_int_less_iff)
    then show ?thesis by simp
  qed
  then have "real_of_int ?m * 2 ^ ?t / (2 * 10 ^ 16) < 2 ^ ?t / 2" by (simp add: field_simps)
  then have near: "\<bar>real_of_int (?N * 2 ^ 1074) / real_of_int ?D - real_of_int ?m * 2 ^ ?t\<bar> < 2 ^ ?t / 2"
    unfolding y using assms(3) by linarith
  have tight: "\<bar>real_of_int (?N * 2 ^ 1074) / real_of_int ?D - real_of_int ?m * 2 ^ ?t\<bar> < 2 ^ ?t / 4" if "?m = 2 ^ 52"
  proof -
    have "real_of_int ?m * 2 ^ ?t / (2 * 10 ^ 16) < 2 ^ ?t / 4" unfolding that by simp
    then show ?thesis unfolding y using assms(3) by linarith
  qed
  have "int ?t * 2 ^ 52 + ?m < f64_inf_mag" using assms(1) by (simp only: f64_parts(2) [of f])
  from round_bits_near [OF scaled_frac_value(1) N f64_parts(3,4,5) this near tight]
  have rb: "round_bits 52 1074 f64_inf_mag ?N ?D = Some (f64_mag f)" by (simp only: f64_parts(2) [of f])
  show ?thesis by (simp only: f64_of_scaled_frac f64_of_frac_def rb option.map f64_pattern)
qed

lemma digits_at_near:
  assumes "digits_at back n d k p = Some c" "0 < d" "0 \<le> n"
  shows "back c (k - int p)" "0 \<le> c"
  using assms round_half_even_nonneg
  by (auto simp: digits_at_def Let_def split: if_splits)

lemma digits_at_rounds:
  assumes "0 < d"
  shows "\<exists>c. \<bar>real_of_int c - real_of_int n / real_of_int d * 10 powi (int p - k)\<bar> \<le> 1 / 2
    \<and> (back c (k - int p) \<longrightarrow> digits_at back n d k p = Some c) \<and> (0 \<le> n \<longrightarrow> 0 \<le> c)"
proof (cases "0 \<le> int p - k")
  case True
  let ?c = "round_half_even (n * 10 ^ nat (int p - k)) d"
  have "real_of_int (n * 10 ^ nat (int p - k)) / real_of_int d = real_of_int n / real_of_int d * 10 powi (int p - k)"
    using True by (simp add: power_int_def)
  then have "\<bar>real_of_int ?c - real_of_int n / real_of_int d * 10 powi (int p - k)\<bar> \<le> 1 / 2"
    using round_half_even_near [OF assms, of "n * 10 ^ nat (int p - k)"] by (simp only:)
  moreover have "digits_at back n d k p = (if back ?c (k - int p) then Some ?c else None)"
    using True unfolding digits_at_def Let_def by (simp only: if_True minus_diff_eq)
  moreover have "0 \<le> n \<Longrightarrow> 0 \<le> ?c" by (rule round_half_even_nonneg [OF _ assms]) simp
  ultimately show ?thesis by (intro exI [of _ ?c] conjI impI) (simp_all only: if_True)
next
  case False
  let ?c = "round_half_even n (d * 10 ^ nat (- (int p - k)))"
  have d: "0 < d * 10 ^ nat (- (int p - k))" using assms by simp
  have "real_of_int n / real_of_int (d * 10 ^ nat (- (int p - k))) = real_of_int n / real_of_int d * 10 powi (int p - k)"
    using False by (simp only: power_int_def if_False of_int_mult of_int_power of_int_numeral divide_inverse
        inverse_mult_distrib power_inverse mult.assoc)
  then have "\<bar>real_of_int ?c - real_of_int n / real_of_int d * 10 powi (int p - k)\<bar> \<le> 1 / 2"
    using round_half_even_near [OF d, of n] by (simp only:)
  moreover have "digits_at back n d k p = (if back ?c (k - int p) then Some ?c else None)"
    using False unfolding digits_at_def Let_def by (simp only: if_False minus_diff_eq)
  moreover have "0 \<le> n \<Longrightarrow> 0 \<le> ?c" by (rule round_half_even_nonneg [OF _ d])
  ultimately show ?thesis by (intro exI [of _ ?c] conjI impI) (simp_all only: if_True)
qed

lemma shortest_from_finds:
  assumes "p \<le> q" "q < p + fuel" "digits_at back n d k q \<noteq> None" "0 < d" "0 \<le> n"
  shows "\<exists>c x. shortest_from fuel p back n d k = (c, x) \<and> back c x \<and> 0 \<le> c"
  using assms
proof (induction fuel arbitrary: p)
  case (Suc fuel)
  show ?case
  proof (cases "digits_at back n d k p")
    case None
    then have "p \<noteq> q" using Suc.prems(3) by auto
    then show ?thesis using Suc.IH [of "Suc p"] Suc.prems None by simp
  next
    case (Some c)
    then show ?thesis using digits_at_near [OF Some Suc.prems(4,5)] by simp
  qed
qed simp

lemma seventeen_digits:
  assumes "f64_mag f < f64_inf_mag" "0 < f64_mant f"
    "n = (if 0 \<le> f64_exp f then f64_mant f * 2 ^ nat (f64_exp f) else f64_mant f)"
    "d = (if 0 \<le> f64_exp f then 1 else 2 ^ nat (- f64_exp f))"
  shows "digits_at (\<lambda>c x. f64_of_scaled (f64_neg f) c 10 x = Some f) n d (dec_point n d) 17 \<noteq> None" "0 < d" "0 < n"
proof -
  let ?m = "f64_mant f" and ?t = "f64_shift f" and ?k = "dec_point n d"
  show d: "0 < d" and n: "0 < n" using assms(2-4) by auto
  have e: "f64_exp f = int ?t - 1074" by (rule f64_parts(1))
  have v: "real_of_int n / real_of_int d * 2 ^ 1074 = real_of_int ?m * 2 ^ ?t"
  proof (cases "0 \<le> f64_exp f")
    case True
    then have "?t = nat (f64_exp f) + 1074" using e by linarith
    then have "(2::real) ^ ?t = 2 ^ nat (f64_exp f) * 2 ^ 1074" by (simp only: power_add)
    then show ?thesis
      using True by (simp only: assms(3,4) if_True of_int_mult of_int_power of_int_numeral of_int_1 div_by_1 mult.assoc)
  next
    case False
    then have "nat (- f64_exp f) + ?t = 1074" using e by linarith
    then have "(2::real) ^ nat (- f64_exp f) * 2 ^ ?t = 2 ^ 1074" by (simp only: power_add [symmetric])
    moreover have "real_of_int ?m / 2 ^ nat (- f64_exp f) * (2 ^ nat (- f64_exp f) * 2 ^ ?t) = real_of_int ?m * 2 ^ ?t" by simp
    ultimately show ?thesis using False by (simp only: assms(3,4) if_False of_int_power of_int_numeral)
  qed
  have "d \<le> 10 ^ 400 * n"
  proof -
    have "d \<le> 2 ^ 1074"
    proof (cases "0 \<le> f64_exp f")
      case False
      then have "nat (- f64_exp f) \<le> 1074" using e by linarith
      then show ?thesis using False assms(4) power_increasing [of "nat (- f64_exp f)" 1074 "2::int"] by simp
    qed (use assms(4) in simp)
    also have "(2::int) ^ 1074 \<le> 10 ^ 400" by simp
    also have "\<dots> \<le> 10 ^ 400 * n" using n by simp
    finally show ?thesis .
  qed
  from dec_point_bounds(1) [OF n d this] have k: "10 powi (?k - 1) \<le> real_of_int n / real_of_int d" .
  obtain c where c: "\<bar>real_of_int c - real_of_int n / real_of_int d * 10 powi (int 17 - ?k)\<bar> \<le> 1 / 2"
      "f64_of_scaled (f64_neg f) c 10 (?k - int 17) = Some f \<longrightarrow>
        digits_at (\<lambda>c x. f64_of_scaled (f64_neg f) c 10 x = Some f) n d ?k 17 = Some c" "0 \<le> c"
    using digits_at_rounds [OF d, of n 17 ?k "\<lambda>c x. f64_of_scaled (f64_neg f) c 10 x = Some f"] n by auto
  define P where "P = (10::real) powi (?k - 17)"
  have P: "0 < P" "P * 10 powi (17 - ?k) = 1" "P * 10 ^ 16 = 10 powi (?k - 1)"
  proof -
    show "0 < P" by (simp add: P_def)
    show "P * 10 powi (17 - ?k) = 1" unfolding P_def by (simp flip: power_int_add)
    have "P * 10 ^ 16 = 10 powi (?k - 17) * 10 powi 16" unfolding P_def by (simp only: power_int_numeral)
    also have "\<dots> = 10 powi (?k - 17 + 16)" by (rule power_int_add [symmetric]) simp
    also have "?k - 17 + 16 = ?k - 1" by simp
    finally show "P * 10 ^ 16 = 10 powi (?k - 1)" .
  qed
  let ?v = "real_of_int n / real_of_int d"
  have alg: "a * P * B - v * B = (a - v * Q) * P * B" if "P * Q = 1" for a B v Q :: real
  proof -
    have "v * Q * P * B = v * B * (P * Q)" by (simp only: mult_ac)
    then show ?thesis by (simp add: left_diff_distrib that)
  qed
  have "real_of_int c * P * 2 ^ 1074 - real_of_int ?m * 2 ^ ?t = (real_of_int c - ?v * 10 powi (17 - ?k)) * P * 2 ^ 1074"
    unfolding v [symmetric] by (rule alg [OF P(2)])
  then have "\<bar>real_of_int c * P * 2 ^ 1074 - real_of_int ?m * 2 ^ ?t\<bar>
      = \<bar>real_of_int c - ?v * 10 powi (17 - ?k)\<bar> * P * 2 ^ 1074"
    using P(1) by (simp only: abs_mult abs_of_pos power_abs abs_numeral)
  also have "\<dots> \<le> 1 / 2 * P * 2 ^ 1074" using c(1) P(1) by (intro mult_right_mono) simp_all
  also have "\<dots> \<le> ?v * 2 ^ 1074 / (2 * 10 ^ 16)"
  proof -
    have "P * 10 ^ 16 \<le> ?v" using k P(3) by simp
    then have "P * 10 ^ 16 * 2 ^ 1074 \<le> ?v * 2 ^ 1074" by (rule mult_right_mono) simp
    moreover have "1 / 2 * P * B \<le> W / (2 * T)" if "P * T * B \<le> W" "0 < T" for B T W :: real
      using that by (simp add: field_simps)
    ultimately show ?thesis by (simp only: zero_less_power zero_less_numeral)
  qed
  finally have "\<bar>real_of_int c * 10 powi (?k - int 17) * 2 ^ 1074 - real_of_int ?m * 2 ^ ?t\<bar>
      \<le> real_of_int ?m * 2 ^ ?t / (2 * 10 ^ 16)"
    unfolding v by (simp add: P_def)
  from reads_back [OF assms(1) c(3) this assms(2)] c(2)
  show "digits_at (\<lambda>c x. f64_of_scaled (f64_neg f) c 10 x = Some f) n d ?k 17 \<noteq> None" by simp
qed

text \<open>So the shortest digits of a finite float that is not zero read back as this float.\<close>

lemma f64_of_frac_zero: "f64_of_frac neg 0 D = Some f \<Longrightarrow> 0 < D \<Longrightarrow> f64_mag f = 0"
  by (auto simp: f64_of_frac_def round_bits_def Let_def round_half_even_def f64_inf_mag_def f64_mag_def split: if_splits)

lemma f64_of_scaled_zero: "f64_of_scaled neg 0 10 x = Some f \<Longrightarrow> f64_mag f = 0"
  using f64_of_frac_zero by (auto simp: f64_of_scaled_def split: if_splits)

lemma f64_digits_back:
  assumes "f64_mag f < f64_inf_mag" "f64_mag f \<noteq> 0"
  shows "\<exists>c x. 0 < c \<and> f64_digits f = (strip_zeros (nat_digits (nat c)), int (length (nat_digits (nat c))) + x)
    \<and> f64_of_scaled (f64_neg f) c 10 x = Some f"
proof -
  have m: "0 < f64_mant f"
    using f64_parts(2,3,5) [of f] assms(2) by (cases "f64_shift f = 0") auto
  define n where "n = (if 0 \<le> f64_exp f then f64_mant f * 2 ^ nat (f64_exp f) else f64_mant f)"
  define d where "d = (if 0 \<le> f64_exp f then 1 else 2 ^ nat (- f64_exp f) :: int)"
  let ?same = "\<lambda>c x. f64_of_scaled (f64_neg f) c 10 x = Some f"
  note s = seventeen_digits [OF assms(1) m n_def d_def]
  obtain c x where c: "shortest_from 17 1 ?same n d (dec_point n d) = (c, x)" "?same c x" "0 \<le> c"
    using shortest_from_finds [OF _ _ s(1,2), of 1 17] s(3) by auto
  have "c \<noteq> 0" using c(2) f64_of_scaled_zero assms(2) by blast
  moreover have "f64_digits f = (strip_zeros (nat_digits (nat c)), int (length (nat_digits (nat c))) + x)"
    using c(1) assms(2) by (simp add: f64_digits_def shortest_digits_def Let_def flip: n_def d_def)
  moreover have "0 < c" using calculation(1) c(3) by simp
  ultimately show ?thesis using c(2) by blast
qed

end
