(* ===== verification/Go_Number_Back.thy ===== *)
theory Go_Number_Back
  imports Go_Float_Back Go_Time
begin

text \<open>
  The numbers \<open>json.Marshal\<close> prints are valid JSON, and read back as the numbers they were printed from.
\<close>

section \<open>The value of a decimal\<close>

lemma round_half_even_scale: "0 < g \<Longrightarrow> round_half_even (n * g) (d * g) = round_half_even n d"
proof -
  assume g: "0 < g"
  have q: "n * g div (d * g) = n div d" using g by simp
  have r: "n * g mod (d * g) = n mod d * g" by (rule mod_mult_mult2)
  have "2 * (n mod d * g) < d * g \<longleftrightarrow> 2 * (n mod d) < d"
    using mult_less_cancel_right_pos [OF g, of "2 * (n mod d)" d] by (simp only: mult.assoc)
  moreover have "2 * (n mod d * g) = d * g \<longleftrightarrow> 2 * (n mod d) = d"
    using g mult_cancel_right [of "2 * (n mod d)" g d] by (simp only: mult.assoc) simp
  ultimately show ?thesis by (simp only: round_half_even_def Let_def q r)
qed

lemma round_bits_scale: "0 < g \<Longrightarrow> round_bits mb q infm (n * g) (d * g) = round_bits mb q infm n d"
proof -
  assume g: "0 < g"
  have x: "n * g * 2 ^ q = n * 2 ^ q * g" by (simp only: mult.assoc mult.commute [of g])
  have "n * 2 ^ q * g div (d * g) = n * 2 ^ q div d" using g by simp
  moreover have "round_half_even (n * 2 ^ q * g) (d * g * 2 ^ s) = round_half_even (n * 2 ^ q) (d * 2 ^ s)" for s
  proof -
    have "d * g * 2 ^ s = d * 2 ^ s * g" by (simp only: mult.assoc mult.commute [of g])
    then show ?thesis using round_half_even_scale [OF g, of "n * 2 ^ q" "d * 2 ^ s"] by (simp only:)
  qed
  ultimately show ?thesis unfolding round_bits_def Let_def x by (simp only:)
qed

lemma f64_of_frac_eq:
  assumes "0 < d" "0 < d'" "real_of_int n / real_of_int d = real_of_int n' / real_of_int d'"
  shows "f64_of_frac neg n d = f64_of_frac neg n' d'"
proof -
  have "real_of_int n * real_of_int d' = real_of_int n' * real_of_int d"
    using assms by (simp add: frac_eq_eq)
  then have "real_of_int (n * d') = real_of_int (n' * d)" by (simp only: of_int_mult)
  then have e: "n * d' = n' * d" by (simp only: of_int_eq_iff)
  have "round_bits 52 1074 f64_inf_mag n d = round_bits 52 1074 f64_inf_mag (n * d') (d * d')"
    by (rule round_bits_scale [OF assms(2), symmetric])
  also have "\<dots> = round_bits 52 1074 f64_inf_mag (n' * d) (d' * d)" by (simp only: e mult.commute [of d])
  also have "\<dots> = round_bits 52 1074 f64_inf_mag n' d'" by (rule round_bits_scale [OF assms(1)])
  finally show ?thesis by (simp only: f64_of_frac_def)
qed

lemma f64_of_scaled_eq:
  "real_of_int m * 10 powi e = real_of_int m' * 10 powi e' \<Longrightarrow> f64_of_scaled neg m 10 e = f64_of_scaled neg m' 10 e'"
  unfolding f64_of_scaled_frac using scaled_frac_value by (intro f64_of_frac_eq) simp_all

text \<open>Digits moved between the number and its exponent.\<close>

lemma f64_of_scaled_shift: "f64_of_scaled neg (m * 10 ^ k) 10 e = f64_of_scaled neg m 10 (e + int k)"
  by (rule f64_of_scaled_eq) (simp add: power_int_add)

section \<open>Numbers\<close>

lemma digit_chars [simp]:
  "is_digit c \<Longrightarrow> c \<noteq> CHR ''-''" "is_digit c \<Longrightarrow> c \<noteq> CHR ''+''" "is_digit c \<Longrightarrow> c \<noteq> CHR ''.''"
  "is_digit c \<Longrightarrow> c \<noteq> CHR ''e''" "\<not> is_digit CHR ''-''" "\<not> is_digit CHR ''.''" "\<not> is_digit CHR ''e''"
  "\<not> is_digit CHR ''+''" "is_digit CHR ''0''"
  by (auto simp: is_digit_def byte_in_def)

lemma takeWhile_digits:
  assumes "list_all is_digit ds" "t = [] \<or> \<not> is_digit (hd t)"
  shows "takeWhile is_digit (ds @ t) = ds" "dropWhile is_digit (ds @ t) = t"
proof -
  have "takeWhile is_digit t = []" "dropWhile is_digit t = t" using assms(2) by (cases t; simp)+
  then show "takeWhile is_digit (ds @ t) = ds" "dropWhile is_digit (ds @ t) = t"
    using assms(1) by (induction ds) simp_all
qed

text \<open>A number by its parts: sign, integer part, fraction, exponent.\<close>

definition good_exponent :: "string \<Rightarrow> bool" where
  "good_exponent ex \<longleftrightarrow>
     ex = [] \<or> (\<exists>sg ds. ex = CHR ''e'' # sg # ds \<and> sg \<in> {CHR ''+'', CHR ''-''} \<and> ds \<noteq> [] \<and> list_all is_digit ds)"

lemma good_exponent_valid: "good_exponent ex \<Longrightarrow> valid_exponent ex \<and> (ex = [] \<or> hd ex = CHR ''e'')"
  by (auto simp: good_exponent_def)

lemma number_parts:
  assumes ip: "list_all is_digit ip" "ip \<noteq> []" "hd ip = CHR ''0'' \<Longrightarrow> length ip = 1"
    and fp: "list_all is_digit fp" and ex: "good_exponent ex"
    and s: "s = (if neg then ''-'' else []) @ ip @ (if fp = [] then [] else CHR ''.'' # fp) @ ex"
  shows "valid_number s" "number_val s = f64_of_scaled neg (digits_val (ip @ fp)) 10 (exponent_val ex - int (length fp))"
    "s \<noteq> []" "list_all is_word s"
proof -
  define r where "r = (if fp = [] then [] else CHR ''.'' # fp) @ ex"
  have sign: "drop_sign s = ip @ r" "(s \<noteq> ip @ r) = neg"
    using ip(1,2) by (cases ip; auto simp: s r_def drop_sign_def)+
  have e: "ex = [] \<or> \<not> is_digit (hd ex)" "ex = [] \<or> hd ex = CHR ''e''" "valid_exponent ex"
    using good_exponent_valid [OF ex] by (cases ex; auto)+
  have r: "r = [] \<or> \<not> is_digit (hd r)" using e(1) by (cases "fp = []") (auto simp: r_def)
  note ip' = takeWhile_digits [OF ip(1) r] and fp' = takeWhile_digits [OF fp e(1)]
  have frac: "valid_fraction r \<and> (case r of c # q \<Rightarrow> if c = CHR ''.'' then takeWhile is_digit q else [] | [] \<Rightarrow> []) = fp
      \<and> (case r of c # q \<Rightarrow> if c = CHR ''.'' then dropWhile is_digit q else r | [] \<Rightarrow> []) = ex"
  proof (cases "fp = []")
    case True
    then have "r = ex" by (simp add: r_def)
    then show ?thesis using e(2,3) True by (cases ex) auto
  next
    case False
    then have "r = CHR ''.'' # (fp @ ex)" by (simp add: r_def)
    then show ?thesis using False fp' e(3) by simp
  qed
  note frac = conjunct1 [OF frac] conjunct1 [OF conjunct2 [OF frac]] conjunct2 [OF conjunct2 [OF frac]]
  show "valid_number s"
    using ip(2,3) frac(1) by (simp only: valid_number_def sign ip' Let_def) simp
  show "number_val s = f64_of_scaled neg (digits_val (ip @ fp)) 10 (exponent_val ex - int (length fp))"
    by (simp only: number_val_def sign ip' Let_def frac(2,3))
  show "s \<noteq> []" using ip(2) by (simp add: s)
  have w: "list_all is_word ds" if "list_all is_digit ds" for ds
    using that by (auto simp: list_all_iff is_word_def)
  have "list_all is_word ex"
    using ex w by (auto simp: good_exponent_def) (auto simp: is_word_def byte_in_def)
  then show "list_all is_word s" using w [OF ip(1)] w [OF fp] by (simp add: s is_word_def)
qed

text \<open>Printed digits: with a point, and with an exponent.\<close>

lemma format_f_number:
  assumes d: "list_all is_digit digs" "digs \<noteq> []" "hd digs \<noteq> CHR ''0'' \<or> digs = ''0'' \<and> dp = 1"
    and s: "s = (if neg then ''-'' else []) @ format_f digs dp"
  shows "valid_number s" "number_val s = f64_of_scaled neg (digits_val digs) 10 (dp - int (length digs))"
    "s \<noteq> []" "list_all is_word s"
proof -
  have nil: "good_exponent []" "exponent_val [] = 0" by (simp_all add: good_exponent_def exponent_val_def)
  have zeros: "list_all is_digit (replicate k CHR ''0'')" for k by (simp add: list_all_iff)
  have "valid_number s \<and> number_val s = f64_of_scaled neg (digits_val digs) 10 (dp - int (length digs))
      \<and> s \<noteq> [] \<and> list_all is_word s"
  proof -
    consider (below) "dp \<le> 0" | (whole) "0 < dp" "int (length digs) \<le> dp" | (inside) "0 < dp" "dp < int (length digs)"
      by linarith
    then show ?thesis
    proof cases
      case below
      let ?fp = "replicate (nat (- dp)) CHR ''0'' @ digs"
      have fp: "list_all is_digit ?fp" "?fp \<noteq> []" using d(1,2) zeros by simp_all
      have "s = (if neg then ''-'' else []) @ ''0'' @ (if ?fp = [] then [] else CHR ''.'' # ?fp) @ []"
        using below d(2) by (simp add: s format_f_def)
      note n = number_parts [OF _ _ _ fp(1) nil(1) this]
      have "digits_val (''0'' @ ?fp) = digits_val digs"
        using digits_val_zeros [of 1] digits_val_zeros [of "nat (- dp)"] by (simp only: digits_val_append) simp
      then show ?thesis using n below by (simp add: nil algebra_simps)
    next
      case whole
      let ?ip = "digs @ replicate (nat (dp - int (length digs))) CHR ''0''"
      have h: "hd ?ip = CHR ''0'' \<Longrightarrow> length ?ip = 1" using d(2,3) by (auto simp: hd_append)
      have "s = (if neg then ''-'' else []) @ ?ip @ (if ([]::string) = [] then [] else CHR ''.'' # []) @ []"
        using whole by (simp add: s format_f_def)
      note n = number_parts [OF _ _ h _ nil(1) this]
      have "digits_val ?ip = digits_val digs * 10 ^ nat (dp - int (length digs))"
        by (simp add: digits_val_append digits_val_zeros)
      then show ?thesis using n d(1,2) zeros whole by (simp add: nil f64_of_scaled_shift)
    next
      case inside
      let ?ip = "take (nat dp) digs" and ?fp = "drop (nat dp) digs"
      have ip: "list_all is_digit ?ip" "?ip \<noteq> []" "list_all is_digit ?fp" "?fp \<noteq> []" "hd ?ip = hd digs"
        using d(1,2) inside by (auto simp: list_all_iff dest: in_set_takeD in_set_dropD)
      have h: "hd ?ip = CHR ''0'' \<Longrightarrow> length ?ip = 1" using d(3) inside ip(5) by auto
      have "s = (if neg then ''-'' else []) @ ?ip @ (if ?fp = [] then [] else CHR ''.'' # ?fp) @ []"
        using inside ip(4) by (simp add: s format_f_def)
      note n = number_parts [OF ip(1,2) h ip(3) nil(1) this]
      then show ?thesis using inside by (simp add: nil of_nat_diff)
    qed
  qed
  then show "valid_number s" "number_val s = f64_of_scaled neg (digits_val digs) 10 (dp - int (length digs))"
    "s \<noteq> []" "list_all is_word s" by simp_all
qed

lemma clean_exponent:
  assumes "7 \<le> \<bar>e\<bar>"
  shows "\<exists>sg ds. clean_exp (pre @ ''e'' @ exp_digits e) = pre @ CHR ''e'' # sg # ds \<and> sg \<in> {CHR ''+'', CHR ''-''}
    \<and> ds \<noteq> [] \<and> list_all is_digit ds \<and> exponent_val (CHR ''e'' # sg # ds) = e"
proof -
  let ?n = "nat \<bar>e\<bar>" and ?sg = "if e < 0 then CHR ''-'' else CHR ''+''"
  have dig: "nat_digits ?n \<noteq> []" "list_all is_digit (nat_digits ?n)" "digits_val (nat_digits ?n) = \<bar>e\<bar>" "hd (nat_digits ?n) \<noteq> CHR ''0''"
    using nat_digits_props [of ?n] assms by auto
  have val: "exponent_val (CHR ''e'' # ?sg # ds) = e" if "digits_val ds = \<bar>e\<bar>" for ds
    using that by (simp add: exponent_val_def)
  show ?thesis
  proof (cases "\<bar>e\<bar> < 10")
    case True
    then have "?n < 10" by linarith
    then have one: "nat_digits ?n = [char_of (48 + ?n)]" by (simp only: nat_digits.simps [of ?n] if_True)
    let ?c = "char_of (48 + ?n) :: char"
    note c = dig(2,3) [unfolded one]
    have x: "pre @ ''e'' @ exp_digits e = pre @ [CHR ''e'', ?sg, CHR ''0'', ?c]" using True by (simp add: exp_digits_def one)
    show ?thesis
    proof (cases "e < 0")
      case True
      have "clean_exp (pre @ [CHR ''e'', CHR ''-'', CHR ''0'', ?c]) = pre @ [CHR ''e'', CHR ''-'', ?c]"
        by (simp add: clean_exp_def Let_def)
      then show ?thesis using True c(1) val [OF c(2)] unfolding x
        by (intro exI [of _ "CHR ''-''"] exI [of _ "[?c]"]) simp
    next
      case False
      have "clean_exp (pre @ [CHR ''e'', CHR ''+'', CHR ''0'', ?c]) = pre @ [CHR ''e'', CHR ''+'', CHR ''0'', ?c]"
        by (simp add: clean_exp_def Let_def)
      moreover have "digits_val [CHR ''0'', ?c] = \<bar>e\<bar>"
        using c(2) digits_val_append [of "''0''" "[?c]"] digits_val_zeros [of 1] by simp
      ultimately show ?thesis using False c(1) val [of "[CHR ''0'', ?c]"] unfolding x
        by (intro exI [of _ "CHR ''+''"] exI [of _ "[CHR ''0'', ?c]"]) simp
    qed
  next
    case False
    then have x: "pre @ ''e'' @ exp_digits e = pre @ CHR ''e'' # ?sg # nat_digits ?n" by (simp add: exp_digits_def)
    obtain d1 d2 ds where n: "nat_digits ?n = d1 # d2 # ds"
    proof -
      have "\<not> ?n < 10" using False by linarith
      then have "nat_digits ?n = nat_digits (?n div 10) @ [char_of (48 + ?n mod 10)]"
        by (simp only: nat_digits.simps [of ?n] if_False)
      moreover have "nat_digits (?n div 10) \<noteq> []" using nat_digits_props by blast
      ultimately have "Suc (Suc 0) \<le> length (nat_digits ?n)" by (cases "nat_digits (?n div 10)") simp_all
      then show ?thesis using that unfolding Suc_le_length_iff by blast
    qed
    have "clean_exp (pre @ CHR ''e'' # ?sg # nat_digits ?n) = pre @ CHR ''e'' # ?sg # nat_digits ?n"
    proof (cases ds rule: rev_cases)
      case Nil
      then show ?thesis using dig(4) by (simp add: clean_exp_def Let_def n)
    next
      case (snoc ds' d)
      define t where "t = pre @ CHR ''e'' # ?sg # nat_digits ?n"
      have l: "length t = length pre + 5 + length ds'" by (simp add: t_def n snoc)
      have "drop (length t - 4) t = drop (Suc (length ds')) (CHR ''e'' # ?sg # nat_digits ?n)"
        unfolding l by (simp add: t_def)
      then have "drop (length t - 4) t = drop (length ds') (?sg # nat_digits ?n)" by simp
      moreover have "hd (drop (length ds') (?sg # nat_digits ?n)) \<in> set (?sg # nat_digits ?n)"
        by (rule in_set_dropD, rule hd_in_set) (simp add: n snoc)
      moreover have "CHR ''e'' \<notin> set (nat_digits ?n)" using dig(2) digit_chars(7) unfolding list_all_iff by blast
      then have "CHR ''e'' \<notin> set (?sg # nat_digits ?n)" by simp
      ultimately have "hd (drop (length t - 4) t) \<noteq> CHR ''e''" by metis
      then have "take 3 (drop (length t - 4) t) \<noteq> ''e-0''" by (cases "drop (length t - 4) t") auto
      then show ?thesis unfolding t_def [symmetric] by (simp add: clean_exp_def Let_def)
    qed
    then show ?thesis using dig val unfolding x by (intro exI [of _ ?sg] exI [of _ "nat_digits ?n"]) simp
  qed
qed

lemma format_e_number:
  assumes d: "list_all is_digit digs" "digs \<noteq> []" and dp: "7 \<le> \<bar>dp - 1\<bar>"
    and s: "s = (if neg then ''-'' else []) @ clean_exp (format_e digs dp)"
  shows "valid_number s" "number_val s = f64_of_scaled neg (digits_val digs) 10 (dp - int (length digs))"
    "s \<noteq> []" "list_all is_word s"
proof -
  let ?ip = "take 1 digs" and ?fp = "drop 1 digs"
  let ?pre = "?ip @ (if 1 < length digs then ''.'' @ ?fp else [])"
  have parts: "list_all is_digit ?ip" "?ip \<noteq> []" "length ?ip = 1" "list_all is_digit ?fp" "?ip @ ?fp = digs"
    using d by (cases digs; auto)+
  obtain sg ds where e: "clean_exp (?pre @ ''e'' @ exp_digits (dp - 1)) = ?pre @ CHR ''e'' # sg # ds"
      "good_exponent (CHR ''e'' # sg # ds)" "exponent_val (CHR ''e'' # sg # ds) = dp - 1"
    using clean_exponent [OF dp, of ?pre] by (auto simp: good_exponent_def)
  have "(if 1 < length digs then ''.'' @ ?fp else []) = (if ?fp = [] then [] else CHR ''.'' # ?fp)" by auto
  then have x: "s = (if neg then ''-'' else []) @ ?ip @ (if ?fp = [] then [] else CHR ''.'' # ?fp) @ CHR ''e'' # sg # ds"
    using e(1) unfolding s format_e_def by (simp only: append_assoc)
  note n = number_parts [OF parts(1,2) _ parts(4) e(2) x]
  have "dp - 1 - int (length ?fp) = dp - int (length digs)" using d(2) by (cases digs) simp_all
  then show "valid_number s" "number_val s = f64_of_scaled neg (digits_val digs) 10 (dp - int (length digs))"
    "s \<noteq> []" "list_all is_word s"
    using n parts(3) unfolding parts(5) e(3) by simp_all
qed

lemma json_digits_number:
  assumes d: "list_all is_digit digs" "digs \<noteq> []" "hd digs \<noteq> CHR ''0'' \<or> digs = ''0'' \<and> dp = 1"
    and s: "s = json_digits neg (digs, dp)"
  shows "valid_number s" "number_val s = f64_of_scaled neg (digits_val digs) 10 (dp - int (length digs))"
    "s \<noteq> []" "list_all is_word s"
proof -
  have "(valid_number s \<and> number_val s = f64_of_scaled neg (digits_val digs) 10 (dp - int (length digs)))
      \<and> s \<noteq> [] \<and> list_all is_word s"
  proof (cases "digs \<noteq> ''0'' \<and> (dp < -5 \<or> 22 \<le> dp)")
    case True
    then have x: "s = (if neg then ''-'' else []) @ clean_exp (format_e digs dp)" by (simp add: s json_digits_def)
    have "7 \<le> \<bar>dp - 1\<bar>" using True by linarith
    from format_e_number [OF d(1,2) this x] show ?thesis by (simp only: simp_thms)
  next
    case False
    then have x: "s = (if neg then ''-'' else []) @ format_f digs dp" unfolding s json_digits_def split by (simp only: False if_False)
    from format_f_number [OF d x] show ?thesis by (simp only: simp_thms)
  qed
  then show "valid_number s" "number_val s = f64_of_scaled neg (digits_val digs) 10 (dp - int (length digs))"
    "s \<noteq> []" "list_all is_word s" by blast+
qed

text \<open>A finite float reads back from the number it is printed as.\<close>

lemma zero_float: "f64_mag f = 0 \<Longrightarrow> f64_of_scaled (f64_neg f) 0 10 0 = Some f"
  using f64_pattern [of f]
  by (simp add: f64_of_scaled_def f64_of_frac_def round_bits_def Let_def round_half_even_def f64_inf_mag_def)

lemma Marshal_float_back:
  assumes "Marshal (GFloat f) = Some s"
  shows "valid_number s" "number_val s = Some f" "s \<noteq> []" "list_all is_word s"
proof -
  have fin: "f64_mag f < f64_inf_mag" and s: "s = json_digits (f64_neg f) (f64_digits f)"
    using assms by (simp_all split: if_splits)
  have "(valid_number s \<and> number_val s = Some f) \<and> s \<noteq> [] \<and> list_all is_word s"
  proof (cases "f64_mag f = 0")
    case True
    then have x: "s = json_digits (f64_neg f) (''0'', 1)" by (simp add: s f64_digits_def)
    have "digits_val ''0'' = 0" using digits_val_zeros [of 1] by simp
    then show ?thesis using json_digits_number [OF _ _ _ x] zero_float [OF True] by simp
  next
    case False
    from f64_digits_back [OF fin this] obtain c x where c: "0 < c"
        "f64_digits f = (strip_zeros (nat_digits (nat c)), int (length (nat_digits (nat c))) + x)"
        "f64_of_scaled (f64_neg f) c 10 x = Some f" by blast
    let ?raw = "nat_digits (nat c)" and ?digs = "strip_zeros (nat_digits (nat c))"
    define z where "z = length ?raw - length ?digs"
    have raw: "?raw = ?digs @ replicate z CHR ''0''" unfolding z_def by (rule strip_zeros_split)
    have p: "list_all is_digit ?raw" "digits_val ?raw = c" "hd ?raw \<noteq> CHR ''0''" "?raw \<noteq> []"
      using nat_digits_props [of "nat c"] c(1) by simp_all
    have ne: "?digs \<noteq> []"
    proof
      assume "?digs = []"
      then have "?raw = replicate z CHR ''0''" using raw by simp
      then show False using p(3,4) by (cases z) auto
    qed
    have d: "list_all is_digit ?digs" "hd ?digs \<noteq> CHR ''0''"
      using p(1,3) ne raw by (metis list_all_append, metis hd_append2)
    have l: "length ?raw = length ?digs + z" using arg_cong [OF raw, of length] by simp
    have cz: "c = digits_val ?digs * 10 ^ z" using p(2) arg_cong [OF raw, of digits_val] by (simp add: digits_val_append digits_val_zeros)
    have "f64_of_scaled (f64_neg f) (digits_val ?digs * 10 ^ z) 10 x = Some f" using c(3) unfolding cz [symmetric] .
    then have v: "f64_of_scaled (f64_neg f) (digits_val ?digs) 10 (x + int z) = Some f" by (simp only: f64_of_scaled_shift)
    have s': "s = json_digits (f64_neg f) (?digs, int (length ?raw) + x)" by (simp only: s c(2))
    note n = json_digits_number [OF d(1) ne disjI1 [OF d(2)] s']
    have "int (length ?raw) + x - int (length ?digs) = x + int z" by (simp add: l)
    then show ?thesis using n v by (simp only: simp_thms)
  qed
  then show "valid_number s" "number_val s = Some f" "s \<noteq> []" "list_all is_word s" by blast+
qed

text \<open>So does an integer.\<close>

lemma int_digits_number:
  "valid_number (int_digits i)" "int_digits i \<noteq> []" "list_all is_word (int_digits i)"
  "drop_sign (int_digits i) = nat_digits (nat \<bar>i\<bar>)" "(int_digits i = drop_sign (int_digits i)) = (0 \<le> i)"
proof -
  let ?ip = "nat_digits (nat \<bar>i\<bar>)"
  have ip: "list_all is_digit ?ip" "?ip \<noteq> []" using nat_digits_props by blast+
  have h: "hd ?ip = CHR ''0'' \<Longrightarrow> length ?ip = 1"
  proof (cases "i = 0")
    case True
    then show ?thesis by (subst nat_digits.simps) simp
  qed (use nat_digits_props [of "nat \<bar>i\<bar>"] in simp)
  have x: "int_digits i = (if i < 0 then ''-'' else []) @ ?ip @ (if ([]::string) = [] then [] else CHR ''.'' # []) @ []"
    by (simp add: int_digits_def)
  have "good_exponent []" by (simp add: good_exponent_def)
  from number_parts [OF ip h _ this x]
  show "valid_number (int_digits i)" "int_digits i \<noteq> []" "list_all is_word (int_digits i)" by simp_all
  have "drop_sign ?ip = ?ip" using ip by (cases ?ip) (simp_all add: drop_sign_def)
  then show "drop_sign (int_digits i) = ?ip" "(int_digits i = drop_sign (int_digits i)) = (0 \<le> i)"
    by (cases "i < 0"; simp add: int_digits_def drop_sign_def)+
qed

end
