(* ===== verification/Go_String_Back.thy ===== *)
theory Go_String_Back
  imports Go_Number_Back
begin

text \<open>
  The strings \<open>json.Marshal\<close> prints read back as the strings they were printed from, bytes that are
  not UTF-8 replaced: every rune is written as bytes the scanner passes over and \<open>unquote\<close> turns
  into that rune again.
\<close>

section \<open>Runes\<close>

lemma rune_width_bounds: "rune_width s = Some n \<Longrightarrow> 1 \<le> n \<and> n \<le> length s"
  by (cases s; cases "drop 1 s"; cases "drop 2 s"; cases "drop 3 s") (auto split: if_splits)

text \<open>The width of a rune depends on its own bytes only.\<close>

lemma rune_width_take: "rune_width s = Some n \<Longrightarrow> rune_width (take n s @ t) = Some n"
proof -
  assume w: "rune_width s = Some n"
  obtain a r where s: "s = a # r" using w by (cases s) auto
  consider "r = []" | b where "r = [b]" | b c where "r = [b, c]" | b c d u where "r = b # c # d # u"
    by (metis list.exhaust)
  then show ?thesis using w by cases (auto simp: s split: if_splits)
qed

lemma rune_chunks:
  assumes "rune_width s = Some n"
  shows "chunks_from 0 [] s = take n s # chunks_from 0 [] (drop n s)"
proof -
  have later: "k < length u \<Longrightarrow> chunks_from (Suc k) acc u = (acc @ take (Suc k) u) # chunks_from 0 [] (drop (Suc k) u)" for k acc u
    by (induction k arbitrary: acc u; case_tac u) auto
  obtain c u where s: "s = c # u" using assms by (cases s) auto
  have n: "1 \<le> n" "n \<le> Suc (length u)" using rune_width_bounds [OF assms] s by auto
  show ?thesis
  proof (cases "n = 1")
    case True
    then show ?thesis using assms by (simp add: s del: rune_width.simps)
  next
    case False
    then obtain k where k: "n = Suc (Suc k)" using n(1) by (metis One_nat_def Suc_le_D not0_implies_Suc)
    then show ?thesis using assms n later [of k u "[c]"] by (simp add: s del: rune_width.simps)
  qed
qed

lemma fix_utf8_rune: "rune_width s = Some n \<Longrightarrow> fix_utf8 s = take n s @ fix_utf8 (drop n s)"
  using rune_width_take [of s n "[]"] by (simp add: fix_utf8_def runes_def chunks_def rune_chunks del: rune_width.simps)

lemma fix_utf8_bad: "s \<noteq> [] \<Longrightarrow> rune_width s = None \<Longrightarrow> fix_utf8 s = RuneError @ fix_utf8 (tl s)"
proof -
  assume "s \<noteq> []" and w: "rune_width s = None"
  then obtain c u where s: "s = c # u" by (cases s) auto
  have "rune_width [c] = None" using w by (auto simp: s split: if_splits)
  then show ?thesis using w by (simp add: s fix_utf8_def runes_def chunks_def del: rune_width.simps)
qed

lemma fix_utf8_Nil [simp]: "fix_utf8 [] = []"
  by (simp add: fix_utf8_def runes_def chunks_def)

definition quoted_rune :: "string \<Rightarrow> string" where
  "quoted_rune r = (if r = RuneError then RuneError else quote_rune r)"

lemma quote_from_rune:
  assumes "rune_width s = Some n"
  shows "quote_from 0 [] s = quoted_rune (take n s) @ quote_from 0 [] (drop n s)"
proof -
  have later: "k < length u \<Longrightarrow> quote_from (Suc k) acc u = quoted_rune (acc @ take (Suc k) u) @ quote_from 0 [] (drop (Suc k) u)" for k acc u
    by (induction k arbitrary: acc u; case_tac u) (auto simp: quoted_rune_def)
  obtain c u where s: "s = c # u" using assms by (cases s) auto
  have n: "1 \<le> n" "n \<le> Suc (length u)" using rune_width_bounds [OF assms] s by auto
  show ?thesis
  proof (cases "n = 1")
    case True
    have "[c] \<noteq> RuneError" by (simp add: RuneError_def)
    then show ?thesis using True assms by (simp add: s quoted_rune_def del: rune_width.simps)
  next
    case False
    then obtain k where k: "n = Suc (Suc k)" using n(1) by (metis One_nat_def Suc_le_D not0_implies_Suc)
    then show ?thesis using assms n later [of k u "[c]"] by (simp add: s del: rune_width.simps)
  qed
qed

lemma quote_from_bad: "s \<noteq> [] \<Longrightarrow> rune_width s = None \<Longrightarrow> quote_from 0 [] s = quote_rune RuneError @ quote_from 0 [] (tl s)"
  by (cases s) (simp_all del: rune_width.simps)

section \<open>Pieces of a string body\<close>

text \<open>
  \<open>reads q p\<close>: the bytes \<open>q\<close> of a string body are scanned as they are, are UTF-8, and stand for \<open>p\<close>.
\<close>

definition reads :: "string \<Rightarrow> string \<Rightarrow> bool" where
  "reads q p \<longleftrightarrow>
     (\<forall>acc t. scan (SString acc) (q @ t) = scan (SString (rev q @ acc)) t)
     \<and> (\<forall>t. fix_utf8 (q @ t) = q @ fix_utf8 t)
     \<and> (\<forall>t. unescape None (q @ t) = map_option (\<lambda>u. p @ u) (unescape None t))"

lemma map_option_append_Nil [simp]: "map_option ((@) []) x = x"
  by (cases x) simp_all

lemma reads_Nil: "reads [] []"
  by (simp add: reads_def option.map_ident)

lemma reads_append: "reads q p \<Longrightarrow> reads q' p' \<Longrightarrow> reads (q @ q') (p @ p')"
  by (simp add: reads_def option.map_comp o_def)

definition plain_byte :: "char \<Rightarrow> bool" where
  "plain_byte c \<longleftrightarrow> c \<noteq> CHR 0x22 \<and> c \<noteq> CHR 0x5C \<and> \<not> byte_in 0 31 c"

lemma scan_plain: "list_all plain_byte q \<Longrightarrow> scan (SString acc) (q @ t) = scan (SString (rev q @ acc)) t"
  by (induction q arbitrary: acc) (auto simp: plain_byte_def)

lemma unescape_plain_bytes: "list_all plain_byte q \<Longrightarrow> unescape None (q @ t) = map_option (\<lambda>u. q @ u) (unescape None t)"
proof (induction q)
  case (Cons c q)
  then have c: "c \<noteq> CHR 0x5C" by (simp add: plain_byte_def)
  then have "unescape None (c # u) = map_option (\<lambda>v. c # v) (unescape None u)" for u
    by (cases u) (simp_all add: flush_hi_def)
  then show ?case using Cons by (simp add: option.map_comp o_def del: unescape.simps)
qed simp

lemma reads_plain:
  assumes "list_all plain_byte r" "rune_width r = Some (length r)"
  shows "reads r r"
proof -
  have "fix_utf8 (r @ t) = r @ fix_utf8 t" for t
    using rune_width_take [OF assms(2), of t] fix_utf8_rune [of "r @ t" "length r"] by simp
  then show ?thesis using assms(1) by (simp add: reads_def scan_plain unescape_plain_bytes)
qed

text \<open>An ASCII escape.\<close>

lemma fix_utf8_ascii: "list_all (byte_in 0 127) q \<Longrightarrow> fix_utf8 (q @ t) = q @ fix_utf8 t"
proof (induction q)
  case (Cons c q)
  then show ?case using fix_utf8_rune [of "c # q @ t" 1] by simp
qed simp

lemma scan_escape: "list_all plain_byte q \<Longrightarrow>
    scan (SString acc) (CHR 0x5C # e # q @ t) = scan (SString (rev (CHR 0x5C # e # q) @ acc)) t"
  by (simp add: scan_plain)

lemma reads_escape:
  assumes "list_all (\<lambda>c. plain_byte c \<and> byte_in 0 127 c) q" "byte_in 0 127 e"
    "\<And>t. unescape None (CHR 0x5C # e # q @ t) = map_option (\<lambda>u. p @ u) (unescape None t)"
  shows "reads (CHR 0x5C # e # q) p"
proof -
  have "list_all plain_byte q" "list_all (byte_in 0 127) (CHR 0x5C # e # q)"
    using assms(1,2) by (auto simp: list_all_iff byte_in_def)
  then show ?thesis
    using assms(3) fix_utf8_ascii [of "CHR 0x5C # e # q"] scan_escape [of q _ e] by (simp add: reads_def del: scan.simps unescape.simps)
qed

lemma simple_escape_reads:
  assumes "simple_escape e = Some d" "byte_in 0 127 e"
  shows "reads [CHR 0x5C, e] [d]"
proof -
  have "e \<noteq> CHR ''u''" using assms(1) by (auto simp: simple_escape_def)
  then have "unescape None (CHR 0x5C # e # t) = map_option (\<lambda>u. [d] @ u) (unescape None t)" for t
    using assms(1) by (cases t) (simp_all add: flush_hi_def)
  then show ?thesis using reads_escape [of "[]" e "[d]"] assms(2) by simp
qed

lemma simple_escapes:
  "reads [CHR 0x5C, CHR 0x22] [CHR 0x22]" "reads [CHR 0x5C, CHR 0x5C] [CHR 0x5C]" "reads [CHR 0x5C, CHR ''b''] [CHR 0x08]"
  "reads [CHR 0x5C, CHR ''f''] [CHR 0x0C]" "reads [CHR 0x5C, CHR ''n''] [CHR 0x0A]" "reads [CHR 0x5C, CHR ''r''] [CHR 0x0D]"
  "reads [CHR 0x5C, CHR ''t''] [CHR 0x09]"
  by (rule simple_escape_reads; simp add: simple_escape_def byte_in_def)+

lemma hex4_reads:
  assumes "hex4 a b c d = Some r" "\<not> (55296 \<le> r \<and> r < 57344)"
    "list_all (\<lambda>c. plain_byte c \<and> byte_in 0 127 c) [a, b, c, d]"
  shows "reads (CHR 0x5C # CHR ''u'' # [a, b, c, d]) (encode_rune r)"
proof (rule reads_escape)
  show "unescape None (CHR 0x5C # CHR ''u'' # [a, b, c, d] @ t) = map_option (\<lambda>u. encode_rune r @ u) (unescape None t)" for t
    using assms(1,2) by auto
qed (use assms(3) in \<open>simp_all add: byte_in_def\<close>)

lemma hex_digit_plain: "n < 16 \<Longrightarrow> hex_val (hex_digit n) = Some n \<and> plain_byte (hex_digit n) \<and> byte_in 0 127 (hex_digit n)"
proof -
  assume n: "n < 16"
  have v: "of_char (hex_digit n) = (if n < 10 then 48 + n else 87 + n)"
    using n by (simp add: hex_digit_def of_char_of)
  have "hex_digit n \<noteq> CHR 0x22" "hex_digit n \<noteq> CHR 0x5C"
    using v n by (auto dest!: arg_cong [of _ _ "of_char :: char \<Rightarrow> nat"] split: if_splits)
  then show ?thesis using n v by (simp add: hex_val_def plain_byte_def byte_in_def)
qed

lemma ascii_escape_reads:
  assumes "byte_in 0 127 c"
  shows "reads ([CHR 0x5C] @ ''u00'' @ [hex_digit (of_char c div 16), hex_digit (of_char c mod 16)]) [c]"
proof -
  let ?n = "of_char c :: nat"
  have n: "?n < 128" using assms by (simp add: byte_in_def)
  have h: "?n div 16 < 16" "?n mod 16 < 16" using n by simp_all
  have z: "hex_val CHR ''0'' = Some 0" "plain_byte CHR ''0''" "byte_in 0 127 CHR ''0''"
    by (simp_all add: hex_val_def plain_byte_def byte_in_def)
  have "hex4 CHR ''0'' CHR ''0'' (hex_digit (?n div 16)) (hex_digit (?n mod 16)) = Some ?n"
    using hex_digit_plain [OF h(1)] hex_digit_plain [OF h(2)] z by (simp add: hex4_def)
  from hex4_reads [OF this] show ?thesis
    using hex_digit_plain [OF h(1)] hex_digit_plain [OF h(2)] z n by (simp add: encode_rune_def)
qed

section \<open>A quoted string\<close>

lemma rune_bytes:
  assumes "rune_width r = Some (length r)" "length r \<noteq> 1"
  shows "list_all plain_byte r"
  using assms by (cases r; cases "drop 1 r"; cases "drop 2 r"; cases "drop 3 r")
    (auto simp: plain_byte_def byte_in_def split: if_splits)

lemma quoted_rune_reads:
  assumes "rune_width r = Some (length r)"
  shows "reads (quoted_rune r) r"
proof (cases "length r = 1")
  case True
  then obtain c where r: "r = [c]" by (auto simp: length_Suc_conv)
  have a: "byte_in 0 127 c" using assms by (auto simp: r split: if_splits)
  have "[c] \<noteq> RuneError" by (simp add: RuneError_def)
  then have q: "quoted_rune r = quote_rune [c]" by (simp add: quoted_rune_def r)
  show ?thesis
  proof (cases "quote_rune [c] = [c]")
    case True
    have "plain_byte c" using True by (auto simp: quote_rune_def plain_byte_def split: if_splits)
    then show ?thesis using reads_plain [OF _ assms] q \<open>quote_rune [c] = [c]\<close> by (simp add: r)
  next
    case False
    have "reads (quote_rune [c]) [c]"
      using False ascii_escape_reads [OF a] simple_escapes by (auto simp: quote_rune_def split: if_splits)
    then show ?thesis using q by (simp add: r)
  qed
next
  case False
  have two: "quote_rune r = (if r = RuneError then [CHR 0x5C] @ ''ufffd''
           else if r = encode_rune 0x2028 then [CHR 0x5C] @ ''u2028''
           else if r = encode_rune 0x2029 then [CHR 0x5C] @ ''u2029'' else r)"
  proof -
    obtain a b u where "r = a # b # u" using assms False by (cases r; cases "tl r") auto
    then show ?thesis by (simp only: quote_rune_def list.case)
  qed
  have h: "hex4 CHR ''2'' CHR ''0'' CHR ''2'' CHR ''8'' = Some 0x2028" "hex4 CHR ''2'' CHR ''0'' CHR ''2'' CHR ''9'' = Some 0x2029"
    by (simp_all add: hex4_def hex_val_def byte_in_def)
  have sep: "reads ([CHR 0x5C] @ ''u2028'') (encode_rune 0x2028)" "reads ([CHR 0x5C] @ ''u2029'') (encode_rune 0x2029)"
    using hex4_reads [OF h(1)] hex4_reads [OF h(2)] by (simp_all add: plain_byte_def byte_in_def)
  show ?thesis
    using reads_plain [OF rune_bytes [OF assms False] assms] sep by (auto simp: quoted_rune_def two)
qed

lemma bad_rune_reads: "reads (quote_rune RuneError) RuneError"
proof -
  have e: "encode_rune 65533 = RuneError" by (simp add: encode_rune_def RuneError_def)
  have h: "hex4 CHR ''f'' CHR ''f'' CHR ''f'' CHR ''d'' = Some 65533"
    by (simp add: hex4_def hex_val_def byte_in_def)
  have "quote_rune RuneError = CHR 0x5C # CHR ''u'' # ''fffd''" by (simp add: quote_rune_def RuneError_def)
  then show ?thesis using hex4_reads [OF h] by (simp add: e plain_byte_def byte_in_def)
qed

theorem quote_reads: "reads (quote_from 0 [] s) (fix_utf8 s)"
proof (induction "length s" arbitrary: s rule: less_induct)
  case less
  show ?case
  proof (cases "s = []")
    case True
    then show ?thesis by (simp add: reads_Nil)
  next
    case False
    show ?thesis
    proof (cases "rune_width s")
      case None
      have "reads (quote_from 0 [] (tl s)) (fix_utf8 (tl s))" using less False by simp
      then show ?thesis
        unfolding quote_from_bad [OF False None] fix_utf8_bad [OF False None] by (rule reads_append [OF bad_rune_reads])
    next
      case (Some n)
      note n = rune_width_bounds [OF Some]
      have "rune_width (take n s) = Some (length (take n s))" using rune_width_take [OF Some, of "[]"] n by simp
      moreover have "length s - n < length s" using n by linarith
      then have "reads (quote_from 0 [] (drop n s)) (fix_utf8 (drop n s))" using less [of "drop n s"] by simp
      ultimately show ?thesis
        unfolding quote_from_rune [OF Some] fix_utf8_rune [OF Some] by (intro reads_append quoted_rune_reads)
    qed
  qed
qed

lemma unquote_quote: "unquote (quote_from 0 [] s) = Some (fix_utf8 s)"
proof -
  have r: "reads (quote_from 0 [] s) (fix_utf8 s)" by (rule quote_reads)
  then have "fix_utf8 (quote_from 0 [] s) = quote_from 0 [] s" unfolding reads_def by (metis append_Nil2 fix_utf8_Nil)
  moreover have "unescape None (quote_from 0 [] s @ []) = map_option (\<lambda>u. fix_utf8 s @ u) (unescape None [])"
    using r unfolding reads_def by blast
  ultimately show ?thesis by (simp add: unquote_def flush_hi_def)
qed

text \<open>The scanner makes one token of a quoted string.\<close>

lemma scan_quote:
  "scan SNormal (json_quote s @ t) = map_option (\<lambda>ts. TString (quote_from 0 [] s) # ts) (scan SNormal t)"
proof -
  have "scan (SString []) (quote_from 0 [] s @ CHR 0x22 # t) = scan (SString (rev (quote_from 0 [] s))) (CHR 0x22 # t)"
    using quote_reads [of s] by (simp add: reads_def)
  then show ?thesis by (cases "scan SNormal t") (simp_all add: json_quote_def scan_normal_def is_space_def)
qed

end
