(* ===== verification/Go_Object_Back.thy ===== *)
theory Go_Object_Back
  imports Go_String_Back
begin

text \<open>
  An object of scalars that \<open>json.Marshal\<close> prints reads back: the scanner makes the tokens of its
  members one after the other, and the parser collects them in the order of their keys.
\<close>

section \<open>Scalars\<close>

fun scalar :: "goval \<Rightarrow> bool" where
  "scalar (GBool b) = False"
| "scalar (GFloat32 f) = False"
| "scalar (GSlice vs) = False"
| "scalar (GMap ms) = False"
| "scalar _ = True"

text \<open>The token of a printed scalar, and the value it is parsed to.\<close>

fun scalar_token :: "goval \<Rightarrow> bytes \<Rightarrow> token" where
  "scalar_token GNil b = TNull"
| "scalar_token (GString s) b = TString (quote_from 0 [] s)"
| "scalar_token _ b = TNumber b"

fun scalar_json :: "goval \<Rightarrow> bytes \<Rightarrow> json" where
  "scalar_json GNil b = JNull"
| "scalar_json (GString s) b = JString (fix_utf8 s)"
| "scalar_json _ b = JNumber b"

lemma begin_scalar: "begin_value (scalar_token v b) st = Some (give (scalar_json v b) st)"
  by (cases v) (simp_all add: unquote_quote)

lemma append_Cons_fun: "(@) (x # xs) = (\<lambda>ys. x # xs @ ys)"
  by (rule ext) simp

lemma scan_word:
  assumes w: "list_all is_word w" "w \<noteq> []" "word_token w = Some tok" and c: "c = CHR '','' \<or> c = CHR ''}''"
  shows "scan SNormal (w @ c # t) = map_option ((#) tok) (scan SNormal (c # t))"
proof -
  have more: "scan (SWord acc) (u @ c # t) = scan (SWord (rev u @ acc)) (c # t)" if "list_all is_word u" for u acc
    using that by (induction u arbitrary: acc) (auto split: option.split)
  obtain a u where au: "w = a # u" using w(2) by (cases w) auto
  have "is_word a" using w(1) by (simp add: au)
  then have "\<not> is_space a" "a \<noteq> CHR 0x22"
    by (auto simp: is_space_def is_word_def is_digit_def byte_in_def)
  then have "scan SNormal (w @ c # t) = scan (SWord [a]) (u @ c # t)"
    using \<open>is_word a\<close> by (simp add: au scan_normal_def option.map_ident)
  also have "\<dots> = scan (SWord (rev w)) (c # t)" using w(1) by (simp add: au more)
  also have "\<dots> = map_option ((#) tok) (scan SNormal (c # t))"
  proof -
    have "\<not> is_word c" using c by (auto simp: is_word_def is_digit_def byte_in_def)
    then show ?thesis using w(3)
      by (cases "scan_normal c") (auto simp: option.map_comp o_def append_Cons_fun split: option.split)
  qed
  finally show ?thesis .
qed

lemma number_word: "valid_number n \<Longrightarrow> word_token n = Some (TNumber n)"
  by (auto simp: word_token_def valid_number_def drop_sign_def is_digit_def byte_in_def)

lemma scan_scalar:
  assumes "scalar v" "Marshal v = Some b" "c = CHR '','' \<or> c = CHR ''}''"
  shows "scan SNormal (b @ c # t) = map_option ((#) (scalar_token v b)) (scan SNormal (c # t))"
proof -
  have null: "word_token ''null'' = Some TNull" "list_all is_word ''null''"
    by (simp_all add: word_token_def is_word_def is_digit_def byte_in_def)
  have int: "word_token (int_digits i) = Some (TNumber (int_digits i))" for i
    by (rule number_word) (rule int_digits_number)
  show ?thesis
  proof (cases v)
    case (GFloat f)
    with assms(2) have "Marshal (GFloat f) = Some b" by (simp only:)
    from Marshal_float_back [OF this] show ?thesis using scan_word assms(3) number_word GFloat by simp
  next
    case GNil
    then have "b = ''null''" using assms(2) by simp
    then show ?thesis using scan_word [OF null(2) _ null(1) assms(3)] GNil by (simp del: append_Cons)
  qed (use assms scan_word int int_digits_number in \<open>auto simp: scan_quote simp del: scan.simps\<close>)
qed

section \<open>Members\<close>

text \<open>A member as it was given: its key, its value and the bytes the value was printed as.\<close>

type_synonym printed = "string \<times> goval \<times> bytes"

definition print_member :: "printed \<Rightarrow> bytes" where
  "print_member m = (case m of (k, v, b) \<Rightarrow> json_quote k @ '':'' @ b)"

definition member_json :: "printed \<Rightarrow> string \<times> json" where
  "member_json m = (case m of (k, v, b) \<Rightarrow> (fix_utf8 k, scalar_json v b))"

definition good_member :: "printed \<Rightarrow> bool" where
  "good_member m \<longleftrightarrow> (case m of (k, v, b) \<Rightarrow> scalar v \<and> Marshal v = Some b)"

fun member_tokens :: "printed list \<Rightarrow> token list" where
  "member_tokens [] = []"
| "member_tokens ((k, v, b) # ms) =
     TString (quote_from 0 [] k) # TColon # scalar_token v b # (if ms = [] then [] else TComma # member_tokens ms)"

lemma scan_punct:
  "scan SNormal (CHR '':'' # t) = map_option ((#) TColon) (scan SNormal t)"
  "scan SNormal (CHR '','' # t) = map_option ((#) TComma) (scan SNormal t)"
  "scan SNormal (CHR ''{'' # t) = map_option ((#) TLBrace) (scan SNormal t)"
  "scan SNormal (CHR ''}'' # t) = map_option ((#) TRBrace) (scan SNormal t)"
  by (simp_all add: scan_normal_def is_space_def is_word_def is_digit_def byte_in_def append_Cons_fun)

lemma scan_members:
  "list_all good_member ms \<Longrightarrow> ms \<noteq> [] \<Longrightarrow>
    scan SNormal (Join (map print_member ms) '','' @ CHR ''}'' # t) =
      map_option (\<lambda>ts. member_tokens ms @ TRBrace # ts) (scan SNormal t)"
proof (induction ms)
  case (Cons m ms)
  obtain k v b where m: "m = (k, v, b)" by (cases m)
  have v: "scalar v" "Marshal v = Some b" using Cons.prems(1) by (simp_all add: m good_member_def)
  show ?case
  proof (cases "ms = []")
    case True
    then show ?thesis
      by (simp add: m print_member_def scan_quote scan_punct scan_scalar [OF v] option.map_comp o_def del: scan.simps)
  next
    case False
    have J: "Join (map print_member (m # ms)) '','' @ CHR ''}'' # t =
        json_quote k @ CHR '':'' # b @ CHR '','' # Join (map print_member ms) '','' @ CHR ''}'' # t"
      using False by (simp add: Join_Cons m print_member_def)
    show ?thesis
      unfolding J using Cons False
      by (simp add: m scan_quote scan_punct scan_scalar [OF v] option.map_comp o_def del: scan.simps)
  qed
qed simp

lemma parse_members:
  "ms \<noteq> [] \<Longrightarrow> g = GoalFirstKey \<or> g = GoalKey \<Longrightarrow>
    parse_tokens (g, [FObject acc k0]) (member_tokens ms @ [TRBrace]) =
      Some (JObject (rev acc @ map member_json ms))"
proof (induction ms arbitrary: acc k0 g)
  case (Cons m ms)
  obtain k v b where m: "m = (k, v, b)" by (cases m)
  have key: "parse_token (g, [FObject acc k0]) (TString (quote_from 0 [] k)) = Some (GoalColon, [FObject acc (fix_utf8 k)])"
    using Cons.prems(2) by (auto simp: set_key_def unquote_quote)
  have val: "parse_token (GoalValue, [FObject acc (fix_utf8 k)]) (scalar_token v b) =
      Some (GoalAfter, [FObject (member_json m # acc) (fix_utf8 k)])"
    by (simp add: begin_scalar member_json_def m)
  show ?case
  proof (cases "ms = []")
    case True
    then show ?thesis using key val by (simp add: m after_value_def close_object_def)
  next
    case False
    then show ?thesis
      using key val Cons.IH [OF False, of GoalKey "member_json m # acc" "fix_utf8 k"] by (simp add: m after_value_def)
  qed
qed simp

text \<open>A printed object.\<close>

definition print_object :: "printed list \<Rightarrow> bytes" where
  "print_object ms = ''{'' @ Join (map print_member ms) '','' @ ''}''"

lemma object_back:
  assumes "list_all good_member ms" "ms \<noteq> []"
  shows "scan SNormal (print_object ms) = Some (TLBrace # member_tokens ms @ [TRBrace])"
    "json_parse (print_object ms) = Some (JObject (map member_json ms))"
proof -
  show s: "scan SNormal (print_object ms) = Some (TLBrace # member_tokens ms @ [TRBrace])"
    using scan_members [OF assms, of "[]"] scan_punct(3) by (simp add: print_object_def)
  show "json_parse (print_object ms) = Some (JObject (map member_json ms))"
    using parse_members [OF assms(2), of GoalFirstKey "[]" "[]"]
    by (simp add: json_parse_def s open_frame_def maxNestingDepth_def)
qed

text \<open>\<open>json.Marshal\<close> of a map of scalars prints its members in the order of their keys.\<close>

definition as_printed :: "string \<times> goval \<Rightarrow> printed" where
  "as_printed m = (fst m, snd m, the (Marshal (snd m)))"

lemma sort_key_map_snd: "sort_key fst (map (\<lambda>m. (fst m, f m)) ms) = map (\<lambda>m. (fst m, f m)) (sort_key fst ms)"
proof (induction ms)
  case (Cons m ms)
  have "insort_key fst (fst m, f m) (map (\<lambda>m. (fst m, f m)) xs) = map (\<lambda>m. (fst m, f m)) (insort_key fst m xs)" for xs
    by (induction xs) simp_all
  then show ?case using Cons by simp
qed simp

lemma Marshal_members_map:
  "Marshal_members ms = Some ps \<Longrightarrow>
    ps = map (\<lambda>m. (fst m, the (Marshal (snd m)))) ms \<and> list_all (\<lambda>m. Marshal (snd m) \<noteq> None) ms"
proof (induction ms arbitrary: ps)
  case (Cons m ms)
  then show ?case by (cases m) (auto split: option.splits)
qed simp

lemma Marshal_object:
  assumes "Marshal (GMap ms) = Some raw" "list_all (\<lambda>m. scalar (snd m)) ms"
  shows "raw = print_object (map as_printed (sort_key fst ms))"
    "list_all good_member (map as_printed (sort_key fst ms))"
proof -
  obtain ps where ps: "Marshal_members ms = Some ps" "raw = ''{'' @ Join (map (\<lambda>(k, b). json_quote k @ '':'' @ b) (sort_key fst ps)) '','' @ ''}''"
    using assms(1) by auto
  note m = Marshal_members_map [OF ps(1)]
  have "map (\<lambda>(k, b). json_quote k @ '':'' @ b) (sort_key fst ps) = map print_member (map as_printed (sort_key fst ms))"
    using m by (simp add: sort_key_map_snd print_member_def as_printed_def)
  then show "raw = print_object (map as_printed (sort_key fst ms))" by (simp add: ps(2) print_object_def)
  show "list_all good_member (map as_printed (sort_key fst ms))"
    using m assms(2) by (auto simp: list_all_iff good_member_def as_printed_def)
qed

end
