(* ===== verification/Webhook_Round_Trip.thy ===== *)
theory Webhook_Round_Trip
  imports Analytics_Coordinator Webhook_Receiver Go_Object_Back
begin

text \<open>
  The two ends of a webhook together: what the coordinator's dispatcher prints,
  \<open>dispatchPendingWebhooks\<close> in \<open>analytics_coordinator.go\<close>, and what the receiver's
  \<open>handleWebhook\<close> in \<open>cmd/webhook-receiver/main.go\<close> reads from it.
\<close>

section \<open>Members as the receiver sees them\<close>

definition raw_body :: "printed \<Rightarrow> string option" where
  "raw_body m = (case m of (k, v, b) \<Rightarrow> (case v of GString s \<Rightarrow> Some (quote_from 0 [] s) | _ \<Rightarrow> None))"

lemma raw_values_members:
  "raw_values 1 (member_tokens ms @ [TRBrace]) = map raw_body ms"
proof (induction ms)
  case (Cons m ms)
  obtain k v b where m: "m = (k, v, b)" by (cases m)
  show ?case using Cons by (cases v) (auto simp: m raw_body_def)
qed simp

lemma Unmarshal_object:
  assumes "list_all good_member ms" "ms \<noteq> []"
  shows "Unmarshal_payload (print_object ms) =
    set_payload_members zero_payload (map (\<lambda>m. (member_json m, raw_body m)) ms)"
  using object_back [OF assms] raw_values_members [of ms]
  by (simp add: Unmarshal_payload_def zip_map_map zip_same_conv_map o_def)

section \<open>Members of the payload\<close>

lemma fix_ascii: "list_all (byte_in 0 127) q \<Longrightarrow> fix_utf8 q = q"
  using fix_utf8_ascii [of q "[]"] by simp

lemma payload_keys [simp]:
  "fix_utf8 ''bucket'' = ''bucket''" "fix_utf8 ''plant_source_id'' = ''plant_source_id''"
  "fix_utf8 ''plant_name'' = ''plant_name''" "fix_utf8 ''plant_type'' = ''plant_type''"
  "fix_utf8 ''latitude'' = ''latitude''" "fix_utf8 ''longitude'' = ''longitude''"
  "fix_utf8 ''avg_power_gen'' = ''avg_power_gen''" "fix_utf8 ''avg_power_con'' = ''avg_power_con''"
  "fix_utf8 ''avg_efficiency'' = ''avg_efficiency''" "fix_utf8 ''avg_temp'' = ''avg_temp''"
  "fix_utf8 ''sample_count'' = ''sample_count''" "fix_utf8 ''calculated_at'' = ''calculated_at''"
  by (rule fix_ascii, simp add: byte_in_def)+

lemma payload_folds [simp]:
  "fold_name ''bucket'' = ''BUCKET''" "fold_name ''plant_source_id'' = ''PLANT_SOURCE_ID''"
  "fold_name ''plant_name'' = ''PLANT_NAME''" "fold_name ''plant_type'' = ''PLANT_TYPE''"
  "fold_name ''latitude'' = ''LATITUDE''" "fold_name ''longitude'' = ''LONGITUDE''"
  "fold_name ''avg_power_gen'' = ''AVG_POWER_GEN''" "fold_name ''avg_power_con'' = ''AVG_POWER_CON''"
  "fold_name ''avg_efficiency'' = ''AVG_EFFICIENCY''" "fold_name ''avg_temp'' = ''AVG_TEMP''"
  "fold_name ''sample_count'' = ''SAMPLE_COUNT''" "fold_name ''calculated_at'' = ''CALCULATED_AT''"
  by (subst fold_name_ascii, simp add: byte_in_def, code_simp)+

lemma float_member_back:
  assumes "Marshal (float_ptr f) \<noteq> None"
  shows "float_member (scalar_json (float_ptr f) (the (Marshal (float_ptr f)))) = Some f"
proof (cases f)
  case None
  then show ?thesis by (simp add: float_ptr_def float_member_def)
next
  case (Some x)
  then obtain b where b: "Marshal (GFloat x) = Some b" using assms by (auto simp: float_ptr_def simp del: Marshal.simps)
  then show ?thesis using Marshal_float_back [OF b] Some by (simp add: float_ptr_def float_member_def del: Marshal.simps)
qed

lemma int_member_back:
  assumes "- (2 ^ 63) \<le> i" "i < 2 ^ 63"
  shows "int_member (scalar_json (GInt (word_of_int i)) (the (Marshal (GInt (word_of_int i))))) old = Some i"
proof -
  have "sint (word_of_int i :: 64 word) = signed_take_bit 63 i"
    by (simp add: sint_sbintrunc')
  then have "sint (word_of_int i :: 64 word) = i" using signed_take_bit_int_eq_self [of 63 i] assms by simp
  then show ?thesis
    using assms int_digits_number [of i] nat_digits_props [of "nat \<bar>i\<bar>"]
    by (auto simp: int_member_def Let_def)
qed

text \<open>A time in the years that have four digits.\<close>

definition json_year :: "time \<Rightarrow> bool" where
  "json_year t \<longleftrightarrow> 0 \<le> year (civil_of_time t) \<and> year (civil_of_time t) \<le> 9999"

lemma plain_time: "json_year t \<Longrightarrow> quote_from 0 [] (Format_RFC3339Nano t) = Format_RFC3339Nano t"
proof -
  assume y: "json_year t"
  have "plain_char x" if "x \<in> set (Format_RFC3339Nano t)" for x
    using Format_chars [OF _ _ that] y
    by (auto simp: json_year_def plain_char_def byte_in_def is_dig_def)
  then have "json_quote (Format_RFC3339Nano t) = [CHR 0x22] @ Format_RFC3339Nano t @ [CHR 0x22]"
    by (intro json_quote_plain) (simp add: list_all_iff)
  then show ?thesis by (simp add: json_quote_def)
qed

lemma time_member_back:
  "json_year t \<Longrightarrow> time_member (JString s) (Some (quote_from 0 [] (Format_RFC3339Nano t))) old = Some t"
  using Parse_Format [of t] by (simp add: time_member_def plain_time json_year_def)

section \<open>The payload\<close>

definition payload_members :: "(uuid \<Rightarrow> string) \<Rightarrow> HourlyPlantStats \<Rightarrow> (string \<times> goval) list" where
  "payload_members us stats =
     [(''avg_efficiency'', float_ptr (hs_AvgEfficiency stats)), (''avg_power_con'', float_ptr (hs_AvgPowerCon stats)),
      (''avg_power_gen'', float_ptr (hs_AvgPowerGen stats)), (''avg_temp'', float_ptr (hs_AvgTemp stats)),
      (''bucket'', GString (Format_RFC3339Nano (hs_Bucket stats))),
      (''calculated_at'', GString (Format_RFC3339Nano (hs_LastCalculatedAt stats))),
      (''latitude'', float_ptr (hs_Latitude stats)), (''longitude'', float_ptr (hs_Longitude stats)),
      (''plant_name'', GString (hs_PlantName stats)), (''plant_source_id'', GString (us (hs_PlantSourceId stats))),
      (''plant_type'', GString (hs_PlantType stats)), (''sample_count'', GInt (word_of_int (hs_SampleCount stats)))]"

lemma scalar_float_ptr [simp]: "scalar (float_ptr f)"
  by (simp add: float_ptr_def split: option.split)

lemma webhook_payload_posted:
  assumes "Marshal (webhook_payload us stats) = Some raw"
  shows "raw = print_object (map as_printed (payload_members us stats))"
    "list_all good_member (map as_printed (payload_members us stats))"
proof -
  define ms where "ms = [(''bucket'', GString (Format_RFC3339Nano (hs_Bucket stats))),
           (''plant_source_id'', GString (us (hs_PlantSourceId stats))),
           (''plant_name'', GString (hs_PlantName stats)),
           (''plant_type'', GString (hs_PlantType stats)),
           (''latitude'', float_ptr (hs_Latitude stats)),
           (''longitude'', float_ptr (hs_Longitude stats)),
           (''avg_power_gen'', float_ptr (hs_AvgPowerGen stats)),
           (''avg_power_con'', float_ptr (hs_AvgPowerCon stats)),
           (''avg_efficiency'', float_ptr (hs_AvgEfficiency stats)),
           (''avg_temp'', float_ptr (hs_AvgTemp stats)),
           (''sample_count'', GInt (word_of_int (hs_SampleCount stats))),
           (''calculated_at'', GString (Format_RFC3339Nano (hs_LastCalculatedAt stats)))]"
  have "sort_key fst ms = payload_members us stats"
    unfolding ms_def payload_members_def by simp
  moreover have "list_all (\<lambda>m. scalar (snd m)) ms" by (simp add: ms_def)
  moreover have "Marshal (GMap ms) = Some raw" using assms by (simp only: webhook_payload_def ms_def)
  ultimately show "raw = print_object (map as_printed (payload_members us stats))"
      "list_all good_member (map as_printed (payload_members us stats))"
    using Marshal_object by metis+
qed

text \<open>What the receiver makes of the statistics of an hour.\<close>

definition received :: "(uuid \<Rightarrow> string) \<Rightarrow> HourlyPlantStats \<Rightarrow> WebhookPayload" where
  "received us stats =
     \<lparr>wp_Bucket = hs_Bucket stats, wp_PlantSourceId = fix_utf8 (us (hs_PlantSourceId stats)),
      wp_PlantName = fix_utf8 (hs_PlantName stats), wp_PlantType = fix_utf8 (hs_PlantType stats),
      wp_Latitude = hs_Latitude stats, wp_Longitude = hs_Longitude stats,
      wp_AvgPowerGen = hs_AvgPowerGen stats, wp_AvgPowerCon = hs_AvgPowerCon stats,
      wp_AvgEfficiency = hs_AvgEfficiency stats, wp_AvgTemp = hs_AvgTemp stats,
      wp_SampleCount = hs_SampleCount stats, wp_CalculatedAt = hs_LastCalculatedAt stats\<rparr>"

definition sendable :: "HourlyPlantStats \<Rightarrow> bool" where
  "sendable stats \<longleftrightarrow> json_year (hs_Bucket stats) \<and> json_year (hs_LastCalculatedAt stats)
     \<and> - (2 ^ 63) \<le> hs_SampleCount stats \<and> hs_SampleCount stats < 2 ^ 63"

lemma payload_back:
  assumes "Marshal (webhook_payload us stats) = Some raw" "sendable stats"
  shows "Unmarshal_payload raw = Some (received us stats)"
proof -
  note posted = webhook_payload_posted [OF assms(1)]
  have good: "Marshal (float_ptr f) \<noteq> None" if "float_ptr f \<in> snd ` set (payload_members us stats)" for f
  proof -
    from that obtain k where "(k, float_ptr f) \<in> set (payload_members us stats)" by auto
    then have "good_member (as_printed (k, float_ptr f))" using posted(2) unfolding list_all_iff by auto
    then have "Marshal (float_ptr f) = Some (the (Marshal (float_ptr f)))"
      by (simp add: good_member_def as_printed_def del: Marshal.simps)
    then show ?thesis by (metis option.distinct(1))
  qed
  have fl: "Marshal (float_ptr (hs_AvgEfficiency stats)) \<noteq> None" "Marshal (float_ptr (hs_AvgPowerCon stats)) \<noteq> None"
    "Marshal (float_ptr (hs_AvgPowerGen stats)) \<noteq> None" "Marshal (float_ptr (hs_AvgTemp stats)) \<noteq> None"
    "Marshal (float_ptr (hs_Latitude stats)) \<noteq> None" "Marshal (float_ptr (hs_Longitude stats)) \<noteq> None"
    by (rule good, simp add: payload_members_def)+
  have "Unmarshal_payload raw = set_payload_members zero_payload
      (map (\<lambda>m. (member_json m, raw_body m)) (map as_printed (payload_members us stats)))"
    unfolding posted(1) using posted(2) by (rule Unmarshal_object) (simp add: payload_members_def)
  also have "\<dots> = Some (received us stats)"
    using assms(2) int_member_back [of "hs_SampleCount stats"]
    by (simp add: payload_members_def as_printed_def member_json_def raw_body_def sendable_def set_payload_member_def
        Let_def float_member_back fl time_member_back string_member_def zero_payload_def received_def
        del: Marshal.simps)
  finally show ?thesis .
qed

section \<open>A network that reaches the receiver\<close>

definition reaches_receiver :: "('b, WebhookStore) web \<Rightarrow> string \<Rightarrow> bool" where
  "reaches_receiver W url \<longleftrightarrow>
     (\<forall>raw s. http_Do W url raw s = (case handleWebhook ''POST'' (Inr raw) s of ((code, _), s') \<Rightarrow> (Inr code, s')))"

lemma doSend_receiver:
  assumes "reaches_receiver W url" "sendable stats"
  shows "doSend W url (webhook_payload us stats) s = (r, s') \<Longrightarrow>
    s' = (if r = None then Add (received us stats) s else s)"
  using assms payload_back [of us stats]
  by (auto simp: doSend_def reaches_receiver_def handleWebhook_def split: option.splits if_splits)

definition receiver_web :: "(unit, WebhookStore) web" where
  "receiver_web =
     \<lparr>http_NewRequest = (\<lambda>url. None),
      http_Do = (\<lambda>url raw s. case handleWebhook ''POST'' (Inr raw) s of ((code, _), s') \<Rightarrow> (Inr code, s')),
      cb_New = (\<lambda>s. ()), cb_Execute = (\<lambda>f (b, w). let (r, w) = f w in (r, (b, w))),
      json_unsupported = TextError ''json: unsupported value''\<rparr>"

lemma receiver_web_facts:
  "breaker_contract (cb_Execute receiver_web)" "reaches_receiver receiver_web url"
  by (simp_all add: breaker_contract_def receiver_web_def reaches_receiver_def Let_def split: prod.split)

definition sending_coordinator :: "(unit, WebhookStore) AnalyticsCoordinator" where
  "sending_coordinator =
     (NewAnalyticsCoordinator (db one_hook_coordinator) [] ((), store_init) DefaultAnalyticsCoordinatorConfig)
       \<lparr>config := DefaultAnalyticsCoordinatorConfig\<lparr>WebhookEnabled := True\<rparr>\<rparr>"

lemma sending_coordinator_simps [simp]:
  "db sending_coordinator = db one_hook_coordinator" "MaxWebhookAttempts (config sending_coordinator) = 5"
  "web_state sending_coordinator = ((), store_init)" "webhooksSent sending_coordinator = 0"
  by (simp_all add: sending_coordinator_def NewAnalyticsCoordinator_def DefaultAnalyticsCoordinatorConfig_def
      Let_def del: one_hook_coordinator_simps(1))

lemma old_stats_sendable: "sendable (ToHourlyPlantStatsEntity old_stats)"
proof -
  have "json_year 0" "json_year 1" by code_simp+
  then show ?thesis by (simp add: sendable_def ToHourlyPlantStatsEntity_def old_stats_def)
qed

section \<open>Properties\<close>

text \<open>
  C40. The two programs agree on the format of a webhook. When the network carries the request to
  the receiver and the circuit breaker keeps its contract, a dispatched webhook is counted as
  sent exactly when the receiver has stored it, and what it stored are the hour's statistics:
  every time, number and count unchanged, every text too, bytes that are not UTF-8 replaced.
  Otherwise the receiver's store is as it was. The years have at most four digits and the count
  fits 64 bits.
\<close>

theorem webhook_round_trip:
  assumes "dispatch_webhook W us it wh c = Some c'" "wq_Attempts wh < MaxWebhookAttempts (config c)"
    "GetHourlyStats (it_stats_fault it) (wq_Bucket wh) (wq_PlantSourceId wh) (db c) = Inr (Some stats)"
    "sendable stats" "breaker_contract (cb_Execute W)" "reaches_receiver W (WebhookURL (config c))"
  shows "snd (web_state c') =
    (if webhooksSent c' = webhooksSent c then snd (web_state c)
     else Add (received us stats) (snd (web_state c)))"
proof -
  have frame: "webhooksSent c2 = webhooksSent c1 \<and> web_state c2 = web_state c1"
    if "set_status it uid status msg c1 = Some c2" for uid status msg and c1 c2 :: "('a, WebhookStore) AnalyticsCoordinator"
    using that by (auto simp: set_status_def)
  obtain b s where bs: "web_state c = (b, s)" by (cases "web_state c")
  obtain r b' s' where send: "SendPayload W (WebhookURL (config c)) (webhook_payload us stats) (b, s) = (r, (b', s'))"
    by (metis prod.exhaust)
  have "s' = (if r = None then Add (received us stats) s else s)"
    using SendPayload_cases [OF assms(5) send] doSend_receiver [OF assms(6,4), of us s r s'] by auto
  moreover have "web_state c' = (b', s')" "webhooksSent c' = (if r = None then webhooksSent c + 1 else webhooksSent c)"
    using assms(1-3) bs send
    by (auto simp: dispatch_webhook_def Let_def split: option.splits if_splits dest!: frame)
  ultimately show ?thesis using bs by simp
qed

theorem webhook_round_trip_witness:
  "\<exists>c'. dispatch_webhook receiver_web plain_uuid busy_item (ToWebhookQueueEntity one_hook) sending_coordinator = Some c'
    \<and> snd (web_state c') = Add (received plain_uuid (ToHourlyPlantStatsEntity old_stats)) store_init"
proof -
  let ?stats = "ToHourlyPlantStatsEntity old_stats"
  obtain raw where raw: "Marshal (webhook_payload plain_uuid ?stats) = Some raw"
    using one_hook_send [of plain_uuid "[]" "[]"] by blast
  have send: "SendPayload receiver_web url (webhook_payload plain_uuid ?stats) ((), store_init) =
      (None, ((), Add (received plain_uuid ?stats) store_init))" for url
    using payload_back [OF raw old_stats_sendable] raw
    by (simp add: SendPayload_def doSend_def receiver_web_def handleWebhook_def del: Marshal.simps)
  obtain c' where c': "dispatch_webhook receiver_web plain_uuid busy_item (ToWebhookQueueEntity one_hook)
      sending_coordinator = Some c'" "webhooksSent c' \<noteq> webhooksSent sending_coordinator"
    using send one_hook_facts
    by (auto simp: dispatch_webhook_def Let_def set_status_def UpdateWebhookStatus_def simp del: one_hook_coordinator_simps(1))
  have "wq_Attempts (ToWebhookQueueEntity one_hook) < MaxWebhookAttempts (config sending_coordinator)"
    by (simp add: one_hook_facts)
  from webhook_round_trip [OF c'(1) this _ old_stats_sendable receiver_web_facts] one_hook_facts(1) c'
  show ?thesis by (auto simp del: one_hook_coordinator_simps(1))
qed

end
