(* ===== verification/Spec2Isabelle.thy ===== *)
theory Spec2Isabelle
  imports Service_Pool Webhook_Round_Trip
begin

text \<open>
  Verification development of the energy plant monitoring service (Go).

  \<^bold>\<open>The program.\<close> The service reads measurements of energy plants from a Kafka topic, checks
  them, writes each one to an operational table and to an analytical table, keeps the current status
  of every plant, evaluates alert rules and reports through Telegram. Beside the consumer run: the
  workers of the two write pipelines, the reload of the alert rules, the sender of the Telegram
  texts, a coordinator that aggregates the analytical table by the hour and sends the results to a
  webhook, and an HTTP interface on the same tables. A second, small program receives the webhooks.

  The parts call each other through the ports of \<open>internal/domain/ports\<close>: the consumer
  (\<open>KafkaService\<close>) calls the message handler, that the ingestion service, and that the plant
  repository, the dual event writer, the status repository, the alert evaluation and the notifier.
  \<open>NewContainer\<close> wires them, \<open>main\<close> starts and stops them.

  \<^bold>\<open>The theories and the code they model\<close> (paths below \<open>src/\<close>; \<open>I/\<close> is \<open>internal/\<close>, \<open>A/\<close> is
  \<open>internal/infrastructure/adapters/\<close>).

  \<^item> \<open>Prelude\<close>: the collections \<open>go_defs\<close>, \<open>frame\<close> and \<open>bound\<close>, lemmas on lists and options.
  \<^item> \<open>Go_Strings\<close>, \<open>Go_Float\<close>, \<open>Go_Scan\<close>, \<open>Go_Json\<close>, \<open>Go_Base64\<close>, \<open>Go_Time\<close>, \<open>Go_Sha256\<close>: what the
    program uses of Go's library: strings as bytes with runes, \<open>float64\<close> as its 64 bits with correctly
    rounded reading and shortest printing, \<open>Sscanf\<close>, JSON (reading, printing, \<open>map[string]any\<close>),
    base64, instants with RFC 3339, SHA-256.
  \<^item> \<open>Go_Float_Back\<close>, \<open>Go_Number_Back\<close>, \<open>Go_String_Back\<close>, \<open>Go_Object_Back\<close>: what \<open>json.Marshal\<close> prints
    reads back: floats (the shortest decimal of a float is read as that float), integers, strings,
    and objects of them.
  \<^item> \<open>Domain_Errors\<close>: \<open>I/domain/errors\<close>, errors as a datatype, with \<open>errors.Is\<close> and \<open>errors.As\<close>.
  \<^item> \<open>Entities\<close>: \<open>I/domain/entities\<close> and \<open>A/repositories/models.go\<close>, records and mappers.
  \<^item> \<open>Telegram_Notifier\<close>: \<open>A/telegram/notifier.go\<close>, a record with the queue, its worker and the stages
    of \<open>Stop\<close>; the step relation \<open>notifier_step\<close>.
  \<^item> \<open>Alert_Evaluation\<close>: \<open>I/domain/services/alert_evaluation_service.go\<close>.
  \<^item> \<open>Pagination\<close>: \<open>I/domain/ports/output/pagination.go\<close>.
  \<^item> \<open>Repositories\<close>: the files \<open>A/repositories/*_repo.go\<close> of events, plants, status, rules and examples;
    a table is the list of its rows, a statement a function on it.
  \<^item> \<open>Dual_Event_Writer\<close>: \<open>A/repositories/dual_event_writer.go\<close>, two pipelines of one shape (\<open>pipe\<close>:
    channel, workers with their batches, table, and the history of what was accepted, written,
    failed, dropped); the step relation \<open>writer_step\<close>.
  \<^item> \<open>Writer_Sessions\<close>: of the same file, the connections its workers take from the database's pool,
    and its metrics reporter.
  \<^item> \<open>Event_Ingestion\<close>: \<open>I/domain/services/event_ingestion_service.go\<close> and \<open>I/api/intake_handler.go\<close>,
    the stages of an event on any ports, with the metrics.
  \<^item> \<open>Kafka_Service\<close>: \<open>I/api/kafka_service.go\<close>, \<open>A/kafka/adapter.go\<close>, \<open>I/infrastructure/tracing\<close>.
  \<^item> \<open>Ingestion_Stores\<close>: the event path as \<open>I/infrastructure/container\<close> wires it, on one record
    \<open>stores\<close>.
  \<^item> \<open>Webhook_Adapter\<close>, \<open>Analytics_Worker\<close>, \<open>Analytics_Coordinator\<close>: \<open>A/http/webhook\<close>,
    \<open>A/repositories/analytics_worker_repo.go\<close> and \<open>analytics_coordinator.go\<close>.
  \<^item> \<open>Rest_Handlers\<close>: \<open>A/rest\<close>, the handlers, the request id and the rate limit.
  \<^item> \<open>Configuration\<close>: \<open>I/infrastructure/conf\<close>, and the CORS filter of \<open>main.go\<close>.
  \<^item> \<open>Container\<close>: \<open>I/infrastructure/container/container.go\<close>, construction, health, shutdown.
  \<^item> \<open>Router\<close>: \<open>A/rest/router.go\<close> and the routes of \<open>main.go\<close>; a request served on the container.
  \<^item> \<open>Service\<close>: \<open>main.go\<close>, the start and the running service as the step relation \<open>service_step\<close>.
  \<^item> \<open>Service_Pool\<close>: the running service with the connection pool of its database, as the step relation
    \<open>pooled_step\<close>; goroutines wait for connections there, and the shutdown waits for them.
  \<^item> \<open>Webhook_Receiver\<close>: \<open>cmd/webhook-receiver/main.go\<close>; \<open>Webhook_Round_Trip\<close>: the receiver at the other
    end of the coordinator's webhooks.

  \<^bold>\<open>How state and effects are modelled.\<close> A Go struct is a record, a method a function that returns
  the updated record; a mutable global or a table is a field. An error is a value of \<open>goerr\<close>, a result
  with an error a sum or a pair with an option; a panic is \<^const>\<open>None\<close> where the code can panic. A
  goroutine is a function for one turn of its loop, and turns interleave in a step relation or a list
  of steps. The consumer keeps a log of its calls (\<open>calls\<close>), so that statements about the order of
  reading, handling, waiting and committing are statements about that log. What comes from outside,
  the broker's answers, the clock, fresh ids, faults of the database, is an argument, given per call
  or per turn; so every theorem holds for every behaviour of the outside. SQL is translated statement
  by statement to functions on the lists of rows; a fault leaves the table as it was.

  \<^bold>\<open>Third-party code\<close> is a parameter: the uuid package, the validator, gjson, the LRU cache, the
  circuit breaker and the HTTP client, the token bucket, the casts and averages of PostgreSQL, gin's
  dispatcher and CORS middleware. What is relied on is a named hypothesis: \<open>refills\<close> (a token bucket
  that had time to fill is like a new one), the laws of a cache, \<open>dispatches\<close> (a request goes to a
  route that matches), \<open>healthy\<close> (stores that find every plant and accept every event).

  \<^bold>\<open>Interfaces\<close> are locales, each interpreted on the definitions of the program.

  \<^item> \<open>first_wins\<close> and \<open>last_wins\<close> (\<open>Repositories\<close>): a store whose put keeps, or replaces, the row of a
    key; interpreted on both event tables (\<open>op_store\<close>, \<open>an_store\<close>), the status table, the hourly
    statistics and the receiver's store.
  \<^item> \<open>batch_sink\<close> (\<open>Dual_Event_Writer\<close>): what a pipeline needs of the copy of a batch; interpreted on both
    copies, so that what is reported as written is found in its table.
  \<^item> \<open>notifier_contract\<close> (\<open>Telegram_Notifier\<close>): what an enqueue keeps is kept by every client; its
    clients prove their lemmas in its context, and it is interpreted on the notifier's invariant, on
    the stage of its shutdown, and on the phases of the service.
  \<^item> \<open>consumer_relation\<close> (\<open>Kafka_Service\<close>): a relation on the log and the shared state that holds for the
    elementary steps holds for a run of the consumer. \<open>message_handlers\<close> (handlers that keep an
    invariant) and \<open>counted_handlers\<close> (handlers whose acceptances a measure counts, \<open>Container\<close>) are
    two relations of this kind, by \<open>sublocale\<close>, and are interpreted on the intake handler.
  \<^item> \<open>background_jobs\<close> (\<open>Analytics_Coordinator\<close>): jobs that run beside the dispatcher and leave the attempts
    of a webhook alone or reset them; interpreted on the aggregation. \<open>keyed_jobs\<close> extends it by the
    primary key of the queue, and is interpreted on the aggregations of other replicas.

  \<^bold>\<open>What the lemmas show.\<close>

  \<^item> Nothing disappears silently: the accounting invariant of the writer, and with it of the whole
    service (\<open>service_safe\<close>), in every interleaving; what a clean stop leaves (\<open>Stop_drains\<close>,
    \<open>exit_drains_everything\<close>), that a shutdown can always get through if the pool is larger than the
    number of workers (\<open>shutdown_gets_through\<close>), and the ways an event is lost all the same
    (\<open>committed_event_can_be_lost\<close>, \<open>late_send_is_lost\<close>, \<open>late_plant_exhausts_retries\<close>,
    \<open>cancelled_message_skipped\<close>).
  \<^item> Errors: which are permanent and which transient (\<open>ProcessEvent_classifies\<close>), what a commit needs
    (\<open>commit_needs_outcome\<close>), how long retries take (\<open>retries_are_bounded\<close>), what becomes of refused
    messages, and when the consumer gives up (\<open>consumption_ends_iff\<close>).
  \<^item> Data: what an accepted event writes, that it is served over HTTP afterwards, pages that enumerate
    the events, idempotent inserts, hourly aggregation row by row, cursors, URIs and escaped texts
    that read back, and statistics that arrive at the receiver as they were sent
    (\<open>webhook_round_trip\<close>).
  \<^item> Coordination: recomputation of dirty buckets, dispatch of webhooks, advisory locks, rate limits;
    in the running service every written event reaches the hourly statistics
    (\<open>written_event_is_aggregated\<close>), and the workers never block each other for connections if the
    pool is larger than their number (\<open>pool_never_deadlocks\<close>; \<open>small_pool_deadlocks\<close> if not).

  Properties are numbered C1 to C40 in the order of the manifest; some further theorems carry no
  number. A theorem with hypotheses has a witness that applies it to a concrete input.

  \<^bold>\<open>Bounds and fuel.\<close> The bounds are the code's: channels of 1000 events, batches of 500, a queue of
  100 texts, three retries after 1, 4 and 9 seconds (quadratic, not exponential as a comment says), more than ten connection errors, pages of at
  most 200, a limiter of 100 requests a second with a burst of 20, entries dropped after ten minutes.
  Most loops are structural recursions over the input, the rows or a list of turns. \<open>bit_len\<close> has a
  measure. \<open>follow_pages\<close> takes the number of pages as fuel; \<open>pages_enumerate_events\<close> needs one
  more than there are events. \<open>shortest_from\<close> tries at most 17 digits, which always suffice for a
  \<open>float64\<close> (\<open>seventeen_digits\<close>). An unbounded loop (consumer, workers, coordinator) is a run over any list of turns, or a
  step relation; that a shutdown can end is stated as such (\<open>shutdown_gets_through\<close>), with a measure the
  turns of the workers decrease (\<open>shutdown_progress\<close>).
  \<open>64 word\<close> is used for floats and offsets, \<open>32 word\<close> for partitions and SHA-256; durations are
  integers, cut to 64 bits where a product can wrap.

  \<^bold>\<open>Simplifications to know.\<close> A call of a message handler is one step of the service, so the check of
  the stop flag and the sends after it are not separated there; \<open>writer_step\<close> separates them, and
  \<open>late_send_is_lost\<close> shows what that allows. Go iterates a map in any order; where the order is seen,
  the model takes one order (of registration, or of the keys). A cycle of the coordinator is one step
  of the service, on the tables of that moment (\<open>on_tables\<close>); only the aggregations of other replicas
  run while it sends. A statement is atomic, as under the transactions the code uses. A time is an
  instant: one that the code prints in its own zone is printed in UTC here, which names the same
  instant.

  Waiting for a connection is modelled in \<open>Writer_Sessions\<close> and \<open>Service_Pool\<close>; \<open>service_step\<close> takes it
  as over. There, a turn of a worker holds its connections after its effect, and the next turn of
  the same goroutine waits for their return. The flush of the Kafka producer ends after its time-out.

  \<^bold>\<open>Not modelled\<close>: logging other than that of the settings and of the metrics reporters; the encoding of HTTP answers other
  than the status and the value encoded; reading the environment and the \<open>.env\<close> file; the constructors
  of client libraries beyond the settings they get; the delivery log of the producer; the HTTP listener
  and its failure; the documentation (\<open>docs/docs.go\<close>, generated); \<open>cmd/atlasloader\<close>, which prints the
  schema a library derives; the console output and static files of the webhook receiver.
\<close>

end
